(* ===== verification/Prelude.thy ===== *)
theory Prelude
  imports Main "HOL-Library.Word"
begin

text \<open>
  Shared vocabulary of the development: octets, C strings, the character classes of
  \<^verbatim>\<open>ctype.h\<close> in the C locale, the string comparisons the sources call, big-endian
  integers, and block copies on arrays of octets. Nothing here models a file of the
  repository; these are the pieces of the C language and its library the sources use.
\<close>

unbundle bit_operations_syntax

named_theorems io_simps \<open>equations of the system calls\<close>
named_theorems frame_simps \<open>what an operation leaves unchanged\<close>
named_theorems cstr_simps \<open>reading NUL-terminated strings\<close>

section \<open>Octets\<close>

text \<open>
  An octet is a HOL \<^typ>\<open>char\<close> (8 bits), so protocol text is written as string literals.
  \<open>uchar\<close> reads it as \<^verbatim>\<open>unsigned char\<close>, \<open>schar\<close> as the signed \<^verbatim>\<open>char\<close> of x86.
\<close>

type_synonym byte = char
type_synonym bytes = "char list"
type_synonym u16 = "16 word"
type_synonym u32 = "32 word"
type_synonym u64 = "64 word"

abbreviation NUL :: byte where "NUL \<equiv> CHR 0x00"

definition uchar :: "byte \<Rightarrow> nat" where
  "uchar c = of_char c"

definition schar :: "byte \<Rightarrow> int" where
  "schar c = (let n = int (uchar c) in if n < 128 then n else n - 256)"

definition byte_of :: "nat \<Rightarrow> byte" where
  "byte_of n = char_of n"

lemma uchar_bound: "uchar c < 256"
  by (simp add: uchar_def)

lemma byte_of_uchar [simp]: "byte_of (uchar c) = c"
  by (simp add: byte_of_def uchar_def)

lemma uchar_byte_of: "uchar (byte_of n) = n mod 256"
  by (simp add: byte_of_def uchar_def)

lemma uchar_inject [simp]: "uchar a = uchar b \<longleftrightarrow> a = b"
  by (simp add: uchar_def)

lemma uchar_NUL [simp]: "uchar NUL = 0"
  by (simp add: uchar_def)

lemma uchar_eq_0 [simp]: "uchar c = 0 \<longleftrightarrow> c = NUL"
  by (metis uchar_NUL uchar_inject)

lemma schar_inject [simp]: "schar a = schar b \<longleftrightarrow> a = b"
proof -
  have "uchar a < 256" "uchar b < 256" by (rule uchar_bound)+
  then have "schar a = schar b \<longleftrightarrow> uchar a = uchar b"
    unfolding schar_def Let_def by (auto split: if_splits)
  then show ?thesis by simp
qed

lemma schar_range: "-128 \<le> schar c \<and> schar c < 128"
proof -
  have "uchar c < 256" by (rule uchar_bound)
  then show ?thesis unfolding schar_def Let_def by (auto)
qed

section \<open>The character classes of \<^verbatim>\<open>ctype.h\<close>\<close>

definition isdigit :: "byte \<Rightarrow> bool" where
  "isdigit c \<longleftrightarrow> 48 \<le> uchar c \<and> uchar c \<le> 57"

definition isspace :: "byte \<Rightarrow> bool" where
  "isspace c \<longleftrightarrow> uchar c = 32 \<or> (9 \<le> uchar c \<and> uchar c \<le> 13)"

definition isalpha :: "byte \<Rightarrow> bool" where
  "isalpha c \<longleftrightarrow> (65 \<le> uchar c \<and> uchar c \<le> 90) \<or> (97 \<le> uchar c \<and> uchar c \<le> 122)"

definition isalnum :: "byte \<Rightarrow> bool" where
  "isalnum c \<longleftrightarrow> isalpha c \<or> isdigit c"

definition tolower :: "byte \<Rightarrow> byte" where
  "tolower c = (if 65 \<le> uchar c \<and> uchar c \<le> 90 then byte_of (uchar c + 32) else c)"

section \<open>C strings\<close>

text \<open>
  \<open>cstr mem\<close> reads the NUL-terminated string at the start of a memory block. \<open>None\<close> is the
  read past the end of the block that happens when there is no NUL in it.
\<close>

fun cstr :: "bytes \<Rightarrow> bytes option" where
  "cstr [] = None"
| "cstr (c # cs) = (if c = NUL then Some [] else map_option (Cons c) (cstr cs))"

lemma cstr_append [cstr_simps]: "NUL \<notin> set s \<Longrightarrow> cstr (s @ NUL # r) = Some s"
  by (induction s) auto

lemma cstr_no_NUL: "cstr mem = Some s \<Longrightarrow> NUL \<notin> set s"
  by (induction mem arbitrary: s) (auto split: if_splits)

lemma cstr_SomeD: "cstr mem = Some s \<Longrightarrow> \<exists>r. mem = s @ NUL # r"
  by (induction mem arbitrary: s) (auto split: if_splits)

text \<open>
  \<open>strncasecmp a b n == 0\<close>: equal up to case in the first \<open>n\<close> octets or up to a common NUL.
  The end of a list is the terminating NUL.
\<close>

fun strncaseeq :: "bytes \<Rightarrow> bytes \<Rightarrow> nat \<Rightarrow> bool" where
  "strncaseeq a b 0 = True"
| "strncaseeq a b (Suc n) =
     (let x = (case a of [] \<Rightarrow> NUL | c # _ \<Rightarrow> c); y = (case b of [] \<Rightarrow> NUL | c # _ \<Rightarrow> c)
      in tolower x = tolower y \<and> (x = NUL \<or> strncaseeq (tl a) (tl b) n))"

lemma strncaseeq_take: "strncaseeq a b n = strncaseeq (take n a) b n"
proof (induction a b n rule: strncaseeq.induct)
  case (2 a b n)
  then show ?case by (cases a) (simp_all add: Let_def)
qed simp

text \<open>\<open>memcmp\<close> of two blocks of the same size: 0, or the sign of the first difference.\<close>

fun memcmp :: "bytes \<Rightarrow> bytes \<Rightarrow> int" where
  "memcmp (a # as) (b # bs) =
     (if a = b then memcmp as bs else if uchar a < uchar b then -1 else 1)"
| "memcmp _ _ = 0"

lemma memcmp_eq_0: "length a = length b \<Longrightarrow> memcmp a b = 0 \<longleftrightarrow> a = b"
  by (induction a b rule: memcmp.induct) auto

section \<open>Arrays of octets\<close>

text \<open>\<open>blit off bs a\<close> is \<^verbatim>\<open>memcpy(a + off, bs, length bs)\<close>; \<open>memmove\<close> moves inside one array.\<close>

definition blit :: "nat \<Rightarrow> bytes \<Rightarrow> bytes \<Rightarrow> bytes" where
  "blit off bs a = take off a @ bs @ drop (off + length bs) a"

definition memmove :: "nat \<Rightarrow> nat \<Rightarrow> nat \<Rightarrow> bytes \<Rightarrow> bytes" where
  "memmove dst src n a = blit dst (take n (drop src a)) a"

lemma length_blit [simp]: "off + length bs \<le> length a \<Longrightarrow> length (blit off bs a) = length a"
  by (simp add: blit_def)

lemma length_memmove [simp]:
  "dst + n \<le> length a \<Longrightarrow> length (memmove dst src n a) = length a"
  by (simp add: memmove_def blit_def)

lemma take_blit [simp]: "off \<le> length a \<Longrightarrow> take off (blit off bs a) = take off a"
  by (simp add: blit_def)

lemma drop_blit: "off \<le> length a \<Longrightarrow> drop off (blit off bs a) = bs @ drop (off + length bs) a"
  by (simp add: blit_def)

lemma take_memmove [simp]:
  "dst \<le> length a \<Longrightarrow> take dst (memmove dst src n a) = take dst a"
  by (simp add: memmove_def)

lemma drop_memmove:
  "dst \<le> length a \<Longrightarrow> src + n \<le> length a \<Longrightarrow>
   drop dst (memmove dst src n a) = take n (drop src a) @ drop (dst + n) a"
  by (simp add: memmove_def drop_blit min_absorb2 le_diff_conv2)

lemma take_take_le: "i \<le> j \<Longrightarrow> take i xs = take i (take j xs)"
  by (simp add: min_absorb1)

section \<open>Runs\<close>

text \<open>
  What a call that returns, or runs into undefined behaviour, comes to: a result, or a crash
  (a read through \<^verbatim>\<open>NULL\<close> or outside an object). A call that may not return is an option of a run.
\<close>

datatype 'a run = Ret 'a | Crash

section \<open>Integers of the machine\<close>

text \<open>
  \<open>int32 x\<close> is what an \<^verbatim>\<open>int\<close> of 32 bits holds after an operation with the exact result \<open>x\<close>
  (two's complement, as the compilers of the platform do it).
\<close>

definition int32 :: "int \<Rightarrow> int" where
  "int32 x = (x + 2 ^ 31) mod 2 ^ 32 - 2 ^ 31"

lemma int32_range: "- (2 ^ 31) \<le> int32 x \<and> int32 x < 2 ^ 31"
  by (simp add: int32_def)

lemma int32_id: "- (2 ^ 31) \<le> x \<Longrightarrow> x < 2 ^ 31 \<Longrightarrow> int32 x = x"
  by (simp add: int32_def)

definition digit :: "byte \<Rightarrow> int" where
  "digit c = int (uchar c) - 48"

section \<open>Big-endian integers\<close>

definition be32 :: "nat \<Rightarrow> bytes" where
  "be32 n = [byte_of (n div 2 ^ 24), byte_of (n div 2 ^ 16), byte_of (n div 2 ^ 8), byte_of n]"

lemma length_be32 [simp]: "length (be32 n) = 4"
  by (simp add: be32_def)

section \<open>Decimal numbers\<close>

text \<open>The decimal text of a number, and reading it back digit by digit.\<close>

fun dec :: "nat \<Rightarrow> bytes" where
  "dec n = (if n < 10 then [byte_of (48 + n)] else dec (n div 10) @ [byte_of (48 + n mod 10)])"

declare dec.simps [simp del]

lemma digit_byte_of: "d < 10 \<Longrightarrow> digit (byte_of (48 + d)) = int d \<and> isdigit (byte_of (48 + d))"
  by (simp add: digit_def isdigit_def uchar_byte_of)

lemma dec_digits: "c \<in> set (dec n) \<Longrightarrow> isdigit c"
proof (induction n rule: dec.induct)
  case (1 n)
  then show ?case
    using digit_byte_of [of n] digit_byte_of [of "n mod 10"] by (subst (asm) (2) dec.simps) (auto split: if_splits)
qed

lemma dec_Cons: "\<exists>c cs. dec n = c # cs"
  by (cases "dec n") (auto simp: dec.simps [of n] split: if_splits)

lemma foldl_dec:
  "foldl (\<lambda>i c. i * 10 + of_int (digit c)) (0 :: 'a :: comm_ring_1) (dec n) = of_nat n"
proof (induction n rule: dec.induct)
  case (1 n)
  show ?case
  proof (cases "n < 10")
    case True
    then show ?thesis using digit_byte_of [of n] by (subst dec.simps) simp
  next
    case False
    have "of_nat n = of_nat (n div 10) * (10 :: 'a) + of_nat (n mod 10)"
      by (metis div_mult_mod_eq of_nat_add of_nat_mult of_nat_numeral)
    then show ?thesis
      using False 1 digit_byte_of [of "n mod 10"] by (subst dec.simps) simp
  qed
qed

text \<open>The same with the wrap-around of an \<^verbatim>\<open>int\<close> at each step.\<close>

lemma foldl_dec_int32: "n < 2 ^ 31 \<Longrightarrow> foldl (\<lambda>i c. int32 (i * 10 + digit c)) 0 (dec n) = int n"
proof (induction n rule: dec.induct)
  case (1 n)
  have d: "digit (byte_of (48 + n mod 10)) = int (n mod 10)" using digit_byte_of [of "n mod 10"] by simp
  have "int (n div 10) * 10 + int (n mod 10) = int n" by (simp add: zdiv_int zmod_int)
  then have i: "int32 (int (n div 10) * 10 + int (n mod 10)) = int n" using 1(2) by (simp add: int32_id)
  show ?case
  proof (cases "n < 10")
    case True
    then have "int32 (int n) = int n" by (simp add: int32_id)
    then show ?thesis using True digit_byte_of [of n] by (subst dec.simps) simp
  next
    case False
    then have "foldl (\<lambda>i c. int32 (i * 10 + digit c)) 0 (dec (n div 10)) = int (n div 10)" using 1 by simp
    then show ?thesis using False d i by (subst dec.simps) simp
  qed
qed

text \<open>\<^verbatim>\<open>printf\<close> with \<^verbatim>\<open>%d\<close>, and \<^verbatim>\<open>snprintf\<close> into a buffer of \<open>n\<close> octets.\<close>

definition fmt_d :: "int \<Rightarrow> bytes" where
  "fmt_d i = (if i < 0 then CHR ''-'' # dec (nat (- i)) else dec (nat i))"

definition snprintf :: "nat \<Rightarrow> bytes \<Rightarrow> bytes" where
  "snprintf n s = take (n - 1) s"

end
