(* ===== verification/MD5.thy ===== *)
theory MD5
  imports Prelude
begin

text \<open>
  The MD5 digest of \<^verbatim>\<open>src/md5.c\<close>: the context, the block function as the list of the 64
  \<^verbatim>\<open>STEP\<close> lines of the source, the streaming update with its partial block and its 61-bit
  octet counter, the padding and the hexadecimal output.
\<close>

section \<open>Context and block function\<close>

record md5 =
  md_hi :: u32
  md_lo :: u32
  md_a :: u32
  md_b :: u32
  md_c :: u32
  md_d :: u32
  md_buf :: bytes     \<comment> \<open>64 octets\<close>

text \<open>The round functions, in the optimised forms of the source.\<close>

definition F :: "u32 \<Rightarrow> u32 \<Rightarrow> u32 \<Rightarrow> u32" where
  "F x y z = z XOR (x AND (y XOR z))"

definition G :: "u32 \<Rightarrow> u32 \<Rightarrow> u32 \<Rightarrow> u32" where
  "G x y z = y XOR (z AND (x XOR y))"

definition H :: "u32 \<Rightarrow> u32 \<Rightarrow> u32 \<Rightarrow> u32" where
  "H x y z = (x XOR y) XOR z"

definition H2 :: "u32 \<Rightarrow> u32 \<Rightarrow> u32 \<Rightarrow> u32" where
  "H2 x y z = x XOR (y XOR z)"

definition I :: "u32 \<Rightarrow> u32 \<Rightarrow> u32 \<Rightarrow> u32" where
  "I x y z = y XOR (x OR NOT z)"

text \<open>The four working variables \<^verbatim>\<open>a, b, c, d\<close> of \<^verbatim>\<open>body\<close>, and the names the steps use for them.\<close>

datatype reg = RA | RB | RC | RD

type_synonym quad = "u32 \<times> u32 \<times> u32 \<times> u32"

fun rget :: "quad \<Rightarrow> reg \<Rightarrow> u32" where
  "rget (a, b, c, d) RA = a"
| "rget (a, b, c, d) RB = b"
| "rget (a, b, c, d) RC = c"
| "rget (a, b, c, d) RD = d"

fun rset :: "quad \<Rightarrow> reg \<Rightarrow> u32 \<Rightarrow> quad" where
  "rset (a, b, c, d) RA v = (v, b, c, d)"
| "rset (a, b, c, d) RB v = (a, v, c, d)"
| "rset (a, b, c, d) RC v = (a, b, v, d)"
| "rset (a, b, c, d) RD v = (a, b, c, v)"

definition rotl :: "nat \<Rightarrow> u32 \<Rightarrow> u32" where
  "rotl s x = push_bit s x OR drop_bit (32 - s) (x AND 0xffffffff)"

text \<open>\<^verbatim>\<open>STEP(f, a, b, c, d, x, t, s)\<close>; the fifth argument is the index of the word of the block.\<close>

datatype step = STEP "u32 \<Rightarrow> u32 \<Rightarrow> u32 \<Rightarrow> u32" reg reg reg reg nat u32 nat

fun exec_step :: "(nat \<Rightarrow> u32) \<Rightarrow> step \<Rightarrow> quad \<Rightarrow> quad" where
  "exec_step x (STEP f a b c d k t s) r =
     (let v = rget r a + (f (rget r b) (rget r c) (rget r d) + x k + t)
      in rset r a (rotl s v + rget r b))"

definition body_steps :: "step list" where
  "body_steps = [
    STEP F RA RB RC RD 0 0xd76aa478 7,
    STEP F RD RA RB RC 1 0xe8c7b756 12,
    STEP F RC RD RA RB 2 0x242070db 17,
    STEP F RB RC RD RA 3 0xc1bdceee 22,
    STEP F RA RB RC RD 4 0xf57c0faf 7,
    STEP F RD RA RB RC 5 0x4787c62a 12,
    STEP F RC RD RA RB 6 0xa8304613 17,
    STEP F RB RC RD RA 7 0xfd469501 22,
    STEP F RA RB RC RD 8 0x698098d8 7,
    STEP F RD RA RB RC 9 0x8b44f7af 12,
    STEP F RC RD RA RB 10 0xffff5bb1 17,
    STEP F RB RC RD RA 11 0x895cd7be 22,
    STEP F RA RB RC RD 12 0x6b901122 7,
    STEP F RD RA RB RC 13 0xfd987193 12,
    STEP F RC RD RA RB 14 0xa679438e 17,
    STEP F RB RC RD RA 15 0x49b40821 22,
    STEP G RA RB RC RD 1 0xf61e2562 5,
    STEP G RD RA RB RC 6 0xc040b340 9,
    STEP G RC RD RA RB 11 0x265e5a51 14,
    STEP G RB RC RD RA 0 0xe9b6c7aa 20,
    STEP G RA RB RC RD 5 0xd62f105d 5,
    STEP G RD RA RB RC 10 0x02441453 9,
    STEP G RC RD RA RB 15 0xd8a1e681 14,
    STEP G RB RC RD RA 4 0xe7d3fbc8 20,
    STEP G RA RB RC RD 9 0x21e1cde6 5,
    STEP G RD RA RB RC 14 0xc33707d6 9,
    STEP G RC RD RA RB 3 0xf4d50d87 14,
    STEP G RB RC RD RA 8 0x455a14ed 20,
    STEP G RA RB RC RD 13 0xa9e3e905 5,
    STEP G RD RA RB RC 2 0xfcefa3f8 9,
    STEP G RC RD RA RB 7 0x676f02d9 14,
    STEP G RB RC RD RA 12 0x8d2a4c8a 20,
    STEP H RA RB RC RD 5 0xfffa3942 4,
    STEP H2 RD RA RB RC 8 0x8771f681 11,
    STEP H RC RD RA RB 11 0x6d9d6122 16,
    STEP H2 RB RC RD RA 14 0xfde5380c 23,
    STEP H RA RB RC RD 1 0xa4beea44 4,
    STEP H2 RD RA RB RC 4 0x4bdecfa9 11,
    STEP H RC RD RA RB 7 0xf6bb4b60 16,
    STEP H2 RB RC RD RA 10 0xbebfbc70 23,
    STEP H RA RB RC RD 13 0x289b7ec6 4,
    STEP H2 RD RA RB RC 0 0xeaa127fa 11,
    STEP H RC RD RA RB 3 0xd4ef3085 16,
    STEP H2 RB RC RD RA 6 0x04881d05 23,
    STEP H RA RB RC RD 9 0xd9d4d039 4,
    STEP H2 RD RA RB RC 12 0xe6db99e5 11,
    STEP H RC RD RA RB 15 0x1fa27cf8 16,
    STEP H2 RB RC RD RA 2 0xc4ac5665 23,
    STEP I RA RB RC RD 0 0xf4292244 6,
    STEP I RD RA RB RC 7 0x432aff97 10,
    STEP I RC RD RA RB 14 0xab9423a7 15,
    STEP I RB RC RD RA 5 0xfc93a039 21,
    STEP I RA RB RC RD 12 0x655b59c3 6,
    STEP I RD RA RB RC 3 0x8f0ccc92 10,
    STEP I RC RD RA RB 10 0xffeff47d 15,
    STEP I RB RC RD RA 1 0x85845dd1 21,
    STEP I RA RB RC RD 8 0x6fa87e4f 6,
    STEP I RD RA RB RC 15 0xfe2ce6e0 10,
    STEP I RC RD RA RB 6 0xa3014314 15,
    STEP I RB RC RD RA 13 0x4e0811a1 21,
    STEP I RA RB RC RD 4 0xf7537e82 6,
    STEP I RD RA RB RC 11 0xbd3af235 10,
    STEP I RC RD RA RB 2 0x2ad7d2bb 15,
    STEP I RB RC RD RA 9 0xeb86d391 21]"

text \<open>\<open>SET n\<close>: the little-endian word at offset \<open>4 n\<close> of the data.\<close>

definition SET :: "bytes \<Rightarrow> nat \<Rightarrow> u32" where
  "SET ptr n = of_nat (uchar (ptr ! (n * 4))) OR push_bit 8 (of_nat (uchar (ptr ! (n * 4 + 1))))
     OR push_bit 16 (of_nat (uchar (ptr ! (n * 4 + 2))))
     OR push_bit 24 (of_nat (uchar (ptr ! (n * 4 + 3))))"

definition body_block :: "bytes \<Rightarrow> quad \<Rightarrow> quad" where
  "body_block ptr q =
     (case q of (saved_a, saved_b, saved_c, saved_d) \<Rightarrow>
        (case fold (exec_step (SET ptr)) body_steps q of
           (a, b, c, d) \<Rightarrow> (a + saved_a, b + saved_b, c + saved_c, d + saved_d)))"

text \<open>The loop of \<^verbatim>\<open>body\<close> over \<open>n\<close> blocks of 64 octets (\<^verbatim>\<open>size\<close> is \<open>64 n\<close>).\<close>

fun body_loop :: "nat \<Rightarrow> bytes \<Rightarrow> quad \<Rightarrow> quad" where
  "body_loop 0 ptr q = q"
| "body_loop (Suc n) ptr q = body_loop n (drop 64 ptr) (body_block ptr q)"

definition body :: "md5 \<Rightarrow> bytes \<Rightarrow> nat \<Rightarrow> md5" where
  "body ctx dat n =
     (case body_loop n dat (md_a ctx, md_b ctx, md_c ctx, md_d ctx) of
        (a, b, c, d) \<Rightarrow> ctx\<lparr>md_a := a, md_b := b, md_c := c, md_d := d\<rparr>)"

section \<open>Init, update, output\<close>

text \<open>\<^verbatim>\<open>pgr_md5_init\<close> leaves the block buffer of the caller as it is.\<close>

definition pgr_md5_init :: "md5 \<Rightarrow> md5" where
  "pgr_md5_init ctx = ctx\<lparr>md_a := 0x67452301, md_b := 0xefcdab89, md_c := 0x98badcfe,
                          md_d := 0x10325476, md_lo := 0, md_hi := 0\<rparr>"

definition pgr_md5_update :: "md5 \<Rightarrow> bytes \<Rightarrow> md5" where
  "pgr_md5_update ctx dat =
     (let saved_lo = md_lo ctx;
          size = length dat;
          lo = ucast ((ucast saved_lo + of_nat size :: u64) AND 0x1fffffff) :: u32;
          hi = md_hi ctx + (if lo < saved_lo then 1 else 0) + ucast (drop_bit 29 (of_nat size :: u64));
          ctx1 = ctx\<lparr>md_lo := lo, md_hi := hi\<rparr>;
          used = unat (saved_lo AND 0x3f);
          avail = 64 - used
      in if used \<noteq> 0 \<and> size < avail then ctx1\<lparr>md_buf := blit used dat (md_buf ctx1)\<rparr>
         else
           (let ctx2 = (if used \<noteq> 0
                        then (let c = ctx1\<lparr>md_buf := blit used (take avail dat) (md_buf ctx1)\<rparr>
                              in body c (md_buf c) 1)
                        else ctx1);
                dat2 = (if used \<noteq> 0 then drop avail dat else dat);
                n = length dat2 div 64;
                ctx3 = (if 64 \<le> length dat2 then body ctx2 dat2 n else ctx2);
                dat3 = (if 64 \<le> length dat2 then drop (64 * n) dat2 else dat2)
            in ctx3\<lparr>md_buf := blit 0 dat3 (md_buf ctx3)\<rparr>))"

text \<open>
  The four octets of a word, least significant first: each assignment to an
  \<^verbatim>\<open>unsigned char\<close> keeps the low 8 bits.
\<close>

definition low8 :: "u32 \<Rightarrow> byte" where
  "low8 w = byte_of (unat (ucast w :: 8 word))"

definition le32 :: "u32 \<Rightarrow> bytes" where
  "le32 w = [low8 w, low8 (drop_bit 8 w), low8 (drop_bit 16 w), low8 (drop_bit 24 w)]"

definition md5_zero :: md5 where
  "md5_zero = \<lparr>md_hi = 0, md_lo = 0, md_a = 0, md_b = 0, md_c = 0, md_d = 0,
               md_buf = replicate 64 NUL\<rparr>"

text \<open>The digest, and the context it leaves: \<^verbatim>\<open>memset(ctx, 0, sizeof(*ctx))\<close>.\<close>

definition pgr_md5_raw :: "md5 \<Rightarrow> bytes \<times> md5" where
  "pgr_md5_raw ctx =
     (let used = unat (md_lo ctx AND 0x3f);
          ctx1 = ctx\<lparr>md_buf := (md_buf ctx)[used := byte_of 0x80]\<rparr>;
          used1 = used + 1;
          avail = 64 - used1;
          full = (avail < 8);
          ctx2 = (if full
                  then (let c = ctx1\<lparr>md_buf := blit used1 (replicate avail NUL) (md_buf ctx1)\<rparr>
                        in body c (md_buf c) 1)
                  else ctx1);
          used2 = (if full then 0 else used1);
          avail2 = (if full then 64 else avail);
          buf1 = blit used2 (replicate (avail2 - 8) NUL) (md_buf ctx2);
          lo = push_bit 3 (md_lo ctx2);
          buf2 = blit 60 (le32 (md_hi ctx2)) (blit 56 (le32 lo) buf1);
          ctx3 = body (ctx2\<lparr>md_lo := lo, md_buf := buf2\<rparr>) buf2 1
      in (le32 (md_a ctx3) @ le32 (md_b ctx3) @ le32 (md_c ctx3) @ le32 (md_d ctx3), md5_zero))"

definition hex_digit :: "nat \<Rightarrow> byte" where
  "hex_digit u = (if u < 0xa then byte_of (u + 48) else byte_of (u - 0xa + 97))"

definition pgr_md5_hex :: "md5 \<Rightarrow> bytes \<times> md5" where
  "pgr_md5_hex ctx =
     (let (raw, ctx1) = pgr_md5_raw ctx
      in (concat (map (\<lambda>c. [hex_digit (uchar c div 16 mod 16), hex_digit (uchar c mod 16)]) raw),
          ctx1))"


end
