(* ===== verification/Sysio.thy ===== *)
theory Sysio
  imports Prelude
begin

text \<open>
  The operating system as the sources see it: \<^verbatim>\<open>read\<close>, \<^verbatim>\<open>write\<close>, \<^verbatim>\<open>tmpfile\<close>, \<^verbatim>\<open>lseek\<close>
  and \<^verbatim>\<open>close\<close> on an explicit world. For every descriptor the world holds the results its
  reads will have (\<open>rdq\<close>) and the sizes its writes will accept (\<open>wrq\<close>), so that short
  reads, short writes, failures and the end of a stream are all inputs of the model and
  every theorem about a world holds for every such schedule. The socket calls take their
  results from one queue (\<open>netq\<close>, in the order of the calls) and leave a log of what was asked.
\<close>

datatype rd = Chunk bytes | RdErr
datatype wr = Accept nat | WrErr

text \<open>A socket address: port and address octets; the calls on sockets the sources make.\<close>

datatype sockaddr = SIN u16 bytes | SIN6 u16 bytes

datatype netcall = Socket int | NoDelay int | ReuseAddr int | V6Only int
  | Bind int sockaddr | Listen int int | Connect int sockaddr

record world =
  rdq    :: "int \<Rightarrow> rd list"                \<comment> \<open>what the reads on a descriptor will return\<close>
  wrq    :: "int \<Rightarrow> wr list"                \<comment> \<open>what the writes will accept; all of it, once empty\<close>
  sent   :: "int \<Rightarrow> bytes"                  \<comment> \<open>octets written to a socket, in order\<close>
  files  :: "int \<Rightarrow> (bytes \<times> nat) option"   \<comment> \<open>temporary files: contents and offset\<close>
  tmpq   :: "int list"                        \<comment> \<open>descriptors \<^verbatim>\<open>tmpfile\<close> will return; none: it fails\<close>
  closed :: "int list"                        \<comment> \<open>descriptors closed so far, last first\<close>
  netq   :: "int list"                        \<comment> \<open>what the socket calls will return; none: \<open>-1\<close>\<close>
  netlog :: "netcall list"                    \<comment> \<open>the socket calls made so far, last first\<close>

section \<open>System calls\<close>

text \<open>\<open>sys_read fd k w\<close>: the result (\<open>-1\<close>, \<open>0\<close> at the end, or a count), the octets, the world.\<close>

definition sys_read :: "int \<Rightarrow> nat \<Rightarrow> world \<Rightarrow> int \<times> bytes \<times> world" where
  "sys_read fd k w =
     (case files w fd of
        Some (c, off) \<Rightarrow>
          (let bs = take k (drop off c)
           in (int (length bs), bs, w\<lparr>files := (files w)(fd := Some (c, off + length bs))\<rparr>))
      | None \<Rightarrow>
          (if k = 0 then (0, [], w)
           else (case rdq w fd of
                   [] \<Rightarrow> (0, [], w)
                 | RdErr # q \<Rightarrow> (-1, [], w\<lparr>rdq := (rdq w)(fd := q)\<rparr>)
                 | Chunk bs # q \<Rightarrow>
                     (if length bs \<le> k
                      then (int (length bs), bs, w\<lparr>rdq := (rdq w)(fd := q)\<rparr>)
                      else (int k, take k bs,
                            w\<lparr>rdq := (rdq w)(fd := Chunk (drop k bs) # q)\<rparr>)))))"

definition put :: "int \<Rightarrow> bytes \<Rightarrow> world \<Rightarrow> world" where
  "put fd bs w =
     (case files w fd of
        Some (c, off) \<Rightarrow>
          w\<lparr>files := (files w)(fd := Some (take off c @ bs @ drop (off + length bs) c,
                                              off + length bs))\<rparr>
      | None \<Rightarrow> w\<lparr>sent := (sent w)(fd := sent w fd @ bs)\<rparr>)"

definition sys_write :: "int \<Rightarrow> bytes \<Rightarrow> world \<Rightarrow> int \<times> world" where
  "sys_write fd bs w =
     (case wrq w fd of
        [] \<Rightarrow> (int (length bs), put fd bs w)
      | WrErr # q \<Rightarrow> (-1, w\<lparr>wrq := (wrq w)(fd := q)\<rparr>)
      | Accept k # q \<Rightarrow>
          (let n = min k (length bs)
           in (int n, put fd (take n bs) (w\<lparr>wrq := (wrq w)(fd := q)\<rparr>))))"

definition sys_tmpfile :: "world \<Rightarrow> int \<times> world" where
  "sys_tmpfile w =
     (case tmpq w of
        [] \<Rightarrow> (-1, w)
      | fd # q \<Rightarrow> (fd, w\<lparr>tmpq := q, files := (files w)(fd := Some ([], 0))\<rparr>))"

definition sys_tell :: "int \<Rightarrow> world \<Rightarrow> nat" where
  "sys_tell fd w = (case files w fd of Some (c, off) \<Rightarrow> off | None \<Rightarrow> 0)"

definition sys_rewind :: "int \<Rightarrow> world \<Rightarrow> world" where
  "sys_rewind fd w =
     (case files w fd of
        Some (c, off) \<Rightarrow> w\<lparr>files := (files w)(fd := Some (c, 0))\<rparr>
      | None \<Rightarrow> w)"

definition sys_close :: "int \<Rightarrow> world \<Rightarrow> world" where
  "sys_close fd w = w\<lparr>files := (files w)(fd := None), closed := fd # closed w\<rparr>"

definition sys_net :: "netcall \<Rightarrow> world \<Rightarrow> int \<times> world" where
  "sys_net c w =
     (case netq w of
        [] \<Rightarrow> (-1, w\<lparr>netlog := c # netlog w\<rparr>)
      | r # q \<Rightarrow> (r, w\<lparr>netq := q, netlog := c # netlog w\<rparr>))"

section \<open>What a read does to the input of a socket\<close>

text \<open>\<open>stream q\<close>: the octets a reader can still get before the first failure or end.\<close>

fun stream :: "rd list \<Rightarrow> bytes" where
  "stream (Chunk (b # bs) # q) = (b # bs) @ stream q"
| "stream _ = []"

lemma stream_Chunk [simp]: "bs \<noteq> [] \<Longrightarrow> stream (Chunk bs # q) = bs @ stream q"
  by (cases bs) auto

definition input :: "int \<Rightarrow> world \<Rightarrow> bytes" where
  "input fd w = stream (rdq w fd)"

text \<open>
  Everything a world keeps when only the input of \<open>fd\<close> moves, and when only octets are
  written.
\<close>

lemma sys_read_socket:
  assumes "sys_read fd k w = (n, bs, w')" and "files w fd = None" and "0 < n"
  shows "n = int (length bs)" and "length bs \<le> k" and "bs \<noteq> []"
    and "input fd w = bs @ input fd w'"
    and "\<exists>q. w' = w\<lparr>rdq := (rdq w)(fd := q)\<rparr>"
proof -
  from assms(2,3) have *: "n = int (length bs) \<and> length bs \<le> k \<and> bs \<noteq> [] \<and>
      input fd w = bs @ input fd w' \<and> (\<exists>q. w' = w\<lparr>rdq := (rdq w)(fd := q)\<rparr>)"
    using assms(1)
    by (cases "rdq w fd" rule: stream.cases)
       (auto simp: sys_read_def input_def simp del: stream.simps(1) split: if_splits)
  from * show "n = int (length bs)" and "length bs \<le> k" and "bs \<noteq> []"
    and "input fd w = bs @ input fd w'"
    and "\<exists>q. w' = w\<lparr>rdq := (rdq w)(fd := q)\<rparr>" by blast+
qed

lemma sys_read_available:
  assumes "files w fd = None" and "0 < k" and "input fd w \<noteq> []"
  shows "\<exists>n bs w'. sys_read fd k w = (n, bs, w') \<and> 0 < n"
  using assms
  by (cases "rdq w fd" rule: stream.cases) (auto simp: sys_read_def input_def)

lemma sys_read_length: "sys_read fd k w = (n, bs, w') \<Longrightarrow> 0 < n \<Longrightarrow> n = int (length bs)"
  by (auto simp: sys_read_def split: option.splits if_splits list.splits rd.splits)

lemma sys_read_progress:
  assumes "(n, bs, w') = sys_read fd k w" and "\<not> n \<le> 0"
  shows "n = int (length bs)" and "0 < length bs"
proof -
  from assms show *: "n = int (length bs)" by (intro sys_read_length [of fd k w n bs w']) auto
  with assms(2) show "0 < length bs" by simp
qed

lemma sys_read_bound: "sys_read fd k w = (n, bs, w') \<Longrightarrow> length bs \<le> k"
  by (auto simp: sys_read_def split: option.splits if_splits list.splits rd.splits)

lemma sys_write_bound: "sys_write fd bs w = (n, w') \<Longrightarrow> n \<le> int (length bs)"
  by (auto simp: sys_write_def Let_def split: list.splits wr.splits)

lemma sys_write_all [io_simps]:
  "wrq w fd = [] \<Longrightarrow> sys_write fd bs w = (int (length bs), put fd bs w)"
  by (simp add: sys_write_def)

lemma put_fields [frame_simps]:
  "rdq (put fd bs w) = rdq w" "wrq (put fd bs w) = wrq w" "tmpq (put fd bs w) = tmpq w"
  "closed (put fd bs w) = closed w" "netq (put fd bs w) = netq w" "netlog (put fd bs w) = netlog w"
  by (simp_all add: put_def split: option.splits)

lemma put_socket [io_simps]:
  "files w fd = None \<Longrightarrow> put fd bs w = w\<lparr>sent := (sent w)(fd := sent w fd @ bs)\<rparr>"
  by (simp add: put_def)

lemma put_file [io_simps]:
  "files w fd = Some (c, length c) \<Longrightarrow>
   put fd bs w = w\<lparr>files := (files w)(fd := Some (c @ bs, length (c @ bs)))\<rparr>"
  by (simp add: put_def)

end
