(* ===== verification/Msg.thy ===== *)
theory Msg
  imports Sysio
begin

text \<open>
  The message buffer of \<^verbatim>\<open>src/msg.c\<close>: the \<^verbatim>\<open>MBUF\<close> structure and its operations, with the
  reads and writes they make. Offsets are naturals; \<^verbatim>\<open>start <= fill <= len\<close> is the invariant
  \<open>mbuf_wf\<close> under which the unsigned subtractions of the source do not wrap.
\<close>

section \<open>The buffer\<close>

record mbuf =
  infd  :: int     \<comment> \<open>descriptor to read from\<close>
  outfd :: int     \<comment> \<open>descriptor to write to\<close>
  cache :: int     \<comment> \<open>overflow file; negative: none\<close>
  start :: nat     \<comment> \<open>offset of the next message\<close>
  fill  :: nat     \<comment> \<open>offset of the next read\<close>
  len   :: nat     \<comment> \<open>size of the buffer\<close>
  buf   :: bytes

definition mbuf_wf :: "mbuf \<Rightarrow> bool" where
  "mbuf_wf m \<longleftrightarrow> start m \<le> fill m \<and> fill m \<le> len m \<and> length (buf m) = len m"

definition available :: "mbuf \<Rightarrow> nat" where
  "available m = fill m - start m"

text \<open>The octets that are buffered and not yet consumed.\<close>

definition window :: "mbuf \<Rightarrow> bytes" where
  "window m = take (available m) (drop (start m) (buf m))"

section \<open>Integers in messages\<close>

text \<open>
  The macros \<^verbatim>\<open>u16\<close> and \<^verbatim>\<open>u32\<close>. In \<^verbatim>\<open>u32\<close> the cast \<^verbatim>\<open>(uint16_t)\<close> binds to the first operand
  only, after its shift by 24.
\<close>

definition u16_of :: "byte \<Rightarrow> byte \<Rightarrow> u16" where
  "u16_of b0 b1 = push_bit 8 (of_nat (uchar b0)) OR of_nat (uchar b1)"

definition u32_of :: "byte \<Rightarrow> byte \<Rightarrow> byte \<Rightarrow> byte \<Rightarrow> u32" where
  "u32_of b0 b1 b2 b3 =
     ucast (ucast (push_bit 24 (of_nat (uchar b0) :: u32)) :: u16)
     OR push_bit 16 (of_nat (uchar b1)) OR push_bit 8 (of_nat (uchar b2)) OR of_nat (uchar b3)"

definition u16_at :: "bytes \<Rightarrow> nat \<Rightarrow> u16" where
  "u16_at b i = u16_of (b ! i) (b ! (i + 1))"

definition u32_at :: "bytes \<Rightarrow> nat \<Rightarrow> u32" where
  "u32_at b i = u32_of (b ! i) (b ! (i + 1)) (b ! (i + 2)) (b ! (i + 3))"

section \<open>Inspecting the current message\<close>

definition msize :: "mbuf \<Rightarrow> u32" where
  "msize m = (if available m < 5 then 0
              else if buf m ! start m = NUL then u32_at (buf m) (start m)
              else u32_at (buf m) (start m + 1) + 1)"

definition MSG_STARTUP :: int where "MSG_STARTUP = 1"
definition MSG_SSLREQ :: int where "MSG_SSLREQ = 2"
definition MSG_CANCEL :: int where "MSG_CANCEL = 3"
definition MBUF_SAME_FD :: int where "MBUF_SAME_FD = -2"
definition MBUF_NO_FD :: int where "MBUF_NO_FD = -1"

lemmas msg_constants = MSG_STARTUP_def MSG_SSLREQ_def MSG_CANCEL_def

definition pgr_mbuf_msglength :: "mbuf \<Rightarrow> u32" where
  "pgr_mbuf_msglength m =
     (if available m < 5 then 0
      else if buf m ! start m = NUL then u32_at (buf m) (start m) - 4
      else u32_at (buf m) (start m + 1) - 4)"

definition pgr_mbuf_msgtype :: "mbuf \<Rightarrow> int" where
  "pgr_mbuf_msgtype m =
     (if available m = 0 then -1
      else if buf m ! start m = NUL then
        (let l = pgr_mbuf_msglength m
         in if l = 4 \<and> 8 \<le> available m \<and> u16_at (buf m) (start m + 4) = 1234
               \<and> u16_at (buf m) (start m + 6) = 5679 then MSG_SSLREQ
            else if l = 12 then MSG_CANCEL
            else if 5 \<le> l then MSG_STARTUP
            else -1)
      else schar (buf m ! start m))"

text \<open>
  \<open>pgr_mbuf_data m at l\<close> is the offset in the buffer of the pointer the code returns, \<open>None\<close>
  for \<^verbatim>\<open>NULL\<close>. The test \<^verbatim>\<open>available(m) < 0\<close> of the source compares an unsigned value and never
  holds. \<open>data_mem\<close> is the memory from that pointer to the end of the buffer.
\<close>

definition pgr_mbuf_data :: "mbuf \<Rightarrow> nat \<Rightarrow> nat \<Rightarrow> nat option" where
  "pgr_mbuf_data m at l =
     (let at' = at + (if buf m ! start m = NUL then 0 else 1) + 4
      in if available m < at' + l then None else Some (start m + at'))"

definition data_mem :: "mbuf \<Rightarrow> nat \<Rightarrow> bytes" where
  "data_mem m p = drop p (buf m)"

definition pgr_mbuf_u16 :: "mbuf \<Rightarrow> nat \<Rightarrow> int" where
  "pgr_mbuf_u16 m at =
     (case pgr_mbuf_data m at 2 of None \<Rightarrow> -1 | Some p \<Rightarrow> int (unat (u16_at (buf m) p)))"

definition pgr_mbuf_u32 :: "mbuf \<Rightarrow> nat \<Rightarrow> int" where
  "pgr_mbuf_u32 m at =
     (case pgr_mbuf_data m at 2 of None \<Rightarrow> -1 | Some p \<Rightarrow> int (unat (u32_at (buf m) p)))"

text \<open>
  The field scan of \<^verbatim>\<open>pgr_mbuf_iserror\<close>: \<open>skip_field\<close> is the inner loop that stops at the next
  NUL or at \<^verbatim>\<open>fill\<close>. The scan is bounded by what is buffered, not by the message's length.
\<close>

function skip_field :: "bytes \<Rightarrow> nat \<Rightarrow> nat \<Rightarrow> nat" where
  "skip_field b f n = (if n < f \<and> b ! n \<noteq> NUL then skip_field b f (Suc n) else n)"
  by pat_completeness auto
termination by (relation "measure (\<lambda>(b, f, n). f - n)") auto

declare skip_field.simps [simp del]

lemma skip_field_ge: "n \<le> skip_field b f n"
proof (induction b f n rule: skip_field.induct)
  case (1 b f n)
  then show ?case by (subst skip_field.simps) auto
qed

function scan_fields :: "bytes \<Rightarrow> nat \<Rightarrow> bytes \<Rightarrow> nat \<Rightarrow> int" where
  "scan_fields b f code n =
     (if n < f then
        (if b ! n = NUL then 1
         else if b ! n = CHR ''C'' \<and> n + 6 < f
         then memcmp (take 5 (drop (n + 1) b)) (take 5 code)
         else scan_fields b f code (Suc (skip_field b f (Suc n))))
      else 1)"
  by pat_completeness auto
termination
proof (relation "measure (\<lambda>(b, f, code, n). f - n)", simp, clarsimp)
  fix b :: bytes and f n :: nat
  assume "n < f"
  moreover have "Suc n \<le> skip_field b f (Suc n)" by (rule skip_field_ge)
  ultimately show "f - Suc (skip_field b f (Suc n)) < f - n" by arith
qed

declare scan_fields.simps [simp del]

definition pgr_mbuf_iserror :: "mbuf \<Rightarrow> bytes option \<Rightarrow> int" where
  "pgr_mbuf_iserror m code =
     (if pgr_mbuf_msgtype m \<noteq> schar CHR ''E'' then 1
      else (case code of None \<Rightarrow> 0
            | Some c \<Rightarrow> scan_fields (buf m) (fill m) c (start m + 5)))"

section \<open>Setting up and appending\<close>

definition pgr_mbuf_new :: "nat \<Rightarrow> mbuf" where
  "pgr_mbuf_new l = \<lparr>infd = -1, outfd = -1, cache = -1, start = 0, fill = 0, len = l,
                     buf = replicate l NUL\<rparr>"

definition pgr_mbuf_setfd :: "mbuf \<Rightarrow> int \<Rightarrow> int \<Rightarrow> mbuf" where
  "pgr_mbuf_setfd m i out =
     (let m1 = (if i \<noteq> MBUF_SAME_FD then m\<lparr>infd := i\<rparr> else m)
      in if out \<noteq> MBUF_SAME_FD then m1\<lparr>outfd := out\<rparr> else m1)"

definition pgr_mbuf_reset :: "mbuf \<Rightarrow> world \<Rightarrow> mbuf \<times> world" where
  "pgr_mbuf_reset m w =
     (let m1 = m\<lparr>start := 0, fill := 0\<rparr>
      in if 0 \<le> cache m then (m1\<lparr>cache := -1\<rparr>, sys_close (cache m) w) else (m1, w))"

definition pgr_mbuf_cat :: "mbuf \<Rightarrow> bytes \<Rightarrow> int \<times> mbuf" where
  "pgr_mbuf_cat m bs =
     (if len m - fill m < length bs then (1, m)
      else (0, m\<lparr>buf := blit (fill m) bs (buf m), fill := fill m + length bs\<rparr>))"

section \<open>Reading, writing\<close>

text \<open>One successful read into the free part of the buffer.\<close>

definition take_in :: "bytes \<Rightarrow> mbuf \<Rightarrow> mbuf" where
  "take_in bs m = m\<lparr>buf := blit (fill m) bs (buf m), fill := fill m + length bs\<rparr>"

function pgr_mbuf_recv :: "mbuf \<Rightarrow> world \<Rightarrow> int \<times> mbuf \<times> world" where
  "pgr_mbuf_recv m w =
     (if available m < 5 then
        (case sys_read (infd m) (len m - fill m) w of
           (n, bs, w1) \<Rightarrow> if n \<le> 0 then (n, m, w1) else pgr_mbuf_recv (take_in bs m) w1)
      else (int (available m), m, w))"
  by pat_completeness auto
termination
proof (relation "measure (\<lambda>(m, w). start m + 5 - fill m)", simp, clarsimp)
  fix m :: mbuf and w :: world and n bs w1
  assume "available m < 5" and "\<not> n \<le> 0"
    and rd: "(n, bs, w1) = sys_read (infd m) (len m - fill m) w"
  moreover from this have "0 < length bs" by (intro sys_read_progress)
  ultimately show "start (take_in bs m) + 5 - fill (take_in bs m) < start m + 5 - fill m"
    by (simp add: take_in_def available_def del: length_greater_0_conv)
qed

declare pgr_mbuf_recv.simps [simp del]

text \<open>
  The loop of \<^verbatim>\<open>writen\<close>. The source does not advance \<^verbatim>\<open>buf\<close> after a partial write, so each
  further call writes again from its beginning; \<open>n\<close> is the variable it returns, without a
  value until the first write (every caller asks for at least one octet, see
  \<open>writen_indeterminate\<close>).
\<close>

function writen :: "int \<Rightarrow> int \<Rightarrow> bytes \<Rightarrow> nat \<Rightarrow> world \<Rightarrow> int \<times> world" where
  "writen n fd b l w =
     (if 0 < l then
        (case sys_write fd (take l b) w of
           (k, w1) \<Rightarrow> if k \<le> 0 then (k, w1) else writen k fd b (l - nat k) w1)
      else (n, w))"
  by pat_completeness auto
termination by (relation "measure (\<lambda>(n, fd, b, l, w). l)") auto

declare writen.simps [simp del]

text \<open>The writing loops of \<^verbatim>\<open>pgr_mbuf_relay\<close>, which do advance.\<close>

function write_all :: "int \<Rightarrow> bytes \<Rightarrow> world \<Rightarrow> bool \<times> world" where
  "write_all fd b w =
     (if b = [] then (True, w)
      else (case sys_write fd b w of
              (n, w1) \<Rightarrow> if 0 < n then write_all fd (drop (nat n) b) w1 else (False, w1)))"
  by pat_completeness auto
termination by (relation "measure (\<lambda>(fd, b, w). length b)") auto

declare write_all.simps [simp del]

section \<open>Relay and discard\<close>

text \<open>
  In the source \<^verbatim>\<open>len\<close> counts the octets of the message that are still to move. The measure of
  the loops: every successful read leaves something to move, so \<open>len\<close> decreases each time.
\<close>

definition drop_window :: "mbuf \<Rightarrow> mbuf" where
  "drop_window m = m\<lparr>fill := start m\<rparr>"

definition cut_front :: "nat \<Rightarrow> mbuf \<Rightarrow> mbuf" where
  "cut_front l m = m\<lparr>buf := memmove (start m) (start m + l) (fill m - start m - l) (buf m),
                     fill := fill m - l\<rparr>"

definition room :: "mbuf \<Rightarrow> nat" where
  "room m = len m - fill m"

definition to_move :: "nat \<Rightarrow> mbuf \<Rightarrow> nat" where
  "to_move l m = l + (if available m = 0 then 1 else 0)"

lemma available_refill:
  "available (take_in bs (drop_window m)) = length bs"
  by (simp add: available_def take_in_def drop_window_def)

lemma to_move_decreases:
  assumes "available m < l" and "0 < length bs"
  shows "to_move (l - available m) (take_in bs (drop_window m)) < to_move l m"
  using assms by (auto simp: to_move_def available_refill)

function relay_loop :: "nat \<Rightarrow> bool \<Rightarrow> mbuf \<Rightarrow> world \<Rightarrow> int \<times> mbuf \<times> world" where
  "relay_loop l ok m w =
     (if available m < l then
        (case (if ok then write_all (outfd m) (window m) w else (False, w)) of
           (ok1, w1) \<Rightarrow>
             (case sys_read (infd m) (room (drop_window m)) w1 of
                (n, bs, w2) \<Rightarrow>
                  if n \<le> 0 then (1, drop_window m, w2)
                  else relay_loop (l - available m) ok1 (take_in bs (drop_window m)) w2))
      else if 0 < l then
        (case (if ok then write_all (outfd m) (take l (window m)) w else (False, w)) of
           (ok1, w1) \<Rightarrow> (if ok1 then 0 else 1, cut_front l m, w1))
      else (if ok then 0 else 1, m, w))"
  by pat_completeness auto
termination
proof (relation "measure (\<lambda>(l, ok, m, w). to_move l m)", simp, clarsimp)
  fix l :: nat and ok :: bool and m :: mbuf and w1 w2 :: world and n bs
  assume "available m < l" and "\<not> n \<le> 0"
    and "(n, bs, w2) = sys_read (infd m) (room (drop_window m)) w1"
  moreover from this have "0 < length bs" by (intro sys_read_progress)
  ultimately show "to_move (l - available m) (take_in bs (drop_window m)) < to_move l m"
    by (intro to_move_decreases)
qed

declare relay_loop.simps [simp del]

definition pgr_mbuf_relay :: "mbuf \<Rightarrow> world \<Rightarrow> int \<times> mbuf \<times> world" where
  "pgr_mbuf_relay m w =
     (if available m < 5 then (1, m, w) else relay_loop (unat (msize m)) True m w)"

function discard_loop :: "nat \<Rightarrow> mbuf \<Rightarrow> world \<Rightarrow> int \<times> mbuf \<times> world" where
  "discard_loop l m w =
     (if available m < l then
        (case sys_read (infd m) (room (drop_window m)) w of
           (n, bs, w1) \<Rightarrow>
             if n \<le> 0 then (n, drop_window m, w1)
             else discard_loop (l - available m) (take_in bs (drop_window m)) w1)
      else if 0 < l then (0, cut_front l m, w)
      else (0, m, w))"
  by pat_completeness auto
termination
proof (relation "measure (\<lambda>(l, m, w). to_move l m)", simp, clarsimp)
  fix l :: nat and m :: mbuf and w w1 :: world and n bs
  assume "available m < l" and "\<not> n \<le> 0"
    and "(n, bs, w1) = sys_read (infd m) (room (drop_window m)) w"
  moreover from this have "0 < length bs" by (intro sys_read_progress)
  ultimately show "to_move (l - available m) (take_in bs (drop_window m)) < to_move l m"
    by (intro to_move_decreases)
qed

declare discard_loop.simps [simp del]

definition pgr_mbuf_discard :: "mbuf \<Rightarrow> world \<Rightarrow> int \<times> mbuf \<times> world" where
  "pgr_mbuf_discard m w =
     (if available m < 5 then (1, m, w) else discard_loop (unat (msize m)) m w)"

text \<open>
  \<^verbatim>\<open>pgr_mbuf_drain\<close> ignores what its calls return and may loop for ever: \<open>None\<close> is a call that
  does not return.
\<close>

partial_function (option) pgr_mbuf_drain ::
    "mbuf \<Rightarrow> int \<Rightarrow> world \<Rightarrow> (int \<times> mbuf \<times> world) option" where
  "pgr_mbuf_drain m until w =
     (let type = pgr_mbuf_msgtype m
      in if type < 0 then Some (-1, m, w)
         else (case pgr_mbuf_discard m w of
                 (_, m1, w1) \<Rightarrow>
                   if type = until then Some (0, m1, w1)
                   else (case pgr_mbuf_recv m1 w1 of
                           (_, m2, w2) \<Rightarrow> pgr_mbuf_drain m2 until w2)))"

declare pgr_mbuf_drain.simps [code]

section \<open>Send and resend\<close>

text \<open>
  The part of \<^verbatim>\<open>pgr_mbuf_send\<close> that opens the overflow file and moves what was sent before
  into it. \<open>Inl\<close> is the early \<^verbatim>\<open>return 1\<close>.
\<close>

definition warm_cache :: "mbuf \<Rightarrow> world \<Rightarrow> (mbuf \<times> world) + (mbuf \<times> world)" where
  "warm_cache m w =
     (if 0 \<le> cache m then Inr (m, w)
      else (case sys_tmpfile w of
              (fd, w1) \<Rightarrow>
                (let m1 = m\<lparr>cache := fd\<rparr>
                 in if fd < 0 then Inl (m1, w1)
                    else if 0 < start m1 then
                      (case writen 0 fd (buf m1) (start m1) w1 of
                         (n, w2) \<Rightarrow>
                           if n \<le> 0 then Inl (m1, w2)
                           else Inr (m1\<lparr>buf := memmove 0 (start m1) (fill m1 - start m1) (buf m1),
                                         fill := fill m1 - start m1, start := 0\<rparr>, w2))
                    else Inr (m1, w1))))"

lemma warm_cache_available: "warm_cache m w = Inr (m1, w1) \<Longrightarrow> available m1 = available m"
  by (auto simp: warm_cache_def Let_def available_def split: if_splits prod.splits)

function send_loop :: "nat \<Rightarrow> bool \<Rightarrow> mbuf \<Rightarrow> world \<Rightarrow> int \<times> mbuf \<times> world" where
  "send_loop l ok m w =
     (if available m < l then
        (case warm_cache m w of
           Inl (m1, w1) \<Rightarrow> (1, m1, w1)
         | Inr (m1, w1) \<Rightarrow>
             (case writen 0 (outfd m1) (drop (start m1) (buf m1)) (available m1) w1 of
                (n1, w2) \<Rightarrow>
                  (case writen 0 (cache m1) (drop (start m1) (buf m1)) (available m1) w2 of
                     (n2, w3) \<Rightarrow>
                       if n2 \<le> 0 then (1, m1, w3)
                       else (case sys_read (infd m1) (room (drop_window m1)) w3 of
                               (n, bs, w4) \<Rightarrow>
                                 if n \<le> 0 then (n, drop_window m1, w4)
                                 else send_loop (l - available m1) (0 < n1)
                                        (take_in bs (drop_window m1)) w4))))
      else if 0 < l then
        (case writen 0 (outfd m) (drop (start m) (buf m)) l w of
           (n1, w1) \<Rightarrow>
             (if 0 \<le> cache m then
                (case writen 0 (cache m) (drop (start m) (buf m)) l w1 of
                   (n2, w2) \<Rightarrow> if n2 \<le> 0 then (1, m, w2)
                               else (if 0 < n1 then 0 else 1, cut_front l m, w2))
              else (if 0 < n1 then 0 else 1, m\<lparr>start := start m + l\<rparr>, w1)))
      else (if ok then 0 else 1, m, w))"
  by pat_completeness auto
termination
proof (relation "measure (\<lambda>(l, ok, m, w). to_move l m)", simp, clarsimp)
  fix l :: nat and m m1 :: mbuf and w w1 w3 w4 :: world and n bs
  assume "available m < l" and "\<not> n \<le> 0" and "warm_cache m w = Inr (m1, w1)"
    and rd: "(n, bs, w4) = sys_read (infd m1) (room (drop_window m1)) w3"
  moreover from rd \<open>\<not> n \<le> 0\<close> have "0 < length bs" by (rule sys_read_progress)
  moreover have "to_move l m1 = to_move l m" and "available m1 = available m"
    using calculation warm_cache_available by (auto simp: to_move_def)
  ultimately show "to_move (l - available m1) (take_in bs (drop_window m1)) < to_move l m"
    using to_move_decreases by metis
qed

declare send_loop.simps [simp del]

definition pgr_mbuf_send :: "mbuf \<Rightarrow> world \<Rightarrow> int \<times> mbuf \<times> world" where
  "pgr_mbuf_send m w =
     (if available m < 5 then (1, m, w) else send_loop (unat (msize m)) True m w)"

text \<open>The two loops of \<^verbatim>\<open>pgr_mbuf_resend\<close>: copy the overflow file, then the sent prefix.\<close>

function copy_cache :: "int \<Rightarrow> int \<Rightarrow> int \<Rightarrow> world \<Rightarrow> bool \<times> world" where
  "copy_cache fd out offset w =
     (if 0 < offset then
        (case sys_read fd 2048 w of
           (n, bs, w1) \<Rightarrow>
             if n \<le> 0 then (False, w1)
             else (case writen 0 out bs (nat n) w1 of
                     (k, w2) \<Rightarrow> if k \<le> 0 then (False, w2)
                                else copy_cache fd out (offset - n) w2))
      else (True, w))"
  by pat_completeness auto
termination by (relation "measure (\<lambda>(fd, out, offset, w). nat offset)") auto

declare copy_cache.simps [simp del]

function resend_prefix :: "nat \<Rightarrow> mbuf \<Rightarrow> world \<Rightarrow> int \<times> mbuf \<times> world" where
  "resend_prefix until m w =
     (if start m < until then
        (case sys_write (outfd m) (take (until - start m) (drop (start m) (buf m))) w of
           (n, w1) \<Rightarrow> if n \<le> 0 then (1, m, w1)
                      else resend_prefix until (m\<lparr>start := start m + nat n\<rparr>) w1)
      else (0, m, w))"
  by pat_completeness auto
termination by (relation "measure (\<lambda>(until, m, w). until - start m)") auto

declare resend_prefix.simps [simp del]

definition pgr_mbuf_resend :: "mbuf \<Rightarrow> world \<Rightarrow> int \<times> mbuf \<times> world" where
  "pgr_mbuf_resend m w =
     (case (if 0 \<le> cache m
            then copy_cache (cache m) (outfd m) (int (sys_tell (cache m) w))
                   (sys_rewind (cache m) w)
            else (True, w)) of
        (ok, w1) \<Rightarrow> if ok then resend_prefix (start m) (m\<lparr>start := 0\<rparr>) w1 else (1, m, w1))"

end
