(* ===== verification/Net.thy ===== *)
theory Net
  imports Sysio
begin

text \<open>
  The sockets of \<^verbatim>\<open>src/net.c\<close>: endpoints, listening, connecting, and the full reads and writes.
  \<^verbatim>\<open>inet_pton\<close> is the parameter \<open>pton\<close> (the family, then the text; \<open>None\<close> when the result is
  not 1). An operation is \<open>None\<close> where the source reads outside a string or uses \<^verbatim>\<open>NULL\<close>.
\<close>

definition AF_INET :: int where "AF_INET = 2"
definition AF_INET6 :: int where "AF_INET6 = 10"

type_synonym pton = "int \<Rightarrow> bytes \<Rightarrow> bytes option"

definition negative :: "int \<Rightarrow> int" where
  "negative x = (if 0 < x then -1 * x else x)"

section \<open>Endpoints\<close>

fun port_digits :: "int \<Rightarrow> bytes \<Rightarrow> int option" where
  "port_digits port [] = Some port"
| "port_digits port (c # p) =
     (if \<not> isdigit c then None else port_digits (int32 (port * 10 + digit c)) p)"

definition getport :: "bytes \<Rightarrow> int" where
  "getport ep =
     (case dropWhile (\<lambda>c. c \<noteq> CHR '':'') ep of
        [] \<Rightarrow> -1
      | _ # p \<Rightarrow> (case port_digits 0 p of
                    None \<Rightarrow> -1
                  | Some port \<Rightarrow> if 0xffff < port then -1 else port))"

text \<open>The loop of \<^verbatim>\<open>gethost\<close> looks for a colon only, and runs past the end of a string without one.\<close>

definition gethost :: "bytes \<Rightarrow> bytes option" where
  "gethost ep = (if CHR '':'' \<in> set ep then Some (takeWhile (\<lambda>c. c \<noteq> CHR '':'') ep) else None)"

definition INADDR_ANY :: bytes where "INADDR_ANY = replicate 4 NUL"
definition in6addr_any :: bytes where "in6addr_any = replicate 16 NUL"

definition ipv4_hostport :: "pton \<Rightarrow> sockaddr \<Rightarrow> bytes \<Rightarrow> int \<Rightarrow> int \<times> sockaddr" where
  "ipv4_hostport pton sa host port =
     (let p = of_int port; old = (case sa of SIN _ a \<Rightarrow> a | SIN6 _ a \<Rightarrow> a)
      in if host = ''*'' then (0, SIN p INADDR_ANY)
         else (case pton AF_INET host of
                 None \<Rightarrow> (-1, SIN p old)
               | Some a \<Rightarrow> (0, SIN p a)))"

definition ipv4_endpoint :: "pton \<Rightarrow> sockaddr \<Rightarrow> bytes \<Rightarrow> (int \<times> sockaddr) option" where
  "ipv4_endpoint pton sa ep =
     (let port = getport ep
      in case gethost ep of
           None \<Rightarrow> None
         | Some host \<Rightarrow> if port < 0 then Some (-1, sa) else Some (ipv4_hostport pton sa host port))"

definition ipv6_hostport :: "pton \<Rightarrow> sockaddr \<Rightarrow> bytes \<Rightarrow> int \<Rightarrow> int \<times> sockaddr" where
  "ipv6_hostport pton sa host port =
     (let p = of_int port; old = (case sa of SIN _ a \<Rightarrow> a | SIN6 _ a \<Rightarrow> a)
      in if host = ''*'' then (0, SIN6 p in6addr_any)
         else (case pton AF_INET6 host of
                 None \<Rightarrow> (-1, SIN6 p old)
               | Some a \<Rightarrow> (0, SIN6 p a)))"

text \<open>\<^verbatim>\<open>ipv6_endpoint\<close> drops the result of \<^verbatim>\<open>ipv6_hostport\<close>.\<close>

definition ipv6_endpoint :: "pton \<Rightarrow> sockaddr \<Rightarrow> bytes \<Rightarrow> (int \<times> sockaddr) option" where
  "ipv6_endpoint pton sa ep =
     (let port = getport ep
      in case gethost ep of
           None \<Rightarrow> None
         | Some host \<Rightarrow>
             if port < 0 then Some (-1, sa)
             else (case ipv6_hostport pton sa host port of (_, sa1) \<Rightarrow> Some (0, sa1)))"

section \<open>Listening\<close>

definition bind_and_listen :: "sockaddr \<Rightarrow> int \<Rightarrow> int \<Rightarrow> world \<Rightarrow> int \<times> world" where
  "bind_and_listen sa fd backlog w =
     (let w1 = snd (sys_net (ReuseAddr fd) w);
          w2 = (case sa of SIN6 _ _ \<Rightarrow> snd (sys_net (V6Only fd) w1) | SIN _ _ \<Rightarrow> w1)
      in case sys_net (Bind fd sa) w2 of
           (rc, w3) \<Rightarrow>
             if rc \<noteq> 0 then (-1, sys_close fd w3)
             else (case sys_net (Listen fd backlog) w3 of
                     (rc, w4) \<Rightarrow> if rc \<noteq> 0 then (-1, sys_close fd w4) else (fd, w4)))"

definition pgr_listen4 :: "pton \<Rightarrow> bytes \<Rightarrow> int \<Rightarrow> world \<Rightarrow> (int \<times> world) option" where
  "pgr_listen4 pton ep backlog w =
     (case ipv4_endpoint pton (SIN 0 INADDR_ANY) ep of
        None \<Rightarrow> None
      | Some (rc, sa) \<Rightarrow>
          if rc \<noteq> 0 then Some (rc, w)
          else (case sys_net (Socket AF_INET) w of
                  (fd, w1) \<Rightarrow>
                    if fd < 0 then Some (-1, w1)
                    else Some (bind_and_listen sa fd backlog (snd (sys_net (NoDelay fd) w1)))))"

definition pgr_listen6 :: "pton \<Rightarrow> bytes \<Rightarrow> int \<Rightarrow> world \<Rightarrow> (int \<times> world) option" where
  "pgr_listen6 pton ep backlog w =
     (case ipv6_endpoint pton (SIN6 0 in6addr_any) ep of
        None \<Rightarrow> None
      | Some (rc, sa) \<Rightarrow>
          if rc \<noteq> 0 then Some (rc, w)
          else (case sys_net (Socket AF_INET6) w of
                  (fd, w1) \<Rightarrow>
                    if fd < 0 then Some (-1, w1)
                    else Some (bind_and_listen sa fd backlog (snd (sys_net (NoDelay fd) w1)))))"

section \<open>Connecting\<close>

text \<open>
  The address of the host as IPv4, else as IPv6. The parameter \<^verbatim>\<open>timeout_ms\<close> is not used by the
  source: the connect is a blocking one.
\<close>

definition pgr_connect :: "pton \<Rightarrow> bytes option \<Rightarrow> int \<Rightarrow> int \<Rightarrow> world \<Rightarrow> (int \<times> world) option" where
  "pgr_connect pton host_ptr port timeout_ms w =
     (case host_ptr of
        None \<Rightarrow> None
      | Some host \<Rightarrow>
          (let (rc4, ipv4) = ipv4_hostport pton (SIN 0 INADDR_ANY) host port;
               (rc6, ipv6) = ipv6_hostport pton (SIN6 0 in6addr_any) host port
           in if rc4 \<noteq> 0 \<and> rc6 \<noteq> 0 then Some (-1, w)
              else
                (let sa = (if rc4 = 0 then ipv4 else ipv6);
                     (fd, w1) = sys_net (Socket (if rc4 = 0 then AF_INET else AF_INET6)) w
                 in if fd < 0 then Some (-1, w1)
                    else (let w2 = snd (sys_net (NoDelay fd) w1);
                              (rc, w3) = sys_net (Connect fd sa) w2
                          in if rc \<noteq> 0 then Some (negative rc, sys_close fd w3)
                             else Some (fd, w3)))))"

section \<open>Full writes and reads\<close>

function pgr_sendn :: "int \<Rightarrow> bytes \<Rightarrow> world \<Rightarrow> int \<times> world" where
  "pgr_sendn fd b w =
     (if b = [] then (0, w)
      else (case sys_write fd b w of
              (n, w1) \<Rightarrow> if n \<le> 0 then (1, w1) else pgr_sendn fd (drop (nat n) b) w1))"
  by pat_completeness auto
termination by (relation "measure (\<lambda>(fd, b, w). length b)") auto

declare pgr_sendn.simps [simp del]

text \<open>\<open>pgr_recvn fd k w\<close>: also the octets that were read into the caller's buffer.\<close>

function pgr_recvn :: "int \<Rightarrow> nat \<Rightarrow> world \<Rightarrow> int \<times> bytes \<times> world" where
  "pgr_recvn fd k w =
     (if k = 0 then (0, [], w)
      else (case sys_read fd k w of
              (n, bs, w1) \<Rightarrow>
                if n \<le> 0 then (1, [], w1)
                else (case pgr_recvn fd (k - length bs) w1 of (rc, cs, w2) \<Rightarrow> (rc, bs @ cs, w2))))"
  by pat_completeness auto
termination
proof (relation "measure (\<lambda>(fd, k, w). k)", goal_cases)
  case (2 fd k w n p bs w1)
  then have "0 < length bs" by (intro sys_read_progress(2)) auto
  with 2 show ?case by simp
qed simp

declare pgr_recvn.simps [simp del]

end
