(* ===== verification/Rand.thy ===== *)
theory Rand
  imports Complex_Main Prelude
begin

text \<open>
  \<^verbatim>\<open>src/rand.c\<close>: a number of a range from the thread's generator. The parameter \<open>k\<close> is what
  \<^verbatim>\<open>rand_r\<close> returned; the floating-point expression is computed exactly and cut towards zero
  like the conversion to \<^verbatim>\<open>int\<close>. The seed is in \<open>Seed\<close>.
\<close>

definition RAND_MAX :: int where "RAND_MAX = 2147483647"

definition c_trunc :: "rat \<Rightarrow> int" where
  "c_trunc x = (if 0 \<le> x then \<lfloor>x\<rfloor> else \<lceil>x\<rceil>)"

definition pgr_rand :: "int \<Rightarrow> int \<Rightarrow> int \<Rightarrow> int" where
  "pgr_rand k start end =
     c_trunc ((of_int k / of_int RAND_MAX) * of_int (int32 (end - start)) + of_int start + 1 / 2)"

lemma unit_fraction:
  assumes "0 \<le> k" "k \<le> RAND_MAX"
  shows "0 \<le> (of_int k / of_int RAND_MAX :: rat)" "(of_int k / of_int RAND_MAX :: rat) \<le> 1"
  using assms by (simp_all add: RAND_MAX_def)

lemma rand_range:
  assumes k: "0 \<le> k" "k \<le> RAND_MAX" and n: "0 \<le> n" "n < 2 ^ 31"
  shows "0 \<le> pgr_rand k 0 n \<and> pgr_rand k 0 n \<le> n"
proof -
  define x where "x = (of_int k / of_int RAND_MAX :: rat)"
  have x: "0 \<le> x" "x \<le> 1" using unit_fraction [OF k] by (simp_all add: x_def)
  have p: "0 \<le> x * of_int n" using x n by simp
  have "x * of_int n \<le> 1 * of_int n" using x n by (intro mult_right_mono) simp_all
  then have "x * of_int n + 1 / 2 < of_int (n + 1)" by simp
  then have "\<lfloor>x * of_int n + 1 / 2\<rfloor> < n + 1" by (simp only: floor_less_iff)
  moreover have "0 \<le> \<lfloor>x * of_int n + 1 / 2\<rfloor>" using p by simp
  ultimately show ?thesis
    using p n by (simp add: pgr_rand_def c_trunc_def int32_id flip: x_def)
qed

lemma rand_minus_one:
  assumes k: "0 \<le> k" "k \<le> RAND_MAX"
  shows "pgr_rand k 0 (-1) = 0"
proof -
  let ?x = "of_int k / of_int RAND_MAX :: rat"
  have x: "0 \<le> ?x" "?x \<le> 1" using unit_fraction [OF k] by auto
  have "c_trunc (1 / 2 - ?x) = 0"
    using x by (simp add: c_trunc_def floor_eq_iff ceiling_eq_iff)
  then show ?thesis by (simp add: pgr_rand_def int32_id algebra_simps)
qed

end
