(* ===== verification/Lexer.thy ===== *)
theory Lexer
  imports Prelude
begin

text \<open>
  The scanner the two parsers of the repository share: \<^verbatim>\<open>src/authdb.c\<close> and \<^verbatim>\<open>src/config.c\<close> hold
  the same \<^verbatim>\<open>LEXER\<close> and \<^verbatim>\<open>TOKEN\<close> structures and the same character functions. The type
  parameter \<open>'f\<close> names the lexer functions of a file (\<^verbatim>\<open>lexer_fn\<close>), \<open>'k\<close> its token types.
  Positions are the \<^verbatim>\<open>int\<close>s of the source: \<^verbatim>\<open>backup\<close> may take them below the start of a token.
\<close>

section \<open>Scanner state\<close>

record 'f LEXER =
  lx_src   :: bytes
  lx_line  :: int
  lx_col   :: int
  lx_pos   :: int
  lx_max   :: int
  lx_start :: int
  lx_f     :: "'f option"     \<comment> \<open>the current lexer function, \<^verbatim>\<open>NULL\<close> at the end\<close>

text \<open>A token's value is the memory from its pointer on; only \<open>tk_length\<close> octets belong to it.\<close>

record 'k TOKEN =
  tk_type   :: 'k
  tk_value  :: bytes
  tk_length :: int
  tk_i      :: u32      \<comment> \<open>\<^verbatim>\<open>semval.i\<close>\<close>

section \<open>Character functions\<close>

definition lex_next :: "'f LEXER \<Rightarrow> byte \<times> 'f LEXER" where
  "lex_next l =
     (if lx_max l \<le> lx_pos l then (NUL, l)
      else (lx_src l ! nat (lx_pos l), l\<lparr>lx_col := lx_col l + 1, lx_pos := lx_pos l + 1\<rparr>))"

definition lex_restart :: "'f LEXER \<Rightarrow> 'f LEXER" where
  "lex_restart l = l\<lparr>lx_pos := lx_start l\<rparr>"

definition lex_ignore :: "'f LEXER \<Rightarrow> 'f LEXER" where
  "lex_ignore l = l\<lparr>lx_start := lx_pos l\<rparr>"

definition lex_backup :: "'f LEXER \<Rightarrow> 'f LEXER" where
  "lex_backup l = l\<lparr>lx_col := lx_col l - 1, lx_pos := lx_pos l - 1\<rparr>"

definition lex_peek :: "'f LEXER \<Rightarrow> byte \<times> 'f LEXER" where
  "lex_peek l = (case lex_next l of (c, l1) \<Rightarrow> (c, lex_backup l1))"

definition accept_one :: "'f LEXER \<Rightarrow> bytes \<Rightarrow> bool \<times> 'f LEXER" where
  "accept_one l valid =
     (case lex_next l of
        (c, l1) \<Rightarrow> if c \<noteq> NUL \<and> c \<in> set valid then (True, l1) else (False, lex_backup l1))"

text \<open>\<open>tok k (Some l)\<close> is \<^verbatim>\<open>token(type, l)\<close>, \<open>tok k None\<close> is \<^verbatim>\<open>token(type, NULL)\<close>.\<close>

definition tok_none :: "'k \<Rightarrow> 'k TOKEN" where
  "tok_none k = \<lparr>tk_type = k, tk_value = [], tk_length = 0, tk_i = 0\<rparr>"

definition tok :: "'k \<Rightarrow> 'f LEXER \<Rightarrow> 'k TOKEN \<times> 'f LEXER" where
  "tok k l = (\<lparr>tk_type = k, tk_value = drop (nat (lx_start l)) (lx_src l),
               tk_length = lx_pos l - lx_start l, tk_i = 0\<rparr>, lex_ignore l)"

text \<open>The characters left to read bound every loop of the scanner.\<close>

definition lx_left :: "'f LEXER \<Rightarrow> nat" where
  "lx_left l = nat (lx_max l - lx_pos l)"

lemma lex_next_left: "lex_next l = (c, l1) \<Longrightarrow> c \<noteq> NUL \<Longrightarrow> lx_left l1 < lx_left l"
  by (auto simp: lex_next_def lx_left_def split: if_splits)

lemma lex_next_left_le: "lex_next l = (c, l1) \<Longrightarrow> lx_left l1 \<le> lx_left l"
  by (auto simp: lex_next_def lx_left_def split: if_splits)

lemma lex_next_left_snd: "lx_left (snd (lex_next l)) \<le> lx_left l"
  by (auto simp: lex_next_def lx_left_def)

lemma lex_left_simps [simp]:
  "lx_left (lex_ignore l) = lx_left l" "lx_left (l\<lparr>lx_f := f\<rparr>) = lx_left l"
  "lx_left (l\<lparr>lx_line := n\<rparr>) = lx_left l" "lx_left (l\<lparr>lx_col := n\<rparr>) = lx_left l"
  by (simp_all add: lex_ignore_def lx_left_def)

function accept_all :: "'f LEXER \<Rightarrow> bytes \<Rightarrow> int \<times> 'f LEXER" where
  "accept_all l valid =
     (case accept_one l valid of
        (ok, l1) \<Rightarrow> if ok then (case accept_all l1 valid of (n, l2) \<Rightarrow> (n + 1, l2)) else (0, l1))"
  by pat_completeness auto
termination
  by (relation "measure (\<lambda>(l, v). lx_left l)")
     (auto simp: accept_one_def split: prod.splits if_splits dest: lex_next_left)

declare accept_all.simps [simp del]

section \<open>The loops shared by the lexer functions\<close>

text \<open>\<^verbatim>\<open>lex_comment\<close>: skip to the end of the line (or of the text).\<close>

function skip_line :: "'f LEXER \<Rightarrow> 'f LEXER" where
  "skip_line l =
     (case lex_next l of
        (c, l1) \<Rightarrow> if c \<noteq> NUL \<and> c \<noteq> CHR 0x0A then skip_line l1 else l1)"
  by pat_completeness auto
termination
proof (relation "measure lx_left", simp, goal_cases)
  case (1 l c l1)
  then show ?case using lex_next_left [OF 1(1) [symmetric]] by simp
qed

declare skip_line.simps [simp del]

lemma skip_line_left: "lx_left (skip_line l) \<le> lx_left l"
proof (induction l rule: skip_line.induct)
  case (1 l)
  obtain c l1 where n: "lex_next l = (c, l1)" by (metis surj_pair)
  then have le: "lx_left l1 \<le> lx_left l" by (rule lex_next_left_le)
  show ?case
  proof (cases "c \<noteq> NUL \<and> c \<noteq> CHR 0x0A")
    case True
    from 1 [OF n [symmetric] this] le show ?thesis by (subst skip_line.simps) (simp add: n True)
  next
    case False
    with le show ?thesis by (subst skip_line.simps) (auto simp: n)
  qed
qed

text \<open>The loop of \<^verbatim>\<open>lex_qstring\<close>: to the closing quote \<open>q\<close>; \<open>False\<close> when the text ends first.\<close>

function scan_quoted :: "byte \<Rightarrow> 'f LEXER \<Rightarrow> bool \<times> 'f LEXER" where
  "scan_quoted q l =
     (case lex_next l of
        (c, l1) \<Rightarrow>
          if c = NUL then (False, l1)
          else if c = q then (True, l1)
          else if c = CHR 0x5C then scan_quoted q (snd (lex_next l1))
          else scan_quoted q l1)"
  by pat_completeness auto
termination
proof (relation "measure (\<lambda>(q, l). lx_left l)", goal_cases)
  case (2 q l c l1)
  from lex_next_left [OF 2(1) [symmetric] 2(2)]
  have "lx_left (snd (lex_next l1)) < lx_left l" by (rule le_less_trans [OF lex_next_left_snd])
  then show ?case by simp
next
  case (3 q l c l1)
  from lex_next_left [OF 3(1) [symmetric] 3(2)] show ?case by simp
qed simp

declare scan_quoted.simps [simp del]

text \<open>
  The second loop of \<^verbatim>\<open>as_string\<close> on a quoted string: \<open>left\<close> octets of the text between the
  quotes are to copy; a backslash takes the octet after it.
\<close>

definition unescape_char :: "byte \<Rightarrow> byte" where
  "unescape_char c = (if c = CHR ''t'' then CHR 0x09 else if c = CHR ''r'' then CHR 0x0D
                      else if c = CHR ''n'' then CHR 0x0A else c)"

fun unescape :: "int \<Rightarrow> bytes \<Rightarrow> bytes" where
  "unescape left [] = []"
| "unescape left (c # p) =
     (if left \<le> 0 then []
      else if c = CHR 0x5C then
        (case p of [] \<Rightarrow> [] | d # p' \<Rightarrow> unescape_char d # unescape (left - 2) p')
      else c # unescape (left - 1) p)"

text \<open>The strings are read as C strings: up to a NUL, if there is one inside.\<close>

definition word_string :: "'k TOKEN \<Rightarrow> bytes" where
  "word_string t = takeWhile (\<lambda>c. c \<noteq> NUL) (take (nat (tk_length t)) (tk_value t))"

definition quoted_string :: "'k TOKEN \<Rightarrow> bytes" where
  "quoted_string t = takeWhile (\<lambda>c. c \<noteq> NUL) (unescape (tk_length t - 2) (tl (tk_value t)))"

section \<open>Setting up\<close>

text \<open>
  \<open>lexer_init f io\<close>: \<open>io\<close> is the content of the stream, \<open>None\<close> when it cannot be measured
  (\<^verbatim>\<open>fseek\<close> or \<^verbatim>\<open>ftell\<close> fails); \<open>f\<close> is the file's \<^verbatim>\<open>lex_any\<close>.
\<close>

definition lexer_init :: "'f \<Rightarrow> bytes option \<Rightarrow> 'f LEXER option" where
  "lexer_init f io =
     (case io of
        None \<Rightarrow> None
      | Some src \<Rightarrow>
          if 2147483647 < int (length src) then None
          else Some \<lparr>lx_src = src, lx_line = 0, lx_col = 0, lx_pos = 0, lx_max = int (length src),
                     lx_start = 0, lx_f = Some f\<rparr>)"

end
