(* ===== verification/Context.thy ===== *)
theory Context
  imports Prelude
begin

text \<open>
  The shared state of the router (\<^verbatim>\<open>CONTEXT\<close>, \<^verbatim>\<open>BACKEND\<close> of \<^verbatim>\<open>src/pgrouter.h\<close>), the constants
  of backends, their names (\<^verbatim>\<open>src/config.c\<close>) and the initialisation of \<^verbatim>\<open>src/init.c\<close>. Nested
  structures are flattened with a prefix; a pointer to a string that may be \<^verbatim>\<open>NULL\<close> is an option.
  The read/write locks are left out: an operation of the model is one critical section.
\<close>

section \<open>Backends\<close>

definition BACKEND_IS_OK :: int where "BACKEND_IS_OK = 0"
definition BACKEND_IS_STARTING :: int where "BACKEND_IS_STARTING = 1"
definition BACKEND_IS_FAILED :: int where "BACKEND_IS_FAILED = 2"
definition BACKEND_IS_HALFUP :: int where "BACKEND_IS_HALFUP = 3"

lemmas backend_status_defs =
  BACKEND_IS_OK_def BACKEND_IS_STARTING_def BACKEND_IS_FAILED_def BACKEND_IS_HALFUP_def

definition BACKEND_ROLE_UNKNOWN :: int where "BACKEND_ROLE_UNKNOWN = 0"
definition BACKEND_ROLE_MASTER :: int where "BACKEND_ROLE_MASTER = 1"
definition BACKEND_ROLE_SLAVE :: int where "BACKEND_ROLE_SLAVE = 2"

lemmas backend_role_defs = BACKEND_ROLE_UNKNOWN_def BACKEND_ROLE_MASTER_def BACKEND_ROLE_SLAVE_def

definition BACKEND_TLS_OFF :: int where "BACKEND_TLS_OFF = 0"
definition BACKEND_TLS_VERIFY :: int where "BACKEND_TLS_VERIFY = 1"
definition BACKEND_TLS_NOVERIFY :: int where "BACKEND_TLS_NOVERIFY = 2"

lemmas backend_tls_defs = BACKEND_TLS_OFF_def BACKEND_TLS_VERIFY_def BACKEND_TLS_NOVERIFY_def

definition pgr_backend_status :: "int \<Rightarrow> bytes" where
  "pgr_backend_status status =
     (if status = BACKEND_IS_OK then ''OK''
      else if status = BACKEND_IS_STARTING then ''STARTING''
      else if status = BACKEND_IS_FAILED then ''FAILED''
      else if status = BACKEND_IS_HALFUP then ''HALF-UP''
      else ''UNKNOWN'')"

definition pgr_backend_role :: "int \<Rightarrow> bytes" where
  "pgr_backend_role role =
     (if role = BACKEND_ROLE_MASTER then ''master''
      else if role = BACKEND_ROLE_SLAVE then ''slave''
      else ''unknown'')"

record BACKEND =
  be_serial    :: int
  be_hostname  :: bytes
  be_port      :: int
  be_tls       :: int
  be_role      :: int
  be_status    :: int
  be_weight    :: int
  be_database  :: bytes
  be_username  :: bytes
  be_password  :: bytes
  be_lag       :: u64
  be_threshold :: u64

section \<open>The context\<close>

record CONTEXT =
  cx_frontend4 :: int
  cx_frontend6 :: int
  cx_monitor4  :: int
  cx_monitor6  :: int
  cx_workers   :: int
  cx_loglevel  :: int
  health_interval :: int
  health_timeout  :: int
  health_database :: "bytes option"
  health_username :: "bytes option"
  health_password :: "bytes option"
  authdb_file      :: "bytes option"
  authdb_usernames :: "bytes list"     \<comment> \<open>\<^verbatim>\<open>num_entries\<close> is the length of these arrays\<close>
  authdb_md5hashes :: "bytes list"
  st_frontend :: "bytes option"
  st_monitor  :: "bytes option"
  st_hbafile  :: "bytes option"
  st_pidfile  :: "bytes option"
  st_tls_ciphers  :: "bytes option"
  st_tls_certfile :: "bytes option"
  st_tls_keyfile  :: "bytes option"
  st_user      :: "bytes option"
  st_group     :: "bytes option"
  st_daemonize :: int
  fe_conns :: int
  be_conns :: int
  ok_backends :: int
  backends :: "BACKEND list"           \<comment> \<open>\<^verbatim>\<open>num_backends\<close> is the length of this array\<close>

definition DEFAULT_MONITOR_BIND :: bytes where "DEFAULT_MONITOR_BIND = ''127.0.0.1:14231''"
definition DEFAULT_FRONTEND_BIND :: bytes where "DEFAULT_FRONTEND_BIND = ''*:5432''"

text \<open>
  \<open>pgr_context ini c\<close>: \<open>ini\<close> holds the results of the calls of \<^verbatim>\<open>pthread_rwlock_init\<close>, the
  context's lock first; the first that is not 0 ends the function.
\<close>

fun init_backends :: "int list \<Rightarrow> BACKEND list \<Rightarrow> int \<times> BACKEND list" where
  "init_backends rcs [] = (0, [])"
| "init_backends rcs (b # bs) =
     (let rc = (case rcs of [] \<Rightarrow> 0 | r # _ \<Rightarrow> r)
      in if rc \<noteq> 0 then (rc, b # bs)
         else (case init_backends (tl rcs) bs of
                 (rc', bs') \<Rightarrow> (rc', b\<lparr>be_status := BACKEND_IS_STARTING\<rparr> # bs')))"

definition pgr_context :: "int list \<Rightarrow> CONTEXT \<Rightarrow> int \<times> CONTEXT" where
  "pgr_context rcs c =
     (let rc = (case rcs of [] \<Rightarrow> 0 | r # _ \<Rightarrow> r)
      in if rc \<noteq> 0 then (rc, c)
         else (case init_backends (tl rcs) (backends c) of
                 (rc, bs) \<Rightarrow>
                   (let c1 = c\<lparr>backends := bs\<rparr>
                    in if rc \<noteq> 0 then (rc, c1)
                       else
                         (let c2 = (if st_frontend c1 = None
                                    then c1\<lparr>st_frontend := Some DEFAULT_FRONTEND_BIND\<rparr> else c1);
                              c3 = (if st_monitor c2 = None
                                    then c2\<lparr>st_monitor := Some DEFAULT_MONITOR_BIND\<rparr> else c2)
                          in (0, c3)))))"

section \<open>Facts\<close>

lemma init_backends_ok:
  "(\<forall>r\<in>set rcs. r = 0) \<Longrightarrow>
   init_backends rcs bs = (0, map (\<lambda>b. b\<lparr>be_status := BACKEND_IS_STARTING\<rparr>) bs)"
  by (induction rcs bs rule: init_backends.induct)
     (auto simp: Let_def split: list.splits prod.splits)

lemma length_init_backends: "length (snd (init_backends rcs bs)) = length bs"
  by (induction rcs bs rule: init_backends.induct) (auto simp: Let_def split: prod.splits)

end
