(* ===== verification/Authdb.thy ===== *)
theory Authdb
  imports Lexer Context
begin

text \<open>
  The password file of \<^verbatim>\<open>src/authdb.c\<close>: its lexer functions, the line parser, the function that
  fills the context's user table, the lookup, and the printing of the table by the file's test
  program. Memory allocation always succeeds.
\<close>

section \<open>The lexer\<close>

datatype adb_fn = LexAny | LexBareword | LexQstring | LexComment

datatype adb_type = T_RESTART | T_ERROR | T_EOS | T_WORD | T_QSTRING | T_NEWLINE

type_synonym adb_lexer = "adb_fn LEXER"
type_synonym adb_token = "adb_type TOKEN"

function adb_lex_any :: "adb_lexer \<Rightarrow> adb_token \<times> adb_lexer" where
  "adb_lex_any l =
     (case lex_next l of
        (c, l1) \<Rightarrow>
          if c = NUL then (tok_none T_EOS, l1\<lparr>lx_f := None\<rparr>)
          else if c = CHR 0x0A
          then (tok_none T_NEWLINE, (lex_ignore l1)\<lparr>lx_line := lx_line l1 + 1, lx_col := 0\<rparr>)
          else if isspace c then adb_lex_any (lex_ignore l1)
          else if c = CHR ''#'' then (tok_none T_RESTART, lex_ignore (l1\<lparr>lx_f := Some LexComment\<rparr>))
          else if c = CHR 0x27 \<or> c = CHR 0x22
          then (tok_none T_RESTART, l1\<lparr>lx_f := Some LexQstring\<rparr>)
          else (tok_none T_RESTART, l1\<lparr>lx_f := Some LexBareword\<rparr>))"
  by pat_completeness auto
termination
proof (relation "measure lx_left", goal_cases)
  case (2 l c l1)
  from lex_next_left [OF 2(1) [symmetric] 2(2)] show ?case by simp
qed simp

declare adb_lex_any.simps [simp del]

text \<open>The loop of \<^verbatim>\<open>lex_bareword\<close>: to the first blank, which is put back (so is the end of the text).\<close>

function scan_word :: "'f LEXER \<Rightarrow> 'f LEXER" where
  "scan_word l =
     (case lex_next l of
        (c, l1) \<Rightarrow> if c = NUL \<or> isspace c then lex_backup l1 else scan_word l1)"
  by pat_completeness auto
termination
proof (relation "measure lx_left", goal_cases)
  case (2 l c l1)
  then have "c \<noteq> NUL" by simp
  from lex_next_left [OF 2(1) [symmetric] this] show ?case by simp
qed simp

declare scan_word.simps [simp del]

definition adb_lex_bareword :: "adb_lexer \<Rightarrow> adb_token \<times> adb_lexer" where
  "adb_lex_bareword l = tok T_WORD (scan_word (l\<lparr>lx_f := Some LexAny\<rparr>))"

definition adb_lex_qstring :: "adb_lexer \<Rightarrow> adb_token \<times> adb_lexer" where
  "adb_lex_qstring l =
     (case lex_next (lex_backup (l\<lparr>lx_f := Some LexAny\<rparr>)) of
        (q, l1) \<Rightarrow>
          (case scan_quoted q l1 of
             (closed, l2) \<Rightarrow> if closed then tok T_QSTRING l2 else (tok_none T_ERROR, l2)))"

definition adb_lex_comment :: "adb_lexer \<Rightarrow> adb_token \<times> adb_lexer" where
  "adb_lex_comment l =
     (let l1 = skip_line l
      in (tok_none T_RESTART, (lex_ignore (l1\<lparr>lx_line := lx_line l1 + 1\<rparr>))\<lparr>lx_f := Some LexAny\<rparr>))"

fun adb_lex :: "adb_fn \<Rightarrow> adb_lexer \<Rightarrow> adb_token \<times> adb_lexer" where
  "adb_lex LexAny l = adb_lex_any l"
| "adb_lex LexBareword l = adb_lex_bareword l"
| "adb_lex LexQstring l = adb_lex_qstring l"
| "adb_lex LexComment l = adb_lex_comment l"

text \<open>
  The loop of \<^verbatim>\<open>emit\<close>. \<open>None\<close> is a call without a lexer function, on which the source
  returns an indeterminate token.
\<close>

definition emit_rank :: "adb_lexer \<Rightarrow> nat" where
  "emit_rank l = 2 * lx_left l + (if lx_f l = Some LexAny then 0 else 1)"

lemma adb_lex_any_restart:
  "adb_lex_any l = (t, l1) \<Longrightarrow> tk_type t = T_RESTART \<Longrightarrow> lx_left l1 < lx_left l"
proof (induction l rule: adb_lex_any.induct)
  case (1 l)
  obtain c l2 where n: "lex_next l = (c, l2)" by (metis surj_pair)
  show ?case
  proof (cases "c = NUL")
    case True
    then show ?thesis using 1(2,3) by (subst (asm) adb_lex_any.simps) (auto simp: n tok_none_def)
  next
    case False
    then have less: "lx_left l2 < lx_left l" using lex_next_left [OF n] by simp
    show ?thesis
    proof (cases "c \<noteq> CHR 0x0A \<and> isspace c")
      case True
      then have eq: "adb_lex_any (lex_ignore l2) = (t, l1)"
        using 1(2) False by (subst (asm) adb_lex_any.simps) (simp add: n)
      from True 1(1) [OF n [symmetric] False _ _ eq 1(3)] less show ?thesis by simp
    next
      case rest: False
      then show ?thesis
        using 1(2,3) False less by (subst (asm) adb_lex_any.simps) (auto simp: n tok_none_def split: if_splits)
    qed
  qed
qed

function adb_emit :: "adb_lexer \<Rightarrow> (adb_token \<times> adb_lexer) option" where
  "adb_emit l =
     (case lx_f l of
        None \<Rightarrow> None
      | Some f \<Rightarrow> (case adb_lex f l of
                    (t, l1) \<Rightarrow> if tk_type t = T_RESTART then adb_emit l1 else Some (t, l1)))"
  by pat_completeness auto
termination
proof (relation "measure emit_rank", goal_cases)
  case (2 l f t l1)
  show ?case
  proof (cases f)
    case LexAny
    with 2 have "lx_left l1 < lx_left l" using adb_lex_any_restart by force
    then show ?thesis by (auto simp: emit_rank_def)
  next
    case LexComment
    with 2 have "l1 = (lex_ignore ((skip_line l)\<lparr>lx_line := lx_line (skip_line l) + 1\<rparr>))\<lparr>lx_f := Some LexAny\<rparr>"
      by (simp add: adb_lex_comment_def Let_def)
    then show ?thesis using 2(1) LexComment skip_line_left [of l] by (simp add: emit_rank_def)
  next
    case LexBareword
    then show ?thesis using 2 by (simp add: adb_lex_bareword_def tok_def)
  next
    case LexQstring
    then show ?thesis
      using 2 by (simp add: adb_lex_qstring_def tok_def tok_none_def split: prod.splits if_splits)
  qed
qed simp

declare adb_emit.simps [simp del]

definition adb_as_string :: "adb_token \<Rightarrow> bytes option" where
  "adb_as_string t = (case tk_type t of T_WORD \<Rightarrow> Some (word_string t)
                      | T_QSTRING \<Rightarrow> Some (quoted_string t) | _ \<Rightarrow> None)"

section \<open>The parser\<close>

text \<open>The entries in the order of the list of the source, the newest first.\<close>

record adb_parser =
  p_entries :: "(bytes \<times> bytes) list"
  p_l :: adb_lexer
  p_f :: bool               \<comment> \<open>\<^verbatim>\<open>parse_top\<close>, or \<^verbatim>\<open>NULL\<close>\<close>

definition new_entry :: "adb_parser \<Rightarrow> bytes \<Rightarrow> bytes \<Rightarrow> adb_parser" where
  "new_entry p user pw = p\<lparr>p_entries := (user, pw) # p_entries p\<rparr>"

definition stop_parse :: "adb_parser \<Rightarrow> adb_parser" where
  "stop_parse p = p\<lparr>p_f := False\<rparr>"

text \<open>
  \<open>None\<close> is a call of \<^verbatim>\<open>emit\<close> after the end, or \<^verbatim>\<open>pgr_abort\<close>. A quoted string in the place of
  the account type meets no case of the source: the line's user is dropped.
\<close>

definition adb_parse_hash :: "adb_parser \<Rightarrow> bytes \<Rightarrow> (int \<times> adb_parser) option" where
  "adb_parse_hash p user =
     (case adb_emit (p_l p) of
        None \<Rightarrow> None
      | Some (t3, l3) \<Rightarrow>
          (let p3 = p\<lparr>p_l := l3\<rparr>
           in case tk_type t3 of
                T_NEWLINE \<Rightarrow> Some (1, stop_parse p3)
              | T_ERROR \<Rightarrow> Some (1, stop_parse p3)
              | T_EOS \<Rightarrow> Some (1, stop_parse p3)
              | T_RESTART \<Rightarrow> Some (0, p3)
              | _ \<Rightarrow> (case adb_as_string t3 of
                        None \<Rightarrow> None
                      | Some hash \<Rightarrow> Some (0, new_entry p3 user hash))))"

definition adb_parse_type :: "adb_parser \<Rightarrow> bytes \<Rightarrow> (int \<times> adb_parser) option" where
  "adb_parse_type p user =
     (case adb_emit (p_l p) of
        None \<Rightarrow> None
      | Some (t2, l2) \<Rightarrow>
          (let p2 = p\<lparr>p_l := l2\<rparr>
           in case tk_type t2 of
                T_NEWLINE \<Rightarrow> Some (1, stop_parse p2)
              | T_WORD \<Rightarrow>
                  (case adb_as_string t2 of
                     None \<Rightarrow> None
                   | Some type \<Rightarrow> if type \<noteq> ''md5'' then Some (1, stop_parse p2)
                                 else adb_parse_hash p2 user)
              | T_ERROR \<Rightarrow> Some (1, stop_parse p2)
              | T_EOS \<Rightarrow> Some (0, stop_parse p2)
              | _ \<Rightarrow> Some (0, p2)))"

definition adb_parse_top :: "adb_parser \<Rightarrow> (int \<times> adb_parser) option" where
  "adb_parse_top p =
     (case adb_emit (p_l p) of
        None \<Rightarrow> None
      | Some (t1, l1) \<Rightarrow>
          (let p1 = p\<lparr>p_l := l1\<rparr>
           in case tk_type t1 of
                T_NEWLINE \<Rightarrow> Some (0, p1)
              | T_ERROR \<Rightarrow> Some (1, stop_parse p1)
              | T_EOS \<Rightarrow> Some (0, stop_parse p1)
              | T_RESTART \<Rightarrow> Some (1, stop_parse p1)
              | _ \<Rightarrow> (case adb_as_string t1 of
                        None \<Rightarrow> None
                      | Some user \<Rightarrow> adb_parse_type p1 user)))"

text \<open>\<^verbatim>\<open>parse\<close> drops the result of the parser function: it always returns 0.\<close>

partial_function (option) adb_parse :: "adb_parser \<Rightarrow> (int \<times> adb_parser) option" where
  "adb_parse p =
     (if p_f p
      then (case adb_parse_top p of
              None \<Rightarrow> None
            | Some (rc, p1) \<Rightarrow> if rc = 0 then adb_parse p1 else Some (0, p1))
      else Some (0, p))"

declare adb_parse.simps [code]

definition adb_parser_init :: "bytes option \<Rightarrow> adb_parser option" where
  "adb_parser_init io =
     (case lexer_init LexAny io of
        None \<Rightarrow> None
      | Some l \<Rightarrow> Some \<lparr>p_entries = [], p_l = l, p_f = True\<rparr>)"

section \<open>Loading and looking up\<close>

text \<open>
  The file system as the loader sees it: \<open>None\<close> when \<^verbatim>\<open>fopen\<close> fails, \<open>Some None\<close> for a stream
  that cannot be measured. \<open>pgr_authdb\<close> is \<open>None\<close> when it aborts or is called without a path.
\<close>

type_synonym filesys = "bytes \<Rightarrow> bytes option option"

definition pgr_authdb :: "filesys \<Rightarrow> CONTEXT \<Rightarrow> (int \<times> CONTEXT) option" where
  "pgr_authdb fs c =
     (case authdb_file c of
        None \<Rightarrow> None
      | Some path \<Rightarrow>
          (case fs path of
             None \<Rightarrow> Some (1, c)
           | Some io \<Rightarrow>
               (case adb_parser_init io of
                  None \<Rightarrow> Some (1, c)
                | Some p \<Rightarrow>
                    (case adb_parse p of
                       None \<Rightarrow> None
                     | Some (rc, p1) \<Rightarrow>
                         if rc \<noteq> 0 then Some (rc, c)
                         else Some (0, c\<lparr>authdb_usernames := rev (map fst (p_entries p1)),
                                        authdb_md5hashes := rev (map snd (p_entries p1))\<rparr>)))))"

fun find_entry :: "bytes list \<Rightarrow> bytes list \<Rightarrow> bytes \<Rightarrow> bytes option" where
  "find_entry (u # us) (h # hs) name = (if u = name then Some h else find_entry us hs name)"
| "find_entry _ _ name = None"

definition pgr_auth_find :: "CONTEXT \<Rightarrow> bytes \<Rightarrow> bytes option" where
  "pgr_auth_find c username = find_entry (authdb_usernames c) (authdb_md5hashes c) username"

section \<open>Printing a table\<close>

fun quote :: "bytes \<Rightarrow> bytes" where
  "quote [] = []"
| "quote (c # s) = (if c = CHR 0x22 then CHR 0x5C # c # quote s else c # quote s)"

definition adb_line :: "bytes \<times> bytes \<Rightarrow> bytes" where
  "adb_line e =
     (case e of (user, hash) \<Rightarrow>
        if (\<exists>c\<in>set hash. isspace c)
        then user @ '' md5 '' @ CHR 0x22 # quote hash @ [CHR 0x22, CHR 0x0A]
        else user @ '' md5 '' @ hash @ [CHR 0x0A])"

definition adb_dump :: "CONTEXT \<Rightarrow> bytes" where
  "adb_dump c = ''# pgrouter authdb'' @ CHR 0x0A #
     concat (map adb_line (zip (authdb_usernames c) (authdb_md5hashes c)))"

end
