(* ===== verification/Conn.thy ===== *)
theory Conn
  imports MD5 Msg Net Rand Authdb
begin

text \<open>
  The connections of \<^verbatim>\<open>src/conn.c\<close>: the messages of the startup and authentication sub-protocol,
  the connection to a backend (\<^verbatim>\<open>pgr_conn_connect\<close>) and the authentication of a client
  (\<^verbatim>\<open>pgr_conn_accept\<close>). The context a connection points to is an argument.
\<close>

section \<open>Connections\<close>

record CONNECTION =
  cn_index    :: int
  cn_serial   :: int
  cn_hostname :: "bytes option"
  cn_port     :: int
  cn_timeout  :: int
  cn_username :: "bytes option"
  cn_database :: "bytes option"
  cn_pwhash   :: "bytes option"
  cn_salt     :: bytes                    \<comment> \<open>4 octets\<close>
  cn_params   :: "(bytes \<times> bytes) list"
  cn_fd       :: int

text \<open>\<open>k\<close> is what \<^verbatim>\<open>rand_r\<close> returns; the constant \<^verbatim>\<open>0xffffffff\<close> is the \<^verbatim>\<open>int\<close> \<open>-1\<close>.\<close>

definition pgr_conn_init :: "int \<Rightarrow> CONNECTION" where
  "pgr_conn_init k =
     \<lparr>cn_index = -1, cn_serial = -1, cn_hostname = None, cn_port = 0, cn_timeout = 0,
      cn_username = None, cn_database = None, cn_pwhash = None,
      cn_salt = le32 (of_int (pgr_rand k 0 (int32 0xffffffff))), cn_params = [], cn_fd = -1\<rparr>"

definition pgr_conn_deinit :: "CONNECTION \<Rightarrow> world \<Rightarrow> world" where
  "pgr_conn_deinit c w = (if 0 \<le> cn_fd c then sys_close (cn_fd c) w else w)"

definition pgr_conn_frontend :: "CONNECTION \<Rightarrow> int \<Rightarrow> CONNECTION" where
  "pgr_conn_frontend dst fd = dst\<lparr>cn_fd := fd\<rparr>"

definition pgr_conn_backend :: "CONNECTION \<Rightarrow> BACKEND \<Rightarrow> int \<Rightarrow> CONNECTION" where
  "pgr_conn_backend dst b i = dst\<lparr>cn_index := i, cn_serial := be_serial b,
     cn_hostname := Some (be_hostname b), cn_port := be_port b\<rparr>"

text \<open>When the source has no parameters the (freed) list of the destination stays in place.\<close>

fun copy_params :: "(bytes \<times> bytes) list \<Rightarrow> (bytes \<times> bytes) list" where
  "copy_params [] = []"
| "copy_params ((name, value) # ps) = (name, value) # copy_params ps"

definition pgr_conn_copy :: "CONNECTION \<Rightarrow> CONNECTION \<Rightarrow> int \<times> CONNECTION" where
  "pgr_conn_copy dst src =
     (let d = dst\<lparr>cn_pwhash := cn_pwhash src\<rparr>
      in (0, if cn_params src = [] then d else d\<lparr>cn_params := copy_params (cn_params src)\<rparr>))"

section \<open>Messages\<close>

text \<open>\<open>cats m bss\<close>: calls of \<^verbatim>\<open>pgr_mbuf_cat\<close> one after the other, their results dropped.\<close>

definition cats :: "mbuf \<Rightarrow> bytes list \<Rightarrow> mbuf" where
  "cats m bss = foldl (\<lambda>m bs. snd (pgr_mbuf_cat m bs)) m bss"

definition asciiz :: "bytes \<Rightarrow> bytes" where
  "asciiz s = s @ [NUL]"

definition param_parts :: "(bytes \<times> bytes) list \<Rightarrow> bytes list" where
  "param_parts ps = concat (map (\<lambda>(name, value). [asciiz name, asciiz value]) ps)"

definition startup_len :: "(bytes \<times> bytes) list \<Rightarrow> nat" where
  "startup_len ps = foldl (\<lambda>n (name, value). n + length name + 1 + length value + 1) (4 + 4 + 1) ps"

definition startup_message :: "mbuf \<Rightarrow> CONNECTION \<Rightarrow> int \<times> mbuf" where
  "startup_message m c =
     (0, cats m ([be32 (startup_len (cn_params c)), [NUL, byte_of 3, NUL, NUL]]
                 @ param_parts (cn_params c) @ [[NUL]]))"

definition auth_md5_message :: "mbuf \<Rightarrow> CONNECTION \<Rightarrow> int \<times> mbuf" where
  "auth_md5_message m c =
     pgr_mbuf_cat m (blit 9 (take 4 (cn_salt c)) (''R'' @ be32 12 @ be32 5 @ replicate 4 NUL))"

definition auth_ok_message :: "mbuf \<Rightarrow> CONNECTION \<Rightarrow> int \<times> mbuf" where
  "auth_ok_message m c = pgr_mbuf_cat m (''R'' @ be32 8 @ be32 0)"

text \<open>
  \<^verbatim>\<open>pgr_md5_init\<close> on the stack: the contents of the block buffer do not matter (\<open>same_message\<close>
  of the digest interface), \<open>md5_zero\<close> stands for them. The digest reads 32 octets of the
  password hash, whatever its length: \<open>None\<close> is a read outside the string, or through \<^verbatim>\<open>NULL\<close>.
\<close>

definition password_message :: "mbuf \<Rightarrow> CONNECTION \<Rightarrow> (int \<times> mbuf) option" where
  "password_message m c =
     (case cn_pwhash c of
        None \<Rightarrow> None
      | Some pwhash \<Rightarrow>
          if length (asciiz pwhash) < 32 then None
          else
            (let md5 = pgr_md5_init md5_zero;
                 md5 = pgr_md5_update md5 (take 32 (asciiz pwhash));
                 md5 = pgr_md5_update md5 (take 4 (cn_salt c))
             in Some (pgr_mbuf_cat m (''p'' @ be32 0x28 @ ''md5'' @ fst (pgr_md5_hex md5) @ [NUL]))))"

definition ready_for_query :: "mbuf \<Rightarrow> CONNECTION \<Rightarrow> int \<times> mbuf" where
  "ready_for_query m c = pgr_mbuf_cat m (''Z'' @ be32 5 @ ''I'')"

text \<open>The length counts the type octet too, which the protocol does not.\<close>

definition error_response :: "mbuf \<Rightarrow> bytes \<Rightarrow> bytes \<Rightarrow> bytes \<Rightarrow> mbuf" where
  "error_response m sev code msg =
     (let len = 1 + 4 + 1 + length sev + 1 + 1 + length code + 1 + 1 + length msg + 1 + 1
      in cats m [''E'', be32 len, ''S'', asciiz sev, ''C'', asciiz code, ''M'', asciiz msg, [NUL]])"

text \<open>\<^verbatim>\<open>%s\<close> of a \<^verbatim>\<open>NULL\<close> name prints as \<^verbatim>\<open>(null)\<close>.\<close>

definition auth_failed_text :: "bytes option \<Rightarrow> bytes" where
  "auth_failed_text user =
     ''password authentication failed for user '' @ CHR 0x22 #
     (case user of None \<Rightarrow> ''(null)'' | Some u \<Rightarrow> u) @ [CHR 0x22]"

section \<open>Reading the client's messages\<close>

text \<open>
  The loop of \<^verbatim>\<open>extract_params\<close>: \<open>x\<close> is the memory at the pointer of the source. The scan is
  bounded neither by the message nor by what is buffered; \<open>None\<close>: it leaves the buffer.
\<close>

definition note_param :: "CONTEXT \<Rightarrow> bytes \<Rightarrow> bytes \<Rightarrow> CONNECTION \<Rightarrow> CONNECTION" where
  "note_param ctx name value c =
     (let c1 = c\<lparr>cn_params := cn_params c @ [(name, value)]\<rparr>
      in if name = ''user''
         then c1\<lparr>cn_username := Some value, cn_pwhash := pgr_auth_find ctx value\<rparr>
         else if name = ''database'' then c1\<lparr>cn_database := Some value\<rparr>
         else c1)"

function extract_loop :: "CONTEXT \<Rightarrow> CONNECTION \<Rightarrow> bytes \<Rightarrow> (int \<times> CONNECTION) option" where
  "extract_loop ctx c x =
     (case cstr x of
        None \<Rightarrow> None
      | Some name \<Rightarrow>
          if name = [] then Some (0, c)
          else
            (let x1 = drop (length name + 1) x
             in case cstr x1 of
                  None \<Rightarrow> None
                | Some value \<Rightarrow>
                    if value = []
                    then Some (-1, c\<lparr>cn_params := cn_params c @ [(name, value)]\<rparr>)
                    else extract_loop ctx (note_param ctx name value c)
                           (drop (length value + 1) x1)))"
  by pat_completeness auto
termination
proof (relation "measure (\<lambda>(ctx, c, x). length x)", goal_cases)
  case (2 ctx c x name x1 v)
  then have "x \<noteq> []" by (cases x) auto
  then show ?case using 2 by simp
qed simp

declare extract_loop.simps [simp del]

definition extract_params :: "CONTEXT \<Rightarrow> CONNECTION \<Rightarrow> mbuf \<Rightarrow> (int \<times> CONNECTION) option" where
  "extract_params ctx c m =
     (case pgr_mbuf_data m 4 0 of
        None \<Rightarrow> Some (0, c)
      | Some p \<Rightarrow> extract_loop ctx c (data_mem m p))"

text \<open>\<open>None\<close>: \<^verbatim>\<open>memcmp\<close> on \<^verbatim>\<open>NULL\<close>, when the 32 octets are not buffered.\<close>

definition check_auth :: "CONNECTION \<Rightarrow> mbuf \<Rightarrow> int option" where
  "check_auth c m =
     (case cn_pwhash c of
        None \<Rightarrow> Some 1
      | Some pwhash \<Rightarrow>
          (let md5 = pgr_md5_init md5_zero;
               md5 = pgr_md5_update md5 pwhash;
               md5 = pgr_md5_update md5 (take 4 (cn_salt c));
               hashed = fst (pgr_md5_hex md5)
           in case pgr_mbuf_data m 3 32 of
                None \<Rightarrow> None
              | Some p \<Rightarrow> Some (memcmp (take 32 (data_mem m p)) hashed)))"

section \<open>Connecting to a backend\<close>

text \<open>
  The loop of \<^verbatim>\<open>pgr_conn_connect\<close>. \<open>None\<close> is a run that does not end: a Notice is not
  discarded, and at the end of the input a partial header stays in the buffer for ever.
\<close>

partial_function (option) connect_loop ::
    "CONNECTION \<Rightarrow> mbuf \<Rightarrow> world \<Rightarrow> (int \<times> CONNECTION \<times> world) run option" where
  "connect_loop c m w =
     (case pgr_mbuf_recv m w of
        (rc, m1, w1) \<Rightarrow>
          if rc < 0 then Some (Ret (rc, c, w1))
          else
            (let type = pgr_mbuf_msgtype m1
             in if type = schar CHR ''E'' then Some (Ret (-1, c, w1))
                else if type = schar CHR ''N'' then connect_loop c m1 w1
                else if type = schar CHR ''R'' then
                  (if pgr_mbuf_u32 m1 0 = 0 then
                     (case pgr_mbuf_discard m1 w1 of (_, m2, w2) \<Rightarrow> connect_loop c m2 w2)
                   else if pgr_mbuf_u32 m1 0 = 5 then
                     (case pgr_mbuf_data m1 4 4 of
                        None \<Rightarrow> Some Crash
                      | Some p \<Rightarrow>
                          (let c1 = c\<lparr>cn_salt := take 4 (data_mem m1 p)\<rparr>
                           in case pgr_mbuf_discard m1 w1 of
                                (_, m2, w2) \<Rightarrow>
                                  (case password_message m2 c1 of
                                     None \<Rightarrow> Some Crash
                                   | Some (rc, m3) \<Rightarrow>
                                       if rc \<noteq> 0 then Some (Ret (rc, c1, w2))
                                       else (case pgr_mbuf_relay m3 w2 of
                                               (rc, m4, w3) \<Rightarrow>
                                                 if rc \<noteq> 0 then Some (Ret (rc, c1, w3))
                                                 else connect_loop c1 m4 w3))))
                   else Some (Ret (-1, c, w1)))
                else if type = schar CHR ''K'' \<or> type = schar CHR ''S'' then
                  (case pgr_mbuf_discard m1 w1 of (_, m2, w2) \<Rightarrow> connect_loop c m2 w2)
                else if type = schar CHR ''Z'' then
                  (case pgr_mbuf_discard m1 w1 of (_, m2, w2) \<Rightarrow> Some (Ret (0, c, w2)))
                else Some (Ret (-1, c, w1))))"

declare connect_loop.simps [code]

definition pgr_conn_connect ::
    "pton \<Rightarrow> CONNECTION \<Rightarrow> world \<Rightarrow> (int \<times> CONNECTION \<times> world) run option" where
  "pgr_conn_connect pton c w =
     (case pgr_connect pton (cn_hostname c) (cn_port c) (int32 (cn_timeout c * 1000)) w of
        None \<Rightarrow> Some Crash
      | Some (fd, w1) \<Rightarrow>
          (let c1 = c\<lparr>cn_fd := fd\<rparr>
           in if fd < 0 then Some (Ret (fd, c1, w1))
              else (case startup_message (pgr_mbuf_setfd (pgr_mbuf_new 512) fd fd) c1 of
                      (rc, m1) \<Rightarrow>
                        if rc \<noteq> 0 then Some (Ret (rc, c1, w1))
                        else (case pgr_mbuf_relay m1 w1 of
                                (rc, m2, w2) \<Rightarrow>
                                  if rc \<noteq> 0 then Some (Ret (rc, c1, w2))
                                  else connect_loop c1 m2 w2))))"

section \<open>Accepting a client\<close>

text \<open>The answer to a correct password, from \<^verbatim>\<open>auth_ok_message\<close> to the end of the function.\<close>

definition accept_ok :: "CONNECTION \<Rightarrow> mbuf \<Rightarrow> world \<Rightarrow> int \<times> CONNECTION \<times> world" where
  "accept_ok c m w =
     (case auth_ok_message m c of
        (rc, m1) \<Rightarrow>
          if rc \<noteq> 0 then (rc, c, w)
          else (case pgr_mbuf_relay m1 w of
                  (rc, m2, w1) \<Rightarrow>
                    if rc \<noteq> 0 then (rc, c, w1)
                    else (case ready_for_query m2 c of
                            (rc, m3) \<Rightarrow>
                              if rc \<noteq> 0 then (rc, c, w1)
                              else (case pgr_mbuf_relay m3 w1 of
                                      (rc, m4, w2) \<Rightarrow> if rc \<noteq> 0 then (rc, c, w2) else (0, c, w2)))))"

definition accept_password :: "CONNECTION \<Rightarrow> mbuf \<Rightarrow> world \<Rightarrow> (int \<times> CONNECTION \<times> world) run" where
  "accept_password c m w =
     (case check_auth c m of
        None \<Rightarrow> Crash
      | Some rc \<Rightarrow>
          (case pgr_mbuf_discard m w of
             (_, m1, w1) \<Rightarrow>
               if rc \<noteq> 0 then
                 (case pgr_mbuf_relay (error_response m1 ''ERROR'' ''28P01'' (auth_failed_text (cn_username c))) w1 of
                    (_, m2, w2) \<Rightarrow> Ret (1, c, w2))
               else Ret (accept_ok c m1 w1)))"

partial_function (option) accept_loop ::
    "CONTEXT \<Rightarrow> CONNECTION \<Rightarrow> mbuf \<Rightarrow> world \<Rightarrow> (int \<times> CONNECTION \<times> world) run option" where
  "accept_loop ctx c m w =
     (case pgr_mbuf_recv m w of
        (rc, m1, w1) \<Rightarrow>
          if rc < 0 then Some (Ret (-1, c, w1))
          else
            (let type = pgr_mbuf_msgtype m1
             in if type = MSG_SSLREQ then
                  (case pgr_mbuf_discard m1 w1 of
                     (_, m2, w2) \<Rightarrow>
                       (case sys_write (cn_fd c) ''N'' w2 of
                          (n, w3) \<Rightarrow> if n \<noteq> 1 then Some (Ret (-1, c, w3)) else accept_loop ctx c m2 w3))
                else if type = MSG_CANCEL then
                  (case pgr_mbuf_discard m1 w1 of (_, m2, w2) \<Rightarrow> accept_loop ctx c m2 w2)
                else if type = MSG_STARTUP then
                  (case extract_params ctx c m1 of
                     None \<Rightarrow> Some Crash
                   | Some (rc, c1) \<Rightarrow>
                       if rc \<noteq> 0 then Some (Ret (rc, c1, w1))
                       else (case pgr_mbuf_discard m1 w1 of
                               (_, m2, w2) \<Rightarrow>
                                 (case auth_md5_message m2 c1 of
                                    (rc, m3) \<Rightarrow>
                                      if rc \<noteq> 0 then Some (Ret (rc, c1, w2))
                                      else (case pgr_mbuf_relay m3 w2 of
                                              (rc, m4, w3) \<Rightarrow>
                                                if rc \<noteq> 0 then Some (Ret (rc, c1, w3))
                                                else accept_loop ctx c1 m4 w3))))
                else if type = schar CHR ''p'' then Some (accept_password c m1 w1)
                else Some (Ret (-1, c, w1))))"

declare accept_loop.simps [code]

definition pgr_conn_accept ::
    "CONTEXT \<Rightarrow> CONNECTION \<Rightarrow> world \<Rightarrow> (int \<times> CONNECTION \<times> world) run option" where
  "pgr_conn_accept ctx c w =
     accept_loop ctx c (pgr_mbuf_setfd (pgr_mbuf_new 512) (cn_fd c) (cn_fd c)) w"

end
