(* ===== verification/Worker.thy ===== *)
theory Worker
  imports Conn
begin

text \<open>
  The worker thread of \<^verbatim>\<open>src/worker.c\<close>: the choice of the two backends of a client and the
  session that routes the client's messages, as a machine of steps. The accepting loop of the
  thread is in the theory \<open>Serving\<close>.
\<close>

section \<open>Choosing the backends\<close>

definition use_backend :: "CONTEXT \<Rightarrow> nat \<Rightarrow> BACKEND \<Rightarrow> CONNECTION \<Rightarrow> CONNECTION" where
  "use_backend c i b conn = conn\<lparr>cn_serial := be_serial b, cn_index := int i,
     cn_hostname := Some (be_hostname b), cn_port := be_port b,
     cn_timeout := int32 (health_timeout c * 1000)\<rparr>"

text \<open>
  The first loop of \<^verbatim>\<open>determine_backends\<close>, from the backend \<open>i\<close> on: the weights it fills in (0 for
  a backend that is not viable), the total, and the writer.
\<close>

fun weigh :: "CONTEXT \<Rightarrow> nat \<Rightarrow> int \<Rightarrow> BACKEND list \<Rightarrow> CONNECTION \<Rightarrow> int list \<times> int \<times> CONNECTION" where
  "weigh c i cumulative [] writer = ([], cumulative, writer)"
| "weigh c i cumulative (b # bs) writer =
     (if be_role b = BACKEND_ROLE_MASTER
      then (case weigh c (Suc i) cumulative bs (use_backend c i b writer) of
              (ws, cum, wr) \<Rightarrow> (0 # ws, cum, wr))
      else if be_status b = BACKEND_IS_OK \<and> be_lag b < be_threshold b
      then (let cumulative = int32 (cumulative + be_weight b)
            in case weigh c (Suc i) cumulative bs writer of
                 (ws, cum, wr) \<Rightarrow> (cumulative # ws, cum, wr))
      else (case weigh c (Suc i) cumulative bs writer of (ws, cum, wr) \<Rightarrow> (0 # ws, cum, wr)))"

text \<open>The second loop: the first backend whose weight is not below \<open>r\<close>.\<close>

fun pick :: "int \<Rightarrow> nat \<Rightarrow> int list \<Rightarrow> nat option" where
  "pick r i [] = None"
| "pick r i (x # ws) = (if r \<le> x then Some i else pick r (Suc i) ws)"

definition determine_backends ::
    "int \<Rightarrow> CONTEXT \<Rightarrow> CONNECTION \<Rightarrow> CONNECTION \<Rightarrow> int \<times> CONNECTION \<times> CONNECTION" where
  "determine_backends k c reader writer =
     (case weigh c 0 0 (backends c) writer of
        (weights, cumulative, writer1) \<Rightarrow>
          if cumulative = 0 then (-1, reader, writer1)
          else (case pick (pgr_rand k 0 cumulative) 0 weights of
                  None \<Rightarrow> (-1, reader, writer1)
                | Some i \<Rightarrow> (0, use_backend c i (backends c ! i) reader, writer1)))"

section \<open>A session\<close>

text \<open>
  The program points of \<^verbatim>\<open>handle_client\<close>: the head of the outer loop, the loop that reads the
  client, the loop that reads the backend, the COPY loop in it, the label \<^verbatim>\<open>shutdown\<close>, the end.
\<close>

datatype pc = TOP | FE | BE | COPY | SHUTDOWN | DONE

record session =
  hc_pc    :: pc
  frontend :: CONNECTION
  reader   :: CONNECTION
  writer   :: CONNECTION
  fe       :: mbuf
  be       :: mbuf
  befd     :: int
  in_txn   :: int
  hc_type  :: int
  hc_world :: world

definition hc_top :: "session \<Rightarrow> session" where
  "hc_top s =
     (let s1 = (if in_txn s = 0 then s\<lparr>befd := cn_fd (reader s)\<rparr> else s)
      in s1\<lparr>fe := pgr_mbuf_setfd (fe s1) MBUF_SAME_FD (befd s1),
            be := pgr_mbuf_setfd (be s1) (befd s1) MBUF_SAME_FD, hc_pc := FE\<rparr>)"

text \<open>The test of a query's first letters, and what it does to the routing.\<close>

definition query_is :: "mbuf \<Rightarrow> bytes \<Rightarrow> bool" where
  "query_is m kw = (case pgr_mbuf_data m 0 (length kw) of
                      None \<Rightarrow> False
                    | Some p \<Rightarrow> strncaseeq (data_mem m p) kw (length kw))"

definition hc_route :: "session \<Rightarrow> session" where
  "hc_route s =
     (if hc_type s = schar CHR ''Q'' then
        (let s1 = (if query_is (fe s) ''begin''
                   then s\<lparr>in_txn := 1, befd := cn_fd (writer s),
                          fe := pgr_mbuf_setfd (fe s) MBUF_SAME_FD (cn_fd (writer s))\<rparr>
                   else s)
         in if query_is (fe s1) ''commit'' then s1\<lparr>in_txn := 0\<rparr> else s1)
      else s)"

definition terminate_msg :: bytes where
  "terminate_msg = ''X'' @ be32 4"

text \<open>One round of the loop that forwards the client's messages.\<close>

definition hc_fe :: "session \<Rightarrow> session" where
  "hc_fe s =
     (case pgr_mbuf_recv (fe s) (hc_world s) of
        (rc, m1, w1) \<Rightarrow>
          if rc < 0 then s\<lparr>fe := m1, hc_world := w1, hc_pc := SHUTDOWN\<rparr>
          else
            (let s1 = hc_route (s\<lparr>fe := m1, hc_world := w1, hc_type := pgr_mbuf_msgtype m1\<rparr>)
             in case pgr_mbuf_send (fe s1) (hc_world s1) of
                  (rc, m2, w2) \<Rightarrow>
                    (let s2 = s1\<lparr>fe := m2, hc_world := w2\<rparr>
                     in if rc \<noteq> 0 then s2\<lparr>hc_pc := SHUTDOWN\<rparr>
                        else if hc_type s2 = schar CHR ''X'' then
                          (let w3 = snd (pgr_sendn (cn_fd (reader s2)) terminate_msg w2);
                               w4 = snd (pgr_sendn (cn_fd (writer s2)) terminate_msg w3)
                           in s2\<lparr>hc_world := w4, hc_pc := SHUTDOWN\<rparr>)
                        else if hc_type s2 \<noteq> schar CHR ''Q'' \<and> hc_type s2 \<noteq> schar CHR ''S''
                        then s2\<lparr>hc_pc := FE\<rparr>
                        else s2\<lparr>hc_pc := BE\<rparr>)))"

text \<open>
  The part that moves the client from the reader to the writer (SQLSTATE 25006); \<open>None\<close> when
  \<^verbatim>\<open>pgr_mbuf_drain\<close> does not return. The results of its calls are dropped.
\<close>

definition hc_reroute :: "session \<Rightarrow> session option" where
  "hc_reroute s =
     (case pgr_mbuf_drain (be s) (schar CHR ''Z'') (hc_world s) of
        None \<Rightarrow> None
      | Some (_, m1, w1) \<Rightarrow>
          (let fd = cn_fd (writer s);
               fe1 = pgr_mbuf_setfd (fe s) MBUF_SAME_FD fd;
               be1 = pgr_mbuf_setfd m1 fd MBUF_SAME_FD
           in case pgr_mbuf_resend fe1 w1 of
                (_, fe2, w2) \<Rightarrow>
                  (case pgr_mbuf_reset fe2 w2 of
                     (fe3, w3) \<Rightarrow>
                       Some (s\<lparr>befd := fd, fe := fe3, be := be1, hc_world := w3, hc_pc := BE\<rparr>))))"

text \<open>One round of the loop that relays the backend's messages.\<close>

definition hc_be :: "session \<Rightarrow> session option" where
  "hc_be s =
     (case pgr_mbuf_recv (be s) (hc_world s) of
        (rc, m1, w1) \<Rightarrow>
          if rc < 0 then Some (s\<lparr>be := m1, hc_world := w1, hc_pc := SHUTDOWN\<rparr>)
          else
            (let s1 = s\<lparr>be := m1, hc_world := w1, hc_type := pgr_mbuf_msgtype m1\<rparr>
             in if pgr_mbuf_iserror m1 (Some ''25006'') = 0 \<and> befd s1 = cn_fd (reader s1)
                then hc_reroute s1
                else (case pgr_mbuf_relay m1 w1 of
                        (rc, m2, w2) \<Rightarrow>
                          (let s2 = s1\<lparr>be := m2, hc_world := w2\<rparr>
                           in if rc \<noteq> 0 then Some (s2\<lparr>hc_pc := SHUTDOWN\<rparr>)
                              else if hc_type s2 = schar CHR ''G'' then Some (s2\<lparr>hc_pc := COPY\<rparr>)
                              else if hc_type s2 \<noteq> schar CHR ''Z'' then Some (s2\<lparr>hc_pc := BE\<rparr>)
                              else Some (s2\<lparr>hc_pc := TOP\<rparr>)))))"

text \<open>One round of the COPY loop; its exit goes to the condition of the loop around it.\<close>

definition hc_copy :: "session \<Rightarrow> session" where
  "hc_copy s =
     (case pgr_mbuf_recv (fe s) (hc_world s) of
        (rc, m1, w1) \<Rightarrow>
          if rc < 0 then s\<lparr>fe := m1, hc_world := w1, hc_pc := SHUTDOWN\<rparr>
          else
            (let s1 = s\<lparr>fe := m1, hc_world := w1, hc_type := pgr_mbuf_msgtype m1\<rparr>
             in case pgr_mbuf_relay m1 w1 of
                  (rc, m2, w2) \<Rightarrow>
                    (let s2 = s1\<lparr>fe := m2, hc_world := w2\<rparr>
                     in if rc \<noteq> 0 then s2\<lparr>hc_pc := SHUTDOWN\<rparr>
                        else if hc_type s2 \<noteq> schar CHR ''c'' \<and> hc_type s2 \<noteq> schar CHR ''F''
                        then s2\<lparr>hc_pc := COPY\<rparr>
                        else s2\<lparr>hc_pc := BE\<rparr>)))"

definition hc_shutdown :: "session \<Rightarrow> session" where
  "hc_shutdown s =
     s\<lparr>hc_world := pgr_conn_deinit (frontend s)
                    (pgr_conn_deinit (writer s) (pgr_conn_deinit (reader s) (hc_world s))),
       hc_pc := DONE\<rparr>"

definition hc_next :: "session \<Rightarrow> session option" where
  "hc_next s =
     (case hc_pc s of
        TOP \<Rightarrow> Some (hc_top s)
      | FE \<Rightarrow> Some (hc_fe s)
      | BE \<Rightarrow> hc_be s
      | COPY \<Rightarrow> Some (hc_copy s)
      | SHUTDOWN \<Rightarrow> Some (hc_shutdown s)
      | DONE \<Rightarrow> None)"

inductive hc_step :: "session \<Rightarrow> session \<Rightarrow> bool" where
  step: "hc_next s = Some s' \<Longrightarrow> hc_step s s'"

inductive_simps hc_step_iff: "hc_step s s'"

abbreviation hc_reach :: "session \<Rightarrow> session \<Rightarrow> bool" where
  "hc_reach \<equiv> hc_step\<^sup>*\<^sup>*"

text \<open>The whole function: \<open>None\<close> is a session that does not end.\<close>

partial_function (option) hc_run :: "session \<Rightarrow> session option" where
  "hc_run s = (if hc_pc s = DONE then Some s
               else (case hc_next s of None \<Rightarrow> None | Some s' \<Rightarrow> hc_run s'))"

declare hc_run.simps [code]

section \<open>Opening a session\<close>

text \<open>
  The part of \<^verbatim>\<open>handle_client\<close> before the loop: \<open>rnd i\<close> is what the \<open>i\<close>-th \<^verbatim>\<open>rand_r\<close> returns. The
  chain of \<^verbatim>\<open>||\<close> stops at the first call that fails and goes to \<^verbatim>\<open>shutdown\<close>.
\<close>

definition hc_connect :: "pton \<Rightarrow> session \<Rightarrow> session run option" where
  "hc_connect pton s =
     (case pgr_conn_connect pton (reader s) (hc_world s) of
        None \<Rightarrow> None
      | Some Crash \<Rightarrow> Some Crash
      | Some (Ret (rc, r1, w1)) \<Rightarrow>
          (let s1 = s\<lparr>reader := r1, hc_world := w1\<rparr>
           in if rc \<noteq> 0 then Some (Ret (s1\<lparr>hc_pc := SHUTDOWN\<rparr>))
              else (case pgr_conn_connect pton (writer s1) w1 of
                      None \<Rightarrow> None
                    | Some Crash \<Rightarrow> Some Crash
                    | Some (Ret (rc, r2, w2)) \<Rightarrow>
                        (let s2 = s1\<lparr>writer := r2, hc_world := w2\<rparr>
                         in if rc \<noteq> 0 then Some (Ret (s2\<lparr>hc_pc := SHUTDOWN\<rparr>))
                            else Some (Ret (s2\<lparr>fe := pgr_mbuf_setfd (fe s2) (cn_fd (frontend s2)) MBUF_NO_FD,
                                                be := pgr_mbuf_setfd (be s2) MBUF_NO_FD (cn_fd (frontend s2)),
                                                in_txn := 0, hc_pc := TOP\<rparr>))))))"

definition hc_open ::
    "pton \<Rightarrow> (nat \<Rightarrow> int) \<Rightarrow> CONTEXT \<Rightarrow> int \<Rightarrow> world \<Rightarrow> session run option" where
  "hc_open pton rnd c fd w =
     (let s = \<lparr>hc_pc = SHUTDOWN, frontend = pgr_conn_frontend (pgr_conn_init (rnd 0)) fd,
               reader = pgr_conn_init (rnd 1), writer = pgr_conn_init (rnd 2),
               fe = pgr_mbuf_new 16384, be = pgr_mbuf_new 4096, befd = -1, in_txn = 0,
               hc_type = 0, hc_world = w\<rparr>
      in case pgr_conn_accept c (frontend s) w of
           None \<Rightarrow> None
         | Some Crash \<Rightarrow> Some Crash
         | Some (Ret (rc, f1, w1)) \<Rightarrow>
             (let s1 = s\<lparr>frontend := f1, hc_world := w1\<rparr>
              in if rc \<noteq> 0 then Some (Ret s1)
                 else (case determine_backends (rnd 3) c (reader s1) (writer s1) of
                         (rc, r1, wr1) \<Rightarrow>
                           if rc \<noteq> 0 then Some (Ret (s1\<lparr>reader := r1, writer := wr1\<rparr>))
                           else hc_connect pton (s1\<lparr>reader := snd (pgr_conn_copy r1 f1),
                                                    writer := snd (pgr_conn_copy wr1 f1)\<rparr>))))"

definition handle_client ::
    "pton \<Rightarrow> (nat \<Rightarrow> int) \<Rightarrow> CONTEXT \<Rightarrow> int \<Rightarrow> world \<Rightarrow> session run option" where
  "handle_client pton rnd c fd w =
     (case hc_open pton rnd c fd w of
        None \<Rightarrow> None
      | Some Crash \<Rightarrow> Some Crash
      | Some (Ret s) \<Rightarrow> (case hc_run s of None \<Rightarrow> None | Some s' \<Rightarrow> Some (Ret s')))"

end
