(* ===== verification/Msg_Laws.thy ===== *)
theory Msg_Laws
  imports Msg
begin

text \<open>
  The laws of the message buffer: the invariant \<open>mbuf_wf\<close> and its preservation, the value
  of the length macros, what the operations do to the stream of unread octets, and the
  log of sent octets that \<^verbatim>\<open>pgr_mbuf_resend\<close> replays.
\<close>

section \<open>The length macros\<close>

lemma or_push_bit_add:
  fixes x y :: "'a::len word"
  assumes "unat y < 2 ^ n"
  shows "push_bit n x OR y = push_bit n x + y"
proof -
  have "\<not> bit y i" if "n \<le> i" for i
    using assms that by (metis bit_take_bit_iff leD take_bit_nat_eq_self_iff unsigned_take_bit_eq
        word_eq_iff_unsigned)
  then have "push_bit n x AND y = 0"
    by (intro bit_word_eqI) (auto simp: bit_simps not_less)
  then show ?thesis by (simp add: disjunctive_add_eq_or)
qed

lemma unat_small16: "n < 2 ^ 16 \<Longrightarrow> unat (of_nat n :: u16) = n"
  by (simp add: unsigned_of_nat take_bit_nat_eq_self)

lemma unat_small32: "n < 2 ^ 32 \<Longrightarrow> unat (of_nat n :: u32) = n"
  by (simp add: unsigned_of_nat take_bit_nat_eq_self)

lemma unat_u16_of: "unat (u16_of b0 b1) = uchar b0 * 256 + uchar b1"
proof -
  have b: "uchar b0 < 256" "uchar b1 < 256" by (rule uchar_bound)+
  have "u16_of b0 b1 = push_bit 8 (of_nat (uchar b0)) + of_nat (uchar b1)"
    unfolding u16_of_def using b by (intro or_push_bit_add) (simp add: unat_small16)
  also have "\<dots> = of_nat (uchar b0 * 256 + uchar b1)"
    by (simp add: push_bit_eq_mult)
  finally have *: "u16_of b0 b1 = of_nat (uchar b0 * 256 + uchar b1)" .
  show ?thesis unfolding * using b by (intro unat_small16) simp
qed

lemma u32_top_lost: "ucast (push_bit 24 (x :: u32)) = (0 :: u16)"
  by (intro bit_word_eqI) (auto simp: bit_simps)

lemma unat_u32_of: "unat (u32_of b0 b1 b2 b3) = uchar b1 * 2 ^ 16 + uchar b2 * 2 ^ 8 + uchar b3"
proof -
  have b: "uchar b1 < 256" "uchar b2 < 256" "uchar b3 < 256" by (rule uchar_bound)+
  have 1: "push_bit 8 (of_nat (uchar b2)) OR of_nat (uchar b3) = (of_nat (uchar b2 * 256 + uchar b3) :: u32)"
    using b by (subst or_push_bit_add, subst unat_small32) (simp_all add: push_bit_eq_mult)
  have "u32_of b0 b1 b2 b3 = push_bit 16 (of_nat (uchar b1)) OR of_nat (uchar b2 * 256 + uchar b3)"
    unfolding u32_of_def u32_top_lost by (simp only: or.assoc 1) simp
  also have "\<dots> = of_nat (uchar b1 * 2 ^ 16 + uchar b2 * 2 ^ 8 + uchar b3)"
    using b by (subst or_push_bit_add, subst unat_small32) (simp_all add: push_bit_eq_mult)
  finally have *: "u32_of b0 b1 b2 b3 = of_nat (uchar b1 * 2 ^ 16 + uchar b2 * 2 ^ 8 + uchar b3)" .
  show ?thesis unfolding * using b by (intro unat_small32) simp
qed

lemma unat_u32_of_bound: "unat (u32_of b0 b1 b2 b3) < 2 ^ 24"
proof -
  have "uchar b1 < 256" "uchar b2 < 256" "uchar b3 < 256" by (rule uchar_bound)+
  then show ?thesis unfolding unat_u32_of by simp
qed

lemma unat_u32_of_be32:
  "unat (u32_of (be32 n ! 0) (be32 n ! 1) (be32 n ! 2) (be32 n ! 3)) = n mod 2 ^ 24"
proof -
  have "n mod 2 ^ 24 = (n div 2 ^ 16) mod 256 * 2 ^ 16 + (n div 2 ^ 8) mod 256 * 2 ^ 8 + n mod 256"
    by (simp add: mod_mult2_eq [of n 256 65536, simplified] mod_mult2_eq [of "n div 256" 256 256, simplified]
        div_mult2_eq [of n 256 256, simplified])
  then show ?thesis by (simp add: unat_u32_of be32_def uchar_byte_of)
qed


section \<open>The invariant and the window\<close>

lemma mbuf_wfD:
  assumes "mbuf_wf m"
  shows "start m \<le> fill m" "fill m \<le> len m" "length (buf m) = len m"
  using assms by (simp_all add: mbuf_wf_def)

lemma length_window: "mbuf_wf m \<Longrightarrow> length (window m) = available m"
  by (auto simp: window_def available_def mbuf_wf_def)

lemma window_cut:
  assumes "mbuf_wf m" and "l \<le> available m"
  shows "window (cut_front l m) = drop l (window m)"
proof -
  let ?n = "fill m - start m - l"
  from assms have *: "start m \<le> length (buf m)" "start m + l + ?n \<le> length (buf m)"
    by (auto simp: mbuf_wf_def available_def)
  have "window (cut_front l m) = take ?n (drop (start m) (memmove (start m) (start m + l) ?n (buf m)))"
    by (simp add: window_def cut_front_def available_def diff_diff_eq add.commute)
  also have "\<dots> = take ?n (drop (start m + l) (buf m))"
    using * by (simp only: drop_memmove) simp
  also have "\<dots> = drop l (window m)"
    by (simp add: window_def available_def drop_take add.commute)
  finally show ?thesis .
qed

lemma window_drop [simp]: "window (drop_window m) = []"
  by (simp add: window_def drop_window_def available_def)

lemma window_take_in:
  assumes "mbuf_wf m" and "length bs \<le> room m"
  shows "window (take_in bs m) = window m @ bs"
proof -
  from assms have *: "start m \<le> fill m" "fill m + length bs \<le> len m" "length (buf m) = len m"
    by (auto simp: mbuf_wf_def room_def)
  then have "drop (start m) (blit (fill m) bs (buf m)) =
      take (fill m - start m) (drop (start m) (buf m)) @ bs @ drop (fill m + length bs) (buf m)"
    by (simp add: blit_def drop_take)
  with * show ?thesis
    by (simp add: window_def take_in_def available_def)
qed

lemma wf_take_in: "mbuf_wf m \<Longrightarrow> length bs \<le> room m \<Longrightarrow> mbuf_wf (take_in bs m)"
  by (auto simp: mbuf_wf_def take_in_def room_def)

lemma wf_drop_window: "mbuf_wf m \<Longrightarrow> mbuf_wf (drop_window m)"
  by (auto simp: mbuf_wf_def drop_window_def)

lemma wf_cut_front: "mbuf_wf m \<Longrightarrow> l \<le> available m \<Longrightarrow> mbuf_wf (cut_front l m)"
  by (auto simp: mbuf_wf_def cut_front_def available_def)

lemma wf_new: "mbuf_wf (pgr_mbuf_new l)"
  by (simp add: mbuf_wf_def pgr_mbuf_new_def)

lemma wf_setfd: "mbuf_wf m \<Longrightarrow> mbuf_wf (pgr_mbuf_setfd m i out)"
  by (simp add: mbuf_wf_def pgr_mbuf_setfd_def Let_def)

lemma wf_reset: "mbuf_wf m \<Longrightarrow> mbuf_wf (fst (pgr_mbuf_reset m w))"
  by (simp add: mbuf_wf_def pgr_mbuf_reset_def Let_def)

lemma wf_cat: "mbuf_wf m \<Longrightarrow> mbuf_wf (snd (pgr_mbuf_cat m bs))"
  by (auto simp: mbuf_wf_def pgr_mbuf_cat_def)

lemma wf_recv: "mbuf_wf m \<Longrightarrow> pgr_mbuf_recv m w = (r, m', w') \<Longrightarrow> mbuf_wf m'"
proof (induction m w arbitrary: r m' w' rule: pgr_mbuf_recv.induct)
  case (1 m w)
  show ?case
  proof (cases "available m < 5")
    case True
    obtain n bs w1 where rd: "sys_read (infd m) (len m - fill m) w = (n, bs, w1)"
      by (metis surj_pair)
    have "length bs \<le> room m" using sys_read_bound [OF rd] by (simp add: room_def)
    then have "mbuf_wf (take_in bs m)" using "1.prems"(1) by (simp add: wf_take_in)
    then show ?thesis
      using "1.IH" [OF True rd [symmetric] refl] "1.prems" True rd
      by (cases "n \<le> 0") (simp_all add: pgr_mbuf_recv.simps [of m w])
  qed (use "1.prems" in \<open>simp add: pgr_mbuf_recv.simps [of m w]\<close>)
qed

text \<open>The common step of the moving loops: drop what is buffered, read again.\<close>

lemma refill:
  assumes "mbuf_wf m" and rd: "sys_read fd (room (drop_window m)) w = (n, bs, w1)"
  shows "mbuf_wf (take_in bs (drop_window m))" and "window (take_in bs (drop_window m)) = bs"
  using assms sys_read_bound [OF rd]
  by (simp_all add: wf_take_in wf_drop_window window_take_in)

lemma wf_relay_loop: "mbuf_wf m \<Longrightarrow> relay_loop l ok m w = (r, m', w') \<Longrightarrow> mbuf_wf m'"
proof (induction l ok m w arbitrary: r m' w' rule: relay_loop.induct)
  case (1 l ok m w)
  obtain ok1 w1 where wr: "(if ok then write_all (outfd m) (window m) w else (False, w)) = (ok1, w1)"
    by (metis surj_pair)
  obtain n bs w2 where rd: "sys_read (infd m) (room (drop_window m)) w1 = (n, bs, w2)"
    by (metis surj_pair)
  note step = relay_loop.simps [of l ok m w, unfolded wr rd prod.case]
  show ?case
  proof (cases "available m < l")
    case True
    then show ?thesis
      using "1.IH" [OF True wr [symmetric] rd [symmetric] refl] "1.prems"
        refill [OF "1.prems"(1) rd]
      by (cases "n \<le> 0") (auto simp: step wf_drop_window)
  next
    case False
    then show ?thesis
      using "1.prems" wf_cut_front [of m l]
      by (auto simp: step split: if_splits prod.splits)
  qed
qed

lemma wf_relay: "mbuf_wf m \<Longrightarrow> pgr_mbuf_relay m w = (r, m', w') \<Longrightarrow> mbuf_wf m'"
  by (auto simp: pgr_mbuf_relay_def wf_relay_loop split: if_splits)

lemma wf_discard_loop: "mbuf_wf m \<Longrightarrow> discard_loop l m w = (r, m', w') \<Longrightarrow> mbuf_wf m'"
proof (induction l m w arbitrary: r m' w' rule: discard_loop.induct)
  case (1 l m w)
  obtain n bs w1 where rd: "sys_read (infd m) (room (drop_window m)) w = (n, bs, w1)"
    by (metis surj_pair)
  note step = discard_loop.simps [of l m w, unfolded rd prod.case]
  show ?case
  proof (cases "available m < l")
    case True
    then show ?thesis
      using "1.IH" [OF True rd [symmetric] refl] "1.prems" refill [OF "1.prems"(1) rd]
      by (cases "n \<le> 0") (auto simp: step wf_drop_window)
  next
    case False
    then show ?thesis
      using "1.prems" wf_cut_front [of m l] by (auto simp: step split: if_splits)
  qed
qed

lemma wf_discard: "mbuf_wf m \<Longrightarrow> pgr_mbuf_discard m w = (r, m', w') \<Longrightarrow> mbuf_wf m'"
  by (auto simp: pgr_mbuf_discard_def wf_discard_loop split: if_splits)

lemma wf_drain:
  assumes "pgr_mbuf_drain m until w = Some (r, m', w')" and "mbuf_wf m"
  shows "mbuf_wf m'"
proof -
  have "mbuf_wf m \<longrightarrow> mbuf_wf (fst (snd (r, m', w')))"
  proof (rule pgr_mbuf_drain.raw_induct [where P = "\<lambda>m until w x. mbuf_wf m \<longrightarrow> mbuf_wf (fst (snd x))",
        OF _ assms(1)])
    fix f m until w x
    assume IH: "\<And>m until w x. f m until w = Some x \<Longrightarrow> mbuf_wf m \<longrightarrow> mbuf_wf (fst (snd x))"
      and eq: "(let type = pgr_mbuf_msgtype m
                in if type < 0 then Some (-1, m, w)
                   else (case pgr_mbuf_discard m w of
                     (_, m1, w1) \<Rightarrow> if type = until then Some (0, m1, w1)
                       else (case pgr_mbuf_recv m1 w1 of (_, m2, w2) \<Rightarrow> f m2 until w2))) = Some x"
    obtain r1 m1 w1 where d: "pgr_mbuf_discard m w = (r1, m1, w1)" by (metis surj_pair)
    obtain r2 m2 w2 where r: "pgr_mbuf_recv m1 w1 = (r2, m2, w2)" by (metis surj_pair)
    show "mbuf_wf m \<longrightarrow> mbuf_wf (fst (snd x))"
      using eq IH [of m2 until w2] wf_discard [OF _ d] wf_recv [OF _ r]
      by (auto simp: Let_def d r split: if_splits)
  qed
  with assms(2) show ?thesis by simp
qed

lemma wf_warm: "mbuf_wf m \<Longrightarrow> warm_cache m w = Inr (m1, w1) \<Longrightarrow> mbuf_wf m1"
  and wf_warm_fail: "mbuf_wf m \<Longrightarrow> warm_cache m w = Inl (m1, w1) \<Longrightarrow> mbuf_wf m1"
  by (auto simp: warm_cache_def Let_def mbuf_wf_def split: if_splits prod.splits)

lemma wf_send_loop: "mbuf_wf m \<Longrightarrow> send_loop l ok m w = (r, m', w') \<Longrightarrow> mbuf_wf m'"
proof (induction l ok m w arbitrary: r m' w' rule: send_loop.induct)
  case (1 l ok m w)
  show ?case
  proof (cases "available m < l")
    case more: True
    show ?thesis
    proof (cases "warm_cache m w")
      case (Inl p)
      then show ?thesis
        using "1.prems" more by (cases p) (auto simp: send_loop.simps [of l ok m w] wf_warm_fail)
    next
      case (Inr p)
      obtain m1 w1 where p: "p = (m1, w1)" by (cases p)
      note wf1 = wf_warm [OF "1.prems"(1) Inr [unfolded p]]
      obtain n1 w2 where a: "writen 0 (outfd m1) (drop (start m1) (buf m1)) (available m1) w1 = (n1, w2)"
        by (metis surj_pair)
      obtain n2 w3 where b: "writen 0 (cache m1) (drop (start m1) (buf m1)) (available m1) w2 = (n2, w3)"
        by (metis surj_pair)
      obtain n bs w4 where rd: "sys_read (infd m1) (room (drop_window m1)) w3 = (n, bs, w4)"
        by (metis surj_pair)
      show ?thesis
        using "1.IH" [OF more Inr p [symmetric] a [symmetric] b [symmetric] _ rd [symmetric] refl]
          "1.prems"(2) more refill [OF wf1 rd] wf1
        by (auto simp: send_loop.simps [of l ok m w] Inr p a b rd wf_drop_window split: if_splits)
    qed
  next
    case False
    moreover have "mbuf_wf (m\<lparr>start := start m + l\<rparr>)"
      using "1.prems"(1) False by (auto simp: mbuf_wf_def available_def)
    ultimately show ?thesis
      using "1.prems" wf_cut_front [of m l]
      by (auto simp: send_loop.simps [of l ok m w] split: if_splits prod.splits)
  qed
qed

lemma wf_send: "mbuf_wf m \<Longrightarrow> pgr_mbuf_send m w = (r, m', w') \<Longrightarrow> mbuf_wf m'"
  by (auto simp: pgr_mbuf_send_def wf_send_loop split: if_splits)

lemma resend_prefix_wf:
  "mbuf_wf m \<Longrightarrow> until \<le> fill m \<Longrightarrow> resend_prefix until m w = (r, m', w') \<Longrightarrow> mbuf_wf m'"
proof (induction until m w arbitrary: r m' w' rule: resend_prefix.induct)
  case (1 until m w)
  obtain n w1 where wr: "sys_write (outfd m) (take (until - start m) (drop (start m) (buf m))) w = (n, w1)"
    by (metis surj_pair)
  have "nat n \<le> until - start m" using sys_write_bound [OF wr] by simp
  then have "start m < until \<Longrightarrow> mbuf_wf (m\<lparr>start := start m + nat n\<rparr>)"
    using "1.prems"(1,2) by (auto simp: mbuf_wf_def)
  then show ?case
    using "1.IH" [OF _ wr [symmetric]] "1.prems"
    by (auto simp: resend_prefix.simps [of until m w] wr split: if_splits)
qed

lemma wf_resend: "mbuf_wf m \<Longrightarrow> pgr_mbuf_resend m w = (r, m', w') \<Longrightarrow> mbuf_wf m'"
  using resend_prefix_wf [of "m\<lparr>start := 0\<rparr>" "start m"]
  by (auto simp: pgr_mbuf_resend_def mbuf_wf_def split: if_splits prod.splits)

lemmas mbuf_wf_ops =
  wf_new wf_setfd wf_reset wf_cat wf_recv wf_relay wf_discard wf_drain wf_send wf_resend

end
