(* ===== verification/Msg_Stream.thy ===== *)
theory Msg_Stream
  imports Msg_Laws
begin

text \<open>
  What \<^verbatim>\<open>pgr_mbuf_recv\<close>, \<^verbatim>\<open>pgr_mbuf_relay\<close> and \<^verbatim>\<open>pgr_mbuf_discard\<close> do to the stream of
  octets that is still unread (the buffered window followed by what the descriptor will
  deliver), whatever the sizes of the reads and, for the relay, of the writes.
\<close>

section \<open>Message boundaries in a stream\<close>

text \<open>The size the code computes for the message at the front of a stream.\<close>

definition wire_size :: "bytes \<Rightarrow> nat" where
  "wire_size s = (if s ! 0 = NUL then unat (u32_at s 0) else unat (u32_at s 1) + 1)"

definition complete :: "bytes \<Rightarrow> bool" where
  "complete s \<longleftrightarrow> 5 \<le> length s \<and> 0 < wire_size s \<and> wire_size s \<le> length s"

abbreviation first_msg :: "bytes \<Rightarrow> bytes" where "first_msg s \<equiv> take (wire_size s) s"
abbreviation after_msg :: "bytes \<Rightarrow> bytes" where "after_msg s \<equiv> drop (wire_size s) s"

definition unread :: "mbuf \<Rightarrow> world \<Rightarrow> bytes" where
  "unread m w = window m @ input (infd m) w"

lemma u32_at_append: "i + 3 < length s \<Longrightarrow> u32_at (s @ t) i = u32_at s i"
  by (simp add: u32_at_def nth_append)

lemma window_nth: "mbuf_wf m \<Longrightarrow> i < available m \<Longrightarrow> window m ! i = buf m ! (start m + i)"
  by (auto simp: window_def mbuf_wf_def)

lemma u32_at_window:
  assumes "mbuf_wf m" and "i + 3 < available m"
  shows "u32_at (window m) i = u32_at (buf m) (start m + i)"
  using assms by (simp add: u32_at_def window_nth add.assoc)

lemma wire_size_append:
  assumes "5 \<le> length s"
  shows "wire_size (s @ t) = wire_size s"
proof -
  from assms have "(s @ t) ! 0 = s ! 0" "u32_at (s @ t) 0 = u32_at s 0" "u32_at (s @ t) 1 = u32_at s 1"
    by (simp_all only: nth_append u32_at_append) auto
  then show ?thesis by (simp only: wire_size_def)
qed

lemma unat_u32_plus_1: "unat (u32_at b i + 1) = unat (u32_at b i) + 1"
proof -
  have "unat (u32_at b i) < 2 ^ 24" unfolding u32_at_def by (rule unat_u32_of_bound)
  then show ?thesis by (simp add: unat_word_ariths)
qed

lemma msize_wire:
  assumes "mbuf_wf m" and "5 \<le> available m"
  shows "unat (msize m) = wire_size (unread m w)"
proof -
  have "wire_size (unread m w) = wire_size (window m)"
    using assms by (simp add: unread_def wire_size_append length_window)
  also have "\<dots> = unat (msize m)"
    using assms
    by (simp add: wire_size_def msize_def u32_at_window window_nth unat_u32_plus_1)
  finally show ?thesis by simp
qed

lemma msize_small: "unat (msize m) < 2 ^ 31"
proof -
  have "unat (u32_at b i) < 2 ^ 24" for b i unfolding u32_at_def by (rule unat_u32_of_bound)
  from this [of "buf m" "start m"] this [of "buf m" "start m + 1"] show ?thesis
    by (auto simp: msize_def unat_u32_plus_1)
qed

section \<open>Steps on the stream\<close>

text \<open>
  \<open>moved out bs m w m' w'\<close>: between the two states the octets \<open>bs\<close> were written to the
  output, only the input of \<open>infd\<close> was read, and everything else is as before.
\<close>

definition writable :: "int \<Rightarrow> world \<Rightarrow> bool" where
  "writable fd w \<longleftrightarrow> list_all (\<lambda>e. case e of Accept k \<Rightarrow> 0 < k | WrErr \<Rightarrow> False) (wrq w fd)"

definition same_mbuf :: "mbuf \<Rightarrow> mbuf \<Rightarrow> bool" where
  "same_mbuf m m' \<longleftrightarrow> infd m' = infd m \<and> outfd m' = outfd m \<and> cache m' = cache m \<and>
                     start m' = start m \<and> len m' = len m"

definition same_world :: "int \<Rightarrow> int \<Rightarrow> world \<Rightarrow> world \<Rightarrow> bool" where
  "same_world i out w w' \<longleftrightarrow> files w' = files w \<and> tmpq w' = tmpq w \<and> closed w' = closed w \<and>
     (\<forall>fd. fd \<noteq> i \<longrightarrow> rdq w' fd = rdq w fd) \<and> (\<forall>fd. fd \<noteq> out \<longrightarrow> wrq w' fd = wrq w fd)"

definition moved :: "bytes \<Rightarrow> mbuf \<Rightarrow> world \<Rightarrow> mbuf \<Rightarrow> world \<Rightarrow> bool" where
  "moved bs m w m' w' \<longleftrightarrow> mbuf_wf m' \<and> same_mbuf m m' \<and> same_world (infd m) (outfd m) w w' \<and>
     sent w' = (sent w)(outfd m := sent w (outfd m) @ bs) \<and> writable (outfd m) w'"

lemma moved_trans:
  "moved a m w m1 w1 \<Longrightarrow> moved b m1 w1 m2 w2 \<Longrightarrow> moved (a @ b) m w m2 w2"
  by (auto simp: moved_def same_mbuf_def same_world_def)

definition wrote :: "int \<Rightarrow> bytes \<Rightarrow> world \<Rightarrow> world \<Rightarrow> bool" where
  "wrote fd b w w1 \<longleftrightarrow> writable fd w1 \<and> sent w1 = (sent w)(fd := sent w fd @ b) \<and>
     rdq w1 = rdq w \<and> files w1 = files w \<and> tmpq w1 = tmpq w \<and> closed w1 = closed w \<and>
     (\<forall>x. x \<noteq> fd \<longrightarrow> wrq w1 x = wrq w x)"

lemma wrote_trans: "wrote fd a w w1 \<Longrightarrow> wrote fd b w1 w2 \<Longrightarrow> wrote fd (a @ b) w w2"
  by (auto simp: wrote_def)

lemma write_writable:
  assumes "writable fd w" and "files w fd = None" and "b \<noteq> []"
  obtains n w1 where "sys_write fd b w = (int n, w1)" and "0 < n" and "wrote fd (take n b) w w1"
proof (cases "wrq w fd")
  case Nil
  then have "sys_write fd b w = (int (length b), put fd b w)" "wrote fd b w (put fd b w)"
    using assms by (simp_all add: io_simps wrote_def writable_def)
  then show thesis using that [of "length b"] assms(3) by simp
next
  case (Cons e q)
  with assms(1) obtain k where k: "e = Accept k" "0 < k"
    by (cases e) (auto simp: writable_def)
  let ?n = "min k (length b)" and ?w = "w\<lparr>wrq := (wrq w)(fd := q)\<rparr>"
  have "wrote fd (take ?n b) w (put fd (take ?n b) ?w)"
    using assms Cons by (simp add: io_simps wrote_def writable_def)
  then show thesis using that [of ?n] k assms(3) by (simp add: sys_write_def Cons k Let_def)
qed

lemma write_all_writable:
  "writable fd w \<Longrightarrow> files w fd = None \<Longrightarrow> \<exists>w1. write_all fd b w = (True, w1) \<and> wrote fd b w w1"
proof (induction fd b w rule: write_all.induct)
  case (1 fd b w)
  show ?case
  proof (cases "b = []")
    case True
    then show ?thesis using "1.prems"
      by (simp add: write_all.simps [of fd "[]"] wrote_def fun_upd_idem)
  next
    case False
    from write_writable [OF "1.prems" False] obtain n w1
      where wr: "sys_write fd b w = (int n, w1)" "0 < n" and *: "wrote fd (take n b) w w1" .
    then have "writable fd w1" "files w1 fd = None" using "1.prems"(2) by (simp_all add: wrote_def)
    with "1.IH" [OF False wr(1) [symmetric]] wr(2) obtain w2
      where "write_all fd (drop n b) w1 = (True, w2)" "wrote fd (drop n b) w1 w2" by auto
    with wrote_trans [OF *] False wr show ?thesis
      by (force simp: write_all.simps [of fd b w])
  qed
qed

lemma input_frame:
  "rdq w' fd = rdq w fd \<Longrightarrow> input fd w' = input fd w"
  by (simp add: input_def)

text \<open>Dropping the window and reading again consumes exactly the window.\<close>

lemma refill_unread:
  assumes wf: "mbuf_wf m" and sock: "files w (infd m) = None" and room: "start m < len m"
    and more: "input (infd m) w \<noteq> []" and wr: "writable (outfd m) w"
  obtains n bs w1 where "sys_read (infd m) (room (drop_window m)) w = (n, bs, w1)" and "0 < n"
    and "moved [] m w (take_in bs (drop_window m)) w1"
    and "unread (take_in bs (drop_window m)) w1 = input (infd m) w"
proof -
  have "0 < room (drop_window m)" using room by (simp add: room_def drop_window_def)
  then obtain n bs w1 where rd: "sys_read (infd m) (room (drop_window m)) w = (n, bs, w1)" "0 < n"
    using sys_read_available [OF sock _ more] by blast
  note r = sys_read_socket [OF rd(1) sock rd(2)] and f = refill [OF wf rd(1)]
  have fds: "infd (take_in bs (drop_window m)) = infd m"
    by (simp add: take_in_def drop_window_def)
  have "moved [] m w (take_in bs (drop_window m)) w1"
    using r(5) f(1) wr
    by (auto simp: moved_def same_mbuf_def same_world_def take_in_def drop_window_def writable_def)
  moreover have "unread (take_in bs (drop_window m)) w1 = input (infd m) w"
    using r(4) f(2) by (simp add: unread_def fds)
  ultimately show thesis using rd that by blast
qed

section \<open>Receive\<close>

lemma recv_ready: "5 \<le> available m \<Longrightarrow> pgr_mbuf_recv m w = (int (available m), m, w)"
  by (simp add: pgr_mbuf_recv.simps [of m w])

lemma recv_stream:
  assumes "mbuf_wf m" and "files w (infd m) = None" and "start m + 5 \<le> len m"
    and "5 \<le> length (unread m w)" and "writable (outfd m) w"
  shows "\<exists>m' w'. pgr_mbuf_recv m w = (int (available m'), m', w') \<and> 5 \<le> available m' \<and>
           moved [] m w m' w' \<and> unread m' w' = unread m w \<and>
           take (start m) (buf m') = take (start m) (buf m) \<and> wrq w' = wrq w"
  using assms
proof (induction m w rule: pgr_mbuf_recv.induct)
  case (1 m w)
  show ?case
  proof (cases "available m < 5")
    case False
    then show ?thesis using "1.prems"
      by (intro exI [of _ m] exI [of _ w])
         (simp add: recv_ready moved_def same_mbuf_def same_world_def fun_upd_idem)
  next
    case True
    have "input (infd m) w \<noteq> []"
      using "1.prems"(1,4) True by (auto simp: unread_def length_window)
    moreover have "0 < len m - fill m"
      using "1.prems"(1,3) True by (auto simp: mbuf_wf_def available_def)
    ultimately obtain n bs w1 where rd: "sys_read (infd m) (len m - fill m) w = (n, bs, w1)" "0 < n"
      using sys_read_available [OF "1.prems"(2)] by blast
    note r = sys_read_socket [OF rd(1) "1.prems"(2) rd(2)]
    have le: "length bs \<le> room m" using r(2) by (simp add: room_def)
    let ?m = "take_in bs m"
    have m1: "infd ?m = infd m" "outfd ?m = outfd m" "start ?m = start m" "len ?m = len m"
      "cache ?m = cache m" by (simp_all add: take_in_def)
    have u: "unread ?m w1 = unread m w"
      using window_take_in [OF "1.prems"(1) le] r(4) by (simp add: unread_def m1)
    have mv: "moved [] m w ?m w1"
      using r(5) wf_take_in [OF "1.prems"(1) le] "1.prems"(5)
      by (auto simp: moved_def same_mbuf_def same_world_def m1 writable_def)
    have t: "take (start m) (buf ?m) = take (start m) (buf m)"
      using "1.prems"(1) by (simp add: take_in_def blit_def mbuf_wf_def)
    from "1.IH" [OF True rd(1) [symmetric] refl] rd(2) "1.prems" mv u r(5)
    obtain m' w' where ih: "pgr_mbuf_recv ?m w1 = (int (available m'), m', w')" "5 \<le> available m'"
      "moved [] ?m w1 m' w'" "unread m' w' = unread ?m w1"
      "take (start m) (buf m') = take (start m) (buf ?m)" "wrq w' = wrq w1"
      by (auto simp: m1 moved_def same_world_def)
    have "moved [] m w m' w'" using moved_trans [OF mv ih(3)] by simp
    moreover have "wrq w1 = wrq w" using r(5) by auto
    ultimately show ?thesis using ih True rd u t
      by (intro exI [of _ m'] exI [of _ w']) (simp add: pgr_mbuf_recv.simps [of m w])
  qed
qed

text \<open>With no room left behind the buffered octets the read has size zero and returns 0.\<close>

lemma recv_no_room:
  assumes "available m < 5" and "fill m = len m" and "files w (infd m) = None"
  shows "pgr_mbuf_recv m w = (0, m, w)"
  using assms by (simp add: pgr_mbuf_recv.simps [of m w] sys_read_def)

section \<open>Relay\<close>

lemma relay_loop_stream:
  assumes "mbuf_wf m" and "files w (infd m) = None" and "files w (outfd m) = None"
    and "start m < len m" and "writable (outfd m) w" and "l \<le> length (unread m w)"
  shows "\<exists>m' w'. relay_loop l True m w = (0, m', w') \<and> moved (take l (unread m w)) m w m' w' \<and>
           unread m' w' = drop l (unread m w)"
  using assms
proof (induction l "True" m w rule: relay_loop.induct)
  case (1 l m w)
  note lw = length_window [OF "1.prems"(1)]
  show ?case
  proof (cases "available m < l")
    case True
    obtain w1 where wr: "write_all (outfd m) (window m) w = (True, w1)"
      and w1: "wrote (outfd m) (window m) w w1"
      using write_all_writable [OF "1.prems"(5,3)] by blast
    then have ok: "writable (outfd m) w1" by (simp add: wrote_def)
    have in1: "input (infd m) w1 = input (infd m) w" by (simp add: input_def w1 [unfolded wrote_def])
    have "input (infd m) w1 \<noteq> []"
      using True "1.prems"(6) lw by (auto simp: unread_def in1)
    have "files w1 (infd m) = None" using "1.prems"(2) by (simp add: w1 [unfolded wrote_def])
    from refill_unread [OF "1.prems"(1) this "1.prems"(4) \<open>input (infd m) w1 \<noteq> []\<close> ok]
    obtain n bs w2 where rd: "sys_read (infd m) (room (drop_window m)) w1 = (n, bs, w2)" "0 < n"
      and mv: "moved [] m w1 (take_in bs (drop_window m)) w2"
      and "unread (take_in bs (drop_window m)) w2 = input (infd m) w1" .
    then have u: "unread (take_in bs (drop_window m)) w2 = input (infd m) w" by (simp only: in1)
    let ?m = "take_in bs (drop_window m)"
    have mv1: "moved (window m) m w m w1"
      using "1.prems"(1) ok w1 by (auto simp: wrote_def moved_def same_mbuf_def same_world_def)
    note mv2 = moved_trans [OF mv1 mv]
    have pre: "mbuf_wf ?m" "files w2 (infd ?m) = None" "files w2 (outfd ?m) = None"
      "start ?m < len ?m" "writable (outfd ?m) w2"
      using mv2 "1.prems"(2-4) by (auto simp: moved_def same_mbuf_def same_world_def)
    have "l - available m \<le> length (unread ?m w2)"
      unfolding u using True "1.prems"(6) lw by (simp add: unread_def)
    from "1.hyps" [OF True _ rd(1) [symmetric] refl _ pre this] wr rd(2)
    obtain m' w' where ih: "relay_loop (l - available m) True ?m w2 = (0, m', w')"
      "moved (take (l - available m) (unread ?m w2)) ?m w2 m' w'"
      "unread m' w' = drop (l - available m) (unread ?m w2)" by auto
    from moved_trans [OF mv2 ih(2)] ih True wr rd lw show ?thesis
      by (intro exI [of _ m'] exI [of _ w'])
         (simp add: relay_loop.simps [of l True m w] u, simp add: unread_def)
  next
    case le: False
    show ?thesis
    proof (cases "0 < l")
      case False
      then show ?thesis using "1.prems"
        by (intro exI [of _ m] exI [of _ w])
           (simp add: relay_loop.simps [of 0 True m w] moved_def same_mbuf_def same_world_def fun_upd_idem)
    next
      case True
      obtain w1 where wr: "write_all (outfd m) (take l (window m)) w = (True, w1)"
        and w1: "wrote (outfd m) (take l (window m)) w w1"
        using write_all_writable [OF "1.prems"(5,3)] by blast
      have c: "infd (cut_front l m) = infd m" "outfd (cut_front l m) = outfd m"
        "cache (cut_front l m) = cache m" "start (cut_front l m) = start m" "len (cut_front l m) = len m"
        by (simp_all add: cut_front_def)
      have "moved (take l (unread m w)) m w (cut_front l m) w1"
        using wf_cut_front [OF "1.prems"(1)] le lw w1
        by (auto simp: wrote_def moved_def same_mbuf_def same_world_def c unread_def)
      moreover have "unread (cut_front l m) w1 = drop l (unread m w)"
        using le lw "1.prems"(1) by (simp add: unread_def c window_cut input_def w1 [unfolded wrote_def])
      ultimately show ?thesis using le True wr
        by (intro exI [of _ "cut_front l m"] exI [of _ w1]) (simp add: relay_loop.simps [of l True m w])
    qed
  qed
qed


text \<open>
  \<^verbatim>\<open>pgr_mbuf_relay\<close> copies exactly the first message to the output and leaves the rest.
\<close>

lemma relay_stream:
  assumes "mbuf_wf m" and "5 \<le> available m" and "files w (infd m) = None"
    and "files w (outfd m) = None" and "writable (outfd m) w" and "complete (unread m w)"
  shows "\<exists>m' w'. pgr_mbuf_relay m w = (0, m', w') \<and> moved (first_msg (unread m w)) m w m' w' \<and>
           unread m' w' = after_msg (unread m w)"
proof -
  have "start m < len m" using assms(1,2) by (auto simp: mbuf_wf_def available_def)
  then show ?thesis
    using relay_loop_stream [OF assms(1,3,4) _ assms(5)] assms(2,6)
    by (simp add: pgr_mbuf_relay_def msize_wire [OF assms(1,2), of w] complete_def)
qed

section \<open>Discard\<close>

lemma discard_loop_stream:
  assumes "mbuf_wf m" and "files w (infd m) = None"
    and "start m < len m" and "writable (outfd m) w" and "l \<le> length (unread m w)"
  shows "\<exists>m' w'. discard_loop l m w = (0, m', w') \<and> moved [] m w m' w' \<and>
           unread m' w' = drop l (unread m w)"
  using assms
proof (induction l m w rule: discard_loop.induct)
  case (1 l m w)
  note lw = length_window [OF "1.prems"(1)]
  show ?case
  proof (cases "available m < l")
    case True
    have "input (infd m) w \<noteq> []"
      using True "1.prems"(5) lw by (auto simp: unread_def)
    from refill_unread [OF "1.prems"(1-3) this "1.prems"(4)]
    obtain n bs w1 where rd: "sys_read (infd m) (room (drop_window m)) w = (n, bs, w1)" "0 < n"
      and mv: "moved [] m w (take_in bs (drop_window m)) w1"
      and u: "unread (take_in bs (drop_window m)) w1 = input (infd m) w" .
    let ?m = "take_in bs (drop_window m)"
    have pre: "mbuf_wf ?m" "files w1 (infd ?m) = None" "start ?m < len ?m" "writable (outfd ?m) w1"
      using mv "1.prems"(2,3) by (auto simp: moved_def same_mbuf_def same_world_def)
    have "l - available m \<le> length (unread ?m w1)"
      unfolding u using True "1.prems"(5) lw by (simp add: unread_def)
    from "1.IH" [OF True rd(1) [symmetric] refl _ pre this] rd(2)
    obtain m' w' where ih: "discard_loop (l - available m) ?m w1 = (0, m', w')"
      "moved [] ?m w1 m' w'" "unread m' w' = drop (l - available m) (unread ?m w1)" by auto
    from moved_trans [OF mv ih(2)] ih True rd lw show ?thesis
      by (intro exI [of _ m'] exI [of _ w'])
         (simp add: discard_loop.simps [of l m w] u, simp add: unread_def)
  next
    case le: False
    have c: "infd (cut_front l m) = infd m" "outfd (cut_front l m) = outfd m"
      "cache (cut_front l m) = cache m" "start (cut_front l m) = start m" "len (cut_front l m) = len m"
      by (simp_all add: cut_front_def)
    have "l = 0 \<or> unread (cut_front l m) w = drop l (unread m w)"
      using le lw "1.prems"(1) by (simp add: unread_def c window_cut)
    then show ?thesis using "1.prems" le wf_cut_front [OF "1.prems"(1), of l] fun_upd_idem
      by (cases "l = 0")
         (auto simp: discard_loop.simps [of l m w] discard_loop.simps [of 0 m w] moved_def
             same_mbuf_def same_world_def c)
  qed
qed

lemma discard_stream:
  assumes "mbuf_wf m" and "5 \<le> available m" and "files w (infd m) = None"
    and "writable (outfd m) w" and "complete (unread m w)"
  shows "\<exists>m' w'. pgr_mbuf_discard m w = (0, m', w') \<and> moved [] m w m' w' \<and>
           unread m' w' = after_msg (unread m w)"
proof -
  have "start m < len m" using assms(1,2) by (auto simp: mbuf_wf_def available_def)
  then show ?thesis
    using discard_loop_stream [OF assms(1,3) _ assms(4)] assms(2,5)
    by (simp add: pgr_mbuf_discard_def msize_wire [OF assms(1,2), of w] complete_def)
qed

text \<open>Appending to the buffer appends to the window, when the octets fit.\<close>

lemma cat_window:
  assumes "mbuf_wf m" and "pgr_mbuf_cat m bs = (0, m')"
  shows "window m' = window m @ bs" and "length bs \<le> len m - fill m"
  using assms window_take_in [of m bs]
  by (auto simp: pgr_mbuf_cat_def room_def take_in_def split: if_splits)

lemma cat_result:
  "pgr_mbuf_cat m bs = (if length bs \<le> len m - fill m then (0, take_in bs m) else (1, m))"
  by (simp add: pgr_mbuf_cat_def take_in_def)

end
