(* ===== verification/Msg_Replay.thy ===== *)
theory Msg_Replay
  imports Msg_Stream
begin

text \<open>
  \<^verbatim>\<open>pgr_mbuf_send\<close> and \<^verbatim>\<open>pgr_mbuf_resend\<close>: every octet that was sent is kept, in the sent
  prefix of the buffer or in the overflow file, so that a resend writes all of it again. The
  contract is stated as the locale \<open>replay_log\<close> and proved for the code's model under the
  hypothesis that the output accepts whole writes; \<open>writen_short_write\<close> shows what happens
  otherwise.
\<close>

section \<open>Whole and partial writes\<close>

lemma writen_whole:
  assumes "wrq w fd = []" and "0 < l" and "l \<le> length b"
  shows "writen n fd b l w = (int l, put fd (take l b) w)"
  using assms by (simp add: writen.simps [of n fd b l] writen.simps [of _ fd b 0] io_simps)

text \<open>The uninitialised result variable of \<^verbatim>\<open>writen\<close> is never read when something is written.\<close>

lemma writen_indeterminate: "0 < l \<Longrightarrow> writen n fd b l w = writen n' fd b l w"
  by (simp add: writen.simps [of _ fd b l])

text \<open>After a partial write the beginning of the data goes out a second time.\<close>

lemma writen_short:
  assumes "wrq w fd = [Accept k]" and "files w fd = None" and "0 < k" and "k < l" and "l \<le> length b"
  shows "sent (snd (writen n fd b l w)) fd = sent w fd @ take k b @ take (l - k) b"
  using assms
  by (simp add: writen.simps [of n fd b l] sys_write_def Let_def min_def writen_whole
      put_fields io_simps)

section \<open>The log of sent octets\<close>

definition history :: "mbuf \<Rightarrow> world \<Rightarrow> bytes" where
  "history m w =
     (if 0 \<le> cache m then (case files w (cache m) of Some (c, _) \<Rightarrow> c | None \<Rightarrow> []) else [])
     @ take (start m) (buf m)"

text \<open>
  The states in which the contract holds: the two descriptors are sockets that accept whole
  writes, and the overflow file is either open with its offset at the end, or \<^verbatim>\<open>tmpfile\<close> will
  return a new descriptor.
\<close>

definition overflow_ok :: "mbuf \<Rightarrow> world \<Rightarrow> bool" where
  "overflow_ok m w \<longleftrightarrow>
     (if 0 \<le> cache m
      then (\<exists>c. files w (cache m) = Some (c, length c)) \<and> start m = 0 \<and> wrq w (cache m) = []
      else (\<exists>fd q. tmpq w = fd # q \<and> 0 \<le> fd \<and> fd \<noteq> infd m \<and> fd \<noteq> outfd m \<and> wrq w fd = []))"

definition sendable :: "mbuf \<Rightarrow> world \<Rightarrow> bool" where
  "sendable m w \<longleftrightarrow> mbuf_wf m \<and> 0 < len m \<and> files w (infd m) = None \<and> files w (outfd m) = None \<and>
     wrq w (outfd m) = [] \<and> overflow_ok m w"

definition sent_on :: "bytes \<Rightarrow> mbuf \<Rightarrow> world \<Rightarrow> mbuf \<Rightarrow> world \<Rightarrow> bool" where
  "sent_on bs m w m' w' \<longleftrightarrow> sendable m' w' \<and> infd m' = infd m \<and> outfd m' = outfd m \<and>
     len m' = len m \<and> sent w' = (sent w)(outfd m := sent w (outfd m) @ bs) \<and>
     history m' w' = history m w @ bs \<and> wrq w' = wrq w \<and> closed w' = closed w \<and>
     (\<forall>fd. fd \<noteq> infd m \<longrightarrow> rdq w' fd = rdq w fd) \<and> set (tmpq w') \<subseteq> set (tmpq w) \<and>
     (\<forall>fd. fd \<notin> set (tmpq w) \<longrightarrow> files w fd = None \<longrightarrow> files w' fd = None)"

lemma sent_on_trans: "sent_on a m w m1 w1 \<Longrightarrow> sent_on b m1 w1 m2 w2 \<Longrightarrow> sent_on (a @ b) m w m2 w2"
  by (auto simp: sent_on_def)

lemma sent_on_refl: "sendable m w \<Longrightarrow> sent_on [] m w m w"
  by (simp add: sent_on_def fun_upd_idem)

lemma take_len_window: "mbuf_wf m \<Longrightarrow> l \<le> available m \<Longrightarrow> take l (drop (start m) (buf m)) = take l (window m)"
  by (simp add: window_def min_def)

lemma warm_cache_log:
  assumes "sendable m w"
  shows "\<exists>m1 w1. warm_cache m w = Inr (m1, w1) \<and> 0 \<le> cache m1 \<and> sent_on [] m w m1 w1 \<and>
           window m1 = window m \<and> unread m1 w1 = unread m w"
proof (cases "0 \<le> cache m")
  case True
  then show ?thesis using sent_on_refl [OF assms] by (simp add: warm_cache_def)
next
  case False
  with assms obtain fd q where t: "tmpq w = fd # q" "0 \<le> fd" "fd \<noteq> infd m" "fd \<noteq> outfd m" "wrq w fd = []"
    by (auto simp: sendable_def overflow_ok_def)
  let ?w1 = "w\<lparr>tmpq := q, files := (files w)(fd := Some ([], 0))\<rparr>"
  let ?m1 = "m\<lparr>cache := fd, buf := memmove 0 (start m) (fill m - start m) (buf m),
               fill := fill m - start m, start := 0\<rparr>"
  let ?w2 = "?w1\<lparr>files := (files w)(fd := Some (take (start m) (buf m), start m))\<rparr>"
  have wf: "start m \<le> fill m" "fill m \<le> len m" "length (buf m) = len m"
    using assms by (auto simp: sendable_def mbuf_wf_def)
  show ?thesis
  proof (cases "0 < start m")
    case False
    with \<open>\<not> 0 \<le> cache m\<close> t assms show ?thesis
      by (intro exI [of _ "m\<lparr>cache := fd\<rparr>"] exI [of _ ?w1])
         (auto simp: warm_cache_def sys_tmpfile_def Let_def sent_on_def sendable_def overflow_ok_def
             history_def mbuf_wf_def window_def available_def unread_def input_def fun_upd_idem)
  next
    case True
    have "writen 0 fd (buf m) (start m) ?w1 = (int (start m), ?w2)"
      using True t wf by (subst writen_whole) (simp_all add: put_def)
    then have eq: "warm_cache m w = Inr (?m1, ?w2)"
      using True \<open>\<not> 0 \<le> cache m\<close> t by (simp add: warm_cache_def sys_tmpfile_def Let_def)
    have win: "window ?m1 = window m"
      using wf by (simp add: window_def available_def memmove_def blit_def min_def)
    have "mbuf_wf ?m1" using wf by (simp add: mbuf_wf_def)
    then have "sent_on [] m w ?m1 ?w2"
      using t assms wf \<open>\<not> 0 \<le> cache m\<close>
      by (simp add: sent_on_def sendable_def overflow_ok_def history_def fun_upd_idem subset_insertI)
    with eq win t show ?thesis
      by (intro exI [of _ ?m1] exI [of _ ?w2]) (simp add: unread_def input_def)
  qed
qed

text \<open>Writing the same octets to the output and to the open overflow file.\<close>

lemma write_both:
  assumes ok: "sendable m w" and c: "0 \<le> cache m" and l: "0 < l" "l \<le> available m"
  obtains w1 w2 where "writen 0 (outfd m) (drop (start m) (buf m)) l w = (int l, w1)"
    and "writen 0 (cache m) (drop (start m) (buf m)) l w1 = (int l, w2)"
    and "sent_on (take l (window m)) m w m w2" and "rdq w2 = rdq w"
proof -
  from ok c obtain cc where f: "files w (cache m) = Some (cc, length cc)" "start m = 0" "wrq w (cache m) = []"
    "mbuf_wf m" "0 < len m" "files w (infd m) = None" "files w (outfd m) = None" "wrq w (outfd m) = []"
    by (auto simp: sendable_def overflow_ok_def)
  then have ne: "cache m \<noteq> outfd m" "cache m \<noteq> infd m" by auto
  let ?b = "take l (window m)"
  have b: "take l (drop (start m) (buf m)) = ?b" "l \<le> length (drop (start m) (buf m))"
    using l f(4) by (simp_all add: take_len_window) (auto simp: mbuf_wf_def available_def)
  let ?w1 = "w\<lparr>sent := (sent w)(outfd m := sent w (outfd m) @ ?b)\<rparr>"
  let ?w2 = "?w1\<lparr>files := (files w)(cache m := Some (cc @ ?b, length (cc @ ?b)))\<rparr>"
  have "writen 0 (outfd m) (drop (start m) (buf m)) l w = (int l, ?w1)"
    using f b l by (simp add: writen_whole io_simps)
  moreover have "writen 0 (cache m) (drop (start m) (buf m)) l ?w1 = (int l, ?w2)"
    using f b l by (simp add: writen_whole put_def)
  moreover have "sent_on ?b m w m ?w2"
    using f c ne by (simp add: sent_on_def sendable_def overflow_ok_def history_def)
  ultimately show thesis using that by simp
qed

lemma send_loop_log:
  assumes "sendable m w" and "0 < available m" and "0 < l" and "l \<le> length (unread m w)"
  shows "\<exists>m' w'. send_loop l ok m w = (0, m', w') \<and> sent_on (take l (unread m w)) m w m' w' \<and>
           unread m' w' = drop l (unread m w)"
  using assms
proof (induction l ok m w rule: send_loop.induct)
  case (1 l ok m w)
  have wf: "mbuf_wf m" using "1.prems"(1) by (simp add: sendable_def)
  note lw = length_window [OF wf]
  show ?case
  proof (cases "available m < l")
    case True
    obtain m1 w1 where warm: "warm_cache m w = Inr (m1, w1)" and c: "0 \<le> cache m1"
      and s1: "sent_on [] m w m1 w1" and u1: "window m1 = window m" "unread m1 w1 = unread m w"
      using warm_cache_log [OF "1.prems"(1)] by blast
    have ok1: "sendable m1 w1" and wf1: "mbuf_wf m1" using s1 by (auto simp: sent_on_def sendable_def)
    have av: "available m1 = available m" using warm by (rule warm_cache_available)
    obtain w2 w3 where wr: "writen 0 (outfd m1) (drop (start m1) (buf m1)) (available m1) w1 = (int (available m1), w2)"
      "writen 0 (cache m1) (drop (start m1) (buf m1)) (available m1) w2 = (int (available m1), w3)"
      and "sent_on (take (available m1) (window m1)) m1 w1 m1 w3" and rq: "rdq w3 = rdq w1"
      using write_both [OF ok1 c _ order_refl] "1.prems"(2) av by metis
    then have s2: "sent_on (window m1) m1 w1 m1 w3" by (simp add: length_window [OF wf1])
    have ok3: "sendable m1 w3" using s2 by (simp add: sent_on_def)
    have in3: "input (infd m1) w3 = input (infd m) w"
      using u1 rq s1 by (simp add: unread_def input_def sent_on_def)
    have "input (infd m1) w3 \<noteq> []" using True "1.prems"(4) lw by (auto simp: in3 unread_def)
    moreover have "start m1 < len m1" "files w3 (infd m1) = None" "writable (outfd m1) w3"
      using ok3 c by (auto simp: sendable_def overflow_ok_def writable_def)
    ultimately obtain n bs w4 where rd: "sys_read (infd m1) (room (drop_window m1)) w3 = (n, bs, w4)" "0 < n"
      and mv: "moved [] m1 w3 (take_in bs (drop_window m1)) w4"
      and "unread (take_in bs (drop_window m1)) w4 = input (infd m1) w3"
      using refill_unread [OF wf1] by metis
    then have u: "unread (take_in bs (drop_window m1)) w4 = input (infd m) w" by (simp only: in3)
    let ?m = "take_in bs (drop_window m1)"
    have "length bs = nat n" using sys_read_length [OF rd] by simp
    then have av': "0 < available ?m" using rd(2) by (simp add: available_refill)
    have w4: "wrq w4 = wrq w3" "\<And>fd. fd \<noteq> infd m1 \<Longrightarrow> rdq w4 fd = rdq w3 fd"
      using mv sys_read_socket(5) [OF rd(1) \<open>files w3 (infd m1) = None\<close> rd(2)]
      by (auto simp: moved_def same_world_def)
    have s3: "sent_on [] m1 w3 ?m w4"
      using mv ok3 w4 c
      by (auto simp: sent_on_def sendable_def overflow_ok_def moved_def same_mbuf_def same_world_def history_def)
    from sent_on_trans [OF sent_on_trans [OF s1 s2] s3] u1(1)
    have s: "sent_on (window m) m w ?m w4" by simp
    have pre: "sendable ?m w4" using s3 by (simp add: sent_on_def)
    have "0 < l - available m1" "l - available m1 \<le> length (unread ?m w4)"
      unfolding u using True "1.prems"(4) lw av by (simp_all add: unread_def)
    from "1.IH" [OF True warm refl wr(1) [symmetric] wr(2) [symmetric] _ rd(1) [symmetric] refl _ pre av' this]
      "1.prems"(2) av rd(2)
    obtain m' w' where ih: "send_loop (l - available m1) (0 < available m1) ?m w4 = (0, m', w')"
      "sent_on (take (l - available m1) (unread ?m w4)) ?m w4 m' w'"
      "unread m' w' = drop (l - available m1) (unread ?m w4)" by auto
    have "send_loop l ok m w = (0, m', w')"
      using True warm wr rd ih(1) "1.prems"(2) av by (simp add: send_loop.simps [of l ok m w])
    with sent_on_trans [OF s ih(2)] ih(3) True lw av show ?thesis
      by (intro exI [of _ m'] exI [of _ w']) (simp add: u, simp add: unread_def)
  next
    case le: False
    have tk: "take l (unread m w) = take l (window m)" using le lw by (simp add: unread_def)
    show ?thesis
    proof (cases "0 \<le> cache m")
      case True
      have "l \<le> available m" using le by simp
      from write_both [OF "1.prems"(1) True "1.prems"(3) this] obtain w1 w2
        where wr: "writen 0 (outfd m) (drop (start m) (buf m)) l w = (int l, w1)"
        "writen 0 (cache m) (drop (start m) (buf m)) l w1 = (int l, w2)"
        and s: "sent_on (take l (window m)) m w m w2" and rq: "rdq w2 = rdq w" .
      have st: "start m = 0" using "1.prems"(1) True by (simp add: sendable_def overflow_ok_def)
      have c: "infd (cut_front l m) = infd m" "outfd (cut_front l m) = outfd m"
        "cache (cut_front l m) = cache m" "start (cut_front l m) = start m" "len (cut_front l m) = len m"
        by (simp_all add: cut_front_def)
      have "sent_on [] m w2 (cut_front l m) w2"
        using s wf_cut_front [OF wf] le st True
        by (auto simp: sent_on_def sendable_def overflow_ok_def history_def c fun_upd_idem)
      from sent_on_trans [OF s this] have "sent_on (take l (window m)) m w (cut_front l m) w2" by simp
      moreover have "unread (cut_front l m) w2 = drop l (unread m w)"
        using le lw wf rq by (simp add: unread_def c window_cut input_def)
      moreover have "send_loop l ok m w = (0, cut_front l m, w2)"
        using le wr True "1.prems"(3) by (simp add: send_loop.simps [of l ok m w])
      ultimately show ?thesis by (simp add: tk)
    next
      case False
      let ?m = "m\<lparr>start := start m + l\<rparr>" and ?b = "take l (window m)"
      let ?w = "w\<lparr>sent := (sent w)(outfd m := sent w (outfd m) @ ?b)\<rparr>"
      have b: "take l (drop (start m) (buf m)) = ?b" "l \<le> length (drop (start m) (buf m))"
        using le wf by (simp_all add: take_len_window) (auto simp: mbuf_wf_def available_def)
      have "writen 0 (outfd m) (drop (start m) (buf m)) l w = (int l, ?w)"
        using b "1.prems" by (simp add: writen_whole sendable_def io_simps)
      then have "send_loop l ok m w = (0, ?m, ?w)"
        using le False "1.prems"(3) by (simp add: send_loop.simps [of l ok m w])
      moreover have "sent_on ?b m w ?m ?w"
        using "1.prems"(1) le False b(1)
        by (auto simp: sent_on_def sendable_def overflow_ok_def history_def mbuf_wf_def available_def
            take_add)
      moreover have "unread ?m ?w = drop l (unread m w)"
        using le lw by (simp add: unread_def window_def available_def input_def drop_take add.commute)
      ultimately show ?thesis by (simp add: tk)
    qed
  qed
qed

lemma send_log:
  assumes "sendable m w" and "5 \<le> available m" and "complete (unread m w)"
  shows "\<exists>m' w'. pgr_mbuf_send m w = (0, m', w') \<and> sent_on (first_msg (unread m w)) m w m' w' \<and>
           unread m' w' = after_msg (unread m w)"
proof -
  have wf: "mbuf_wf m" using assms(1) by (simp add: sendable_def)
  show ?thesis
    using send_loop_log [OF assms(1)] assms(2,3)
    by (simp add: pgr_mbuf_send_def msize_wire [OF wf assms(2), of w] complete_def)
qed


section \<open>Resend\<close>

lemma copy_cache_whole:
  assumes "files w fd = Some (c, off)" and "off \<le> length c"
    and "out \<noteq> fd" and "files w out = None" and "wrq w out = []"
    and "offset = int (length c - off)"
  shows "copy_cache fd out offset w =
      (True, w\<lparr>files := (files w)(fd := Some (c, length c)),
               sent := (sent w)(out := sent w out @ drop off c)\<rparr>)"
  using assms
proof (induction fd out offset w arbitrary: off rule: copy_cache.induct)
  case (1 fd out offset w)
  show ?case
  proof (cases "off = length c")
    case True
    with "1.prems" show ?thesis
      by (simp add: copy_cache.simps [of fd out 0] fun_upd_idem)
  next
    case False
    define bs where "bs = take 2048 (drop off c)"
    let ?w1 = "w\<lparr>files := (files w)(fd := Some (c, off + length bs))\<rparr>"
    let ?w2 = "?w1\<lparr>sent := (sent w)(out := sent w out @ bs)\<rparr>"
    have rd: "sys_read fd 2048 w = (int (length bs), bs, ?w1)"
      using "1.prems"(1) by (simp add: sys_read_def bs_def)
    have pos: "0 < offset" and len: "0 < length bs" and fits: "off + length bs \<le> length c"
      using "1.prems"(2,6) False by (simp_all add: bs_def)
    have wr: "writen 0 out bs (nat (int (length bs))) ?w1 = (int (length bs), ?w2)"
      using "1.prems"(3-5) len by (subst writen_whole) (simp_all add: io_simps)
    have "copy_cache fd out (offset - int (length bs)) ?w2 =
      (True, ?w2\<lparr>files := (files ?w2)(fd := Some (c, length c)),
                 sent := (sent ?w2)(out := sent ?w2 out @ drop (off + length bs) c)\<rparr>)"
    proof (rule "1.IH" [OF pos rd [symmetric] refl _ wr [symmetric]])
      show "\<not> int (length bs) \<le> 0" "\<not> int (length bs) \<le> 0" using len by linarith+
      show "files ?w2 fd = Some (c, off + length bs)" by simp
      show "off + length bs \<le> length c" by (rule fits)
      show "offset - int (length bs) = int (length c - (off + length bs))"
        using fits "1.prems"(6) by simp
    qed (use "1.prems"(3-5) in simp_all)
    moreover have "bs @ drop (off + length bs) c = drop off c"
      by (metis bs_def append_eq_conv_conj append_take_drop_id drop_drop add.commute)
    ultimately show ?thesis
      using pos len rd wr by (simp add: copy_cache.simps [of fd out offset w] fun_upd_def cong: if_cong)
  qed
qed

lemma resend_prefix_whole:
  assumes "until \<le> length (buf m)" and "start m \<le> until" and "files w (outfd m) = None"
    and "wrq w (outfd m) = []"
  shows "resend_prefix until m w =
      (0, m\<lparr>start := until\<rparr>, w\<lparr>sent := (sent w)(outfd m := sent w (outfd m) @
         take (until - start m) (drop (start m) (buf m)))\<rparr>)"
proof (cases "start m = until")
  case True
  then have "m\<lparr>start := until\<rparr> = m" by simp
  with True show ?thesis by (simp add: resend_prefix.simps [of until m w] fun_upd_idem)
next
  case False
  let ?b = "take (until - start m) (drop (start m) (buf m))"
  have "length ?b = until - start m" using assms(1) by simp
  then have "sys_write (outfd m) ?b w = (int (until - start m), put (outfd m) ?b w)"
    using assms(4) by (simp only: sys_write_all)
  with False assms show ?thesis
    by (simp add: resend_prefix.simps [of until m w]
        resend_prefix.simps [of until "m\<lparr>start := until\<rparr>"] io_simps del: of_nat_diff)
qed

lemma resend_exact:
  assumes "sendable m w"
  shows "pgr_mbuf_resend m w =
    (0, m, w\<lparr>sent := (sent w)(outfd m := sent w (outfd m) @ history m w)\<rparr>)"
proof -
  from assms have wf: "start m \<le> length (buf m)" and out: "files w (outfd m) = None" "wrq w (outfd m) = []"
    by (auto simp: sendable_def mbuf_wf_def)
  show ?thesis
  proof (cases "0 \<le> cache m")
    case True
    with assms obtain c where c: "files w (cache m) = Some (c, length c)" "start m = 0"
      by (auto simp: sendable_def overflow_ok_def)
    with out have ne: "outfd m \<noteq> cache m" by auto
    let ?w1 = "w\<lparr>sent := (sent w)(outfd m := sent w (outfd m) @ c)\<rparr>"
    have "copy_cache (cache m) (outfd m) (int (length c)) (sys_rewind (cache m) w) = (True, ?w1)"
      using c ne out by (subst copy_cache_whole [where off = 0 and c = c])
        (simp_all add: sys_rewind_def fun_upd_idem)
    then show ?thesis
      using True c by (simp add: pgr_mbuf_resend_def sys_tell_def resend_prefix.simps history_def)
  next
    case False
    then show ?thesis
      using wf out by (simp add: pgr_mbuf_resend_def resend_prefix_whole history_def)
  qed
qed

lemma resend_log:
  assumes "sendable m w"
  shows "\<exists>w'. pgr_mbuf_resend m w = (0, m, w') \<and> sendable m w' \<and> history m w' = history m w \<and>
           unread m w' = unread m w \<and>
           sent w' = (sent w)(outfd m := sent w (outfd m) @ history m w)"
proof -
  let ?w = "w\<lparr>sent := (sent w)(outfd m := sent w (outfd m) @ history m w)\<rparr>"
  have "sendable m ?w" using assms by (auto simp: sendable_def overflow_ok_def)
  moreover have "history m ?w = history m w" "unread m ?w = unread m w"
    by (simp_all add: history_def unread_def input_def)
  ultimately show ?thesis using resend_exact [OF assms] by simp
qed

section \<open>The contract of a replay log\<close>

text \<open>
  What the worker relies on: \<open>forward\<close> takes the next message from the input, copies it to the
  output and logs it; \<open>replay\<close> writes the log again. \<open>split\<close> is the length of the first message.
\<close>

locale replay_log =
  fixes forward :: "'s \<Rightarrow> 's" and replay :: "'s \<Rightarrow> 's"
    and pending :: "'s \<Rightarrow> bytes" and log :: "'s \<Rightarrow> bytes" and out :: "'s \<Rightarrow> bytes"
    and split :: "bytes \<Rightarrow> nat" and ready :: "bytes \<Rightarrow> bool" and ok :: "'s \<Rightarrow> bool"
  assumes forward: "ok s \<Longrightarrow> ready (pending s) \<Longrightarrow>
      ok (forward s) \<and> pending (forward s) = drop (split (pending s)) (pending s) \<and>
      log (forward s) = log s @ take (split (pending s)) (pending s) \<and>
      out (forward s) = out s @ take (split (pending s)) (pending s)"
    and replay: "ok s \<Longrightarrow> ok (replay s) \<and> pending (replay s) = pending s \<and>
      log (replay s) = log s \<and> out (replay s) = out s @ log s"
begin

text \<open>\<open>all_ready n p\<close>: the stream \<open>p\<close> starts with \<open>n\<close> complete messages; \<open>front n p\<close> are they.\<close>

fun all_ready :: "nat \<Rightarrow> bytes \<Rightarrow> bool" where
  "all_ready 0 p = True"
| "all_ready (Suc n) p = (ready p \<and> all_ready n (drop (split p) p))"

fun front :: "nat \<Rightarrow> bytes \<Rightarrow> bytes" where
  "front 0 p = []"
| "front (Suc n) p = take (split p) p @ front n (drop (split p) p)"

lemma forward_many:
  "ok s \<Longrightarrow> all_ready n (pending s) \<Longrightarrow>
   ok ((forward ^^ n) s) \<and> log ((forward ^^ n) s) = log s @ front n (pending s) \<and>
   out ((forward ^^ n) s) = out s @ front n (pending s)"
proof (induction n arbitrary: s)
  case (Suc n)
  then have f: "ok (forward s)" "all_ready n (pending (forward s))" using forward [of s] by auto
  from Suc.IH [OF this] forward [of s] Suc.prems show ?case
    by (simp add: funpow_swap1)
qed simp

lemma replay_after_forward:
  assumes "ok s" and "log s = []" and "all_ready n (pending s)"
  shows "out (replay ((forward ^^ n) s)) = out s @ front n (pending s) @ front n (pending s)"
  using forward_many [OF assms(1,3)] replay [of "(forward ^^ n) s"] assms(2) by simp

lemma replay_twice:
  assumes "ok s"
  shows "out (replay (replay s)) = out s @ log s @ log s"
  using replay [OF assms] replay [of "replay s"] by simp

end

text \<open>The code's provider: a receive followed by a send, and the resend.\<close>

definition forward_msg :: "mbuf \<times> world \<Rightarrow> mbuf \<times> world" where
  "forward_msg s = (case pgr_mbuf_recv (fst s) (snd s) of (_, m1, w1) \<Rightarrow>
                     (case pgr_mbuf_send m1 w1 of (_, m2, w2) \<Rightarrow> (m2, w2)))"

definition replay_msgs :: "mbuf \<times> world \<Rightarrow> mbuf \<times> world" where
  "replay_msgs s = snd (pgr_mbuf_resend (fst s) (snd s))"

text \<open>
  The states in which the contract is claimed: what was sent since the last reset and what is
  still to come fit in the buffer (with room for one more header), since the sent octets are
  kept in front of the unread ones.
\<close>

definition log_ok :: "int \<Rightarrow> mbuf \<times> world \<Rightarrow> bool" where
  "log_ok o' s \<longleftrightarrow> sendable (fst s) (snd s) \<and> outfd (fst s) = o' \<and>
     length (history (fst s) (snd s)) + length (unread (fst s) (snd s)) + 5 \<le> len (fst s)"

lemma start_history: "mbuf_wf m \<Longrightarrow> start m \<le> length (history m w)"
  by (auto simp: history_def mbuf_wf_def)

lemma recv_log:
  assumes "sendable m w" and "start m + 5 \<le> len m" and "5 \<le> length (unread m w)"
  shows "\<exists>r m' w'. pgr_mbuf_recv m w = (r, m', w') \<and> 0 \<le> r \<and> 5 \<le> available m' \<and>
           sent_on [] m w m' w' \<and> unread m' w' = unread m w"
proof -
  from assms(1) have *: "mbuf_wf m" "files w (infd m) = None" "writable (outfd m) w"
    by (auto simp: sendable_def writable_def)
  obtain m' w' where r: "pgr_mbuf_recv m w = (int (available m'), m', w')" "5 \<le> available m'"
    "moved [] m w m' w'" "unread m' w' = unread m w" "take (start m) (buf m') = take (start m) (buf m)"
    "wrq w' = wrq w"
    using recv_stream [OF *(1,2) assms(2,3) *(3)] by blast
  then show ?thesis using r assms(1)
    by (auto simp: sent_on_def sendable_def overflow_ok_def moved_def same_mbuf_def same_world_def history_def)
qed


lemma forward_msg_log:
  assumes "log_ok o' s" and "complete (unread (fst s) (snd s))"
  shows "log_ok o' (forward_msg s) \<and>
     unread (fst (forward_msg s)) (snd (forward_msg s)) = after_msg (unread (fst s) (snd s)) \<and>
     history (fst (forward_msg s)) (snd (forward_msg s)) =
       history (fst s) (snd s) @ first_msg (unread (fst s) (snd s)) \<and>
     sent (snd (forward_msg s)) o' = sent (snd s) o' @ first_msg (unread (fst s) (snd s))"
proof -
  obtain m w where s: "s = (m, w)" by (cases s)
  with assms have ok: "sendable m w" "outfd m = o'" and c: "complete (unread m w)"
    and room: "length (history m w) + length (unread m w) + 5 \<le> len m" by (auto simp: log_ok_def)
  have "start m + 5 \<le> len m" using start_history [of m w] ok room by (auto simp: sendable_def)
  moreover have "5 \<le> length (unread m w)" using c by (simp add: complete_def)
  ultimately obtain r m1 w1 where r: "pgr_mbuf_recv m w = (r, m1, w1)" "5 \<le> available m1"
    "sent_on [] m w m1 w1" "unread m1 w1 = unread m w" using recv_log [OF ok(1)] by blast
  then have "sendable m1 w1" by (simp add: sent_on_def)
  with r c obtain m2 w2 where f: "pgr_mbuf_send m1 w1 = (0, m2, w2)"
    "sent_on (first_msg (unread m w)) m1 w1 m2 w2" "unread m2 w2 = after_msg (unread m w)"
    using send_log by metis
  have "forward_msg s = (m2, w2)" by (simp add: forward_msg_def s r f)
  moreover have "length (first_msg (unread m w)) + length (after_msg (unread m w)) = length (unread m w)"
    using c by (simp add: complete_def)
  ultimately show ?thesis
    using sent_on_trans [OF r(3) f(2)] f(3) ok room
    by (auto simp: log_ok_def sent_on_def s)
qed

lemma replay_msgs_log:
  assumes "log_ok o' s"
  shows "log_ok o' (replay_msgs s) \<and>
     unread (fst (replay_msgs s)) (snd (replay_msgs s)) = unread (fst s) (snd s) \<and>
     history (fst (replay_msgs s)) (snd (replay_msgs s)) = history (fst s) (snd s) \<and>
     sent (snd (replay_msgs s)) o' = sent (snd s) o' @ history (fst s) (snd s)"
  using assms resend_log [of "fst s" "snd s"]
  by (auto simp: log_ok_def replay_msgs_def)

interpretation mbuf_log: replay_log forward_msg replay_msgs
  "\<lambda>s. unread (fst s) (snd s)" "\<lambda>s. history (fst s) (snd s)" "\<lambda>s. sent (snd s) o'"
  wire_size complete "log_ok o'" for o'
  by unfold_locales (use forward_msg_log replay_msgs_log in blast)+

end
