(* ===== verification/Session_Laws.thy ===== *)
theory Session_Laws
  imports Worker Msg_Replay
begin

text \<open>
  A session of the worker on well-behaved descriptors: a query goes to the reader and the whole
  response comes back to the client, message by message, whatever the sizes of the reads; a
  query the reader refuses (SQLSTATE 25006) is replayed on the writer.
\<close>

section \<open>The state of a session\<close>

text \<open>
  The three descriptors are different sockets, the writer and the reader take whole writes, the
  backend's buffer starts at its front; in \<open>session_ok\<close> the client's buffer also keeps the log of
  what was sent.
\<close>

definition socket :: "int \<Rightarrow> world \<Rightarrow> bool" where
  "socket fd w \<longleftrightarrow> 0 \<le> fd \<and> files w fd = None \<and> fd \<notin> set (tmpq w)"

definition session_base :: "session \<Rightarrow> bool" where
  "session_base s \<longleftrightarrow>
     (let fd = cn_fd (frontend s); rfd = cn_fd (reader s); wfd = cn_fd (writer s); w = hc_world s
      in fd \<noteq> rfd \<and> fd \<noteq> wfd \<and> rfd \<noteq> wfd \<and> socket fd w \<and> socket rfd w \<and> socket wfd w \<and>
         writable fd w \<and> wrq w rfd = [] \<and> wrq w wfd = [] \<and>
         infd (fe s) = fd \<and> outfd (be s) = fd \<and> mbuf_wf (be s) \<and> start (be s) = 0 \<and> 5 \<le> len (be s))"

definition session_ok :: "session \<Rightarrow> bool" where
  "session_ok s \<longleftrightarrow> session_base s \<and> sendable ((fe s)\<lparr>outfd := cn_fd (reader s)\<rparr>) (hc_world s)"

lemmas session_defs = session_ok_def session_base_def

lemma session_ok_base: "session_ok s \<Longrightarrow> session_base s"
  by (simp add: session_ok_def)

text \<open>What a session has still to read from the client and from a backend, and has sent.\<close>

definition asked :: "session \<Rightarrow> bytes" where
  "asked s = unread (fe s) (hc_world s)"

definition answers :: "session \<Rightarrow> int \<Rightarrow> bytes" where
  "answers s o' = window (be s) @ input o' (hc_world s)"

definition log_of :: "session \<Rightarrow> bytes" where
  "log_of s = history (fe s) (hc_world s)"

definition out_of :: "session \<Rightarrow> int \<Rightarrow> bytes" where
  "out_of s o' = sent (hc_world s) o'"

text \<open>What no step of these proofs changes.\<close>

definition same_conns :: "session \<Rightarrow> session \<Rightarrow> bool" where
  "same_conns s s' \<longleftrightarrow> frontend s' = frontend s \<and> reader s' = reader s \<and> writer s' = writer s"

lemma same_conns_trans: "same_conns s s1 \<Longrightarrow> same_conns s1 s2 \<Longrightarrow> same_conns s s2"
  by (simp add: same_conns_def)

lemma sendable_outfd:
  assumes "sendable m w" "socket o' w" "wrq w o' = []"
  shows "sendable (m\<lparr>outfd := o'\<rparr>) w"
  using assms by (auto simp: sendable_def overflow_ok_def socket_def mbuf_wf_def)

lemma sendable_fe:
  assumes "session_ok s" "o' = cn_fd (reader s) \<or> o' = cn_fd (writer s)"
  shows "sendable ((fe s)\<lparr>outfd := o'\<rparr>) (hc_world s)"
proof -
  from assms have "socket o' (hc_world s)" "wrq (hc_world s) o' = []" by (auto simp: session_defs Let_def)
  from sendable_outfd [OF _ this, of "(fe s)\<lparr>outfd := cn_fd (reader s)\<rparr>"] assms(1)
  show ?thesis by (simp add: session_defs Let_def)
qed

section \<open>Reading a message\<close>

lemma unread_nth:
  assumes "mbuf_wf m" "i < available m"
  shows "buf m ! (start m + i) = unread m w ! i"
  using assms window_nth [OF assms] length_window [OF assms(1)] by (simp add: unread_def nth_append)

lemma type_unread:
  assumes "mbuf_wf m" "5 \<le> available m" "unread m w ! 0 \<noteq> NUL"
  shows "pgr_mbuf_msgtype m = schar (unread m w ! 0)"
  using unread_nth [OF assms(1), of 0 w] assms(2,3) by (simp add: pgr_mbuf_msgtype_def)

declare strncaseeq.simps [simp del]

lemma query_is_unread:
  assumes kw: "length kw = n" and "mbuf_wf m" "unread m w ! 0 \<noteq> NUL" "5 \<le> available m"
    and nq: "\<not> strncaseeq (drop 5 (unread m w)) kw n"
  shows "\<not> query_is m kw"
proof
  assume q: "query_is m kw"
  note assms = assms(2-4)
  have no: "\<not> strncaseeq (drop 5 (unread m w)) kw (length kw)" using nq kw by simp
  have b0: "buf m ! start m \<noteq> NUL" using unread_nth [OF assms(1), of 0 w] assms(2,3) by simp
  have len: "5 + length kw \<le> available m"
    using q b0 by (auto simp: query_is_def pgr_mbuf_data_def Let_def split: if_splits)
  have "strncaseeq (drop (start m + 5) (buf m)) kw (length kw)"
    using q b0 len by (simp add: query_is_def pgr_mbuf_data_def data_mem_def Let_def add.commute)
  moreover have "take (length kw) (drop (start m + 5) (buf m)) = take (length kw) (drop 5 (unread m w))"
  proof -
    have "take (length kw) (drop 5 (window m)) = take (length kw) (drop (start m + 5) (buf m))"
      using len by (simp add: window_def drop_take min_def add.commute)
    moreover have "take (length kw) (drop 5 (unread m w)) = take (length kw) (drop 5 (window m))"
      using len length_window [OF assms(1)] by (simp add: unread_def)
    ultimately show ?thesis by simp
  qed
  ultimately show False using no by (metis strncaseeq_take)
qed

section \<open>The client's messages\<close>

text \<open>The state after the client's buffer and the world have moved on.\<close>

lemma sent_on_session:
  assumes s: "session_ok s" and o': "o' = cn_fd (reader s) \<or> o' = cn_fd (writer s)" "outfd (fe s) = o'"
    and on: "sent_on bs (fe s) (hc_world s) m' w'"
    and s': "same_conns s s'" "fe s' = m'" "be s' = be s" "hc_world s' = w'"
  shows "session_ok s'"
    and "x \<noteq> cn_fd (frontend s) \<Longrightarrow> answers s' x = answers s x"
    and "out_of s' x = out_of s x @ (if x = o' then bs else [])" and "log_of s' = log_of s @ bs"
    and "x \<noteq> cn_fd (frontend s) \<Longrightarrow> rdq (hc_world s') x = rdq (hc_world s) x"
proof -
  have w': "rdq w' x = rdq (hc_world s) x" if "x \<noteq> cn_fd (frontend s)" for x
    using on s that by (auto simp: sent_on_def session_defs Let_def)
  have sock: "socket x w'" if "socket x (hc_world s)" for x
    using on that by (auto simp: sent_on_def socket_def)
  have wq: "wrq w' = wrq (hc_world s)" and inf: "infd m' = infd (fe s)" and out: "outfd m' = o'"
    and ok: "sendable m' w'" using on o' by (auto simp: sent_on_def)
  have r: "socket (cn_fd (reader s)) w'" "wrq w' (cn_fd (reader s)) = []"
    using s sock wq by (auto simp: session_defs Let_def)
  have "sendable (m'\<lparr>outfd := cn_fd (reader s)\<rparr>) w'" by (rule sendable_outfd [OF ok r])
  then show "session_ok s'"
    using s s' sock wq inf by (auto simp: session_defs Let_def same_conns_def writable_def)
  show "x \<noteq> cn_fd (frontend s) \<Longrightarrow> answers s' x = answers s x"
    using w' [of x] s' by (simp add: answers_def input_def)
  show "out_of s' x = out_of s x @ (if x = o' then bs else [])" "log_of s' = log_of s @ bs"
    using on s' o' by (auto simp: out_of_def log_of_def sent_on_def)
  show "x \<noteq> cn_fd (frontend s) \<Longrightarrow> rdq (hc_world s') x = rdq (hc_world s) x"
    using w' [of x] s' by simp
qed

text \<open>One query of the client, sent to the backend the session is using.\<close>

lemma fe_query:
  assumes s: "session_ok s" "hc_pc s = FE"
    and o': "o' = cn_fd (reader s) \<or> o' = cn_fd (writer s)" "outfd (fe s) = o'" "befd s = o'"
    and q: "complete (asked s)" "asked s ! 0 = CHR ''Q''" "start (fe s) + 5 \<le> len (fe s)"
    and no: "\<not> strncaseeq (drop 5 (asked s)) ''begin'' 5" "\<not> strncaseeq (drop 5 (asked s)) ''commit'' 6"
  shows "\<exists>s'. hc_next s = Some s' \<and> hc_pc s' = BE \<and> session_ok s' \<and> same_conns s s' \<and> befd s' = o' \<and>
    in_txn s' = in_txn s \<and> outfd (fe s') = o' \<and> be s' = be s \<and>
    asked s' = after_msg (asked s) \<and> log_of s' = log_of s @ first_msg (asked s) \<and>
    (\<forall>x. out_of s' x = out_of s x @ (if x = o' then first_msg (asked s) else [])) \<and>
    (\<forall>x. x \<noteq> cn_fd (frontend s) \<longrightarrow> answers s' x = answers s x \<and>
       rdq (hc_world s') x = rdq (hc_world s) x)"
proof -
  let ?m = "fe s" and ?w = "hc_world s"
  have "?m\<lparr>outfd := o'\<rparr> = ?m" using o'(2) by (cases ?m) simp
  then have ok: "sendable ?m ?w" using sendable_fe [OF s(1) o'(1)] by simp
  have l5: "5 \<le> length (unread ?m ?w)" using q(1) by (simp add: complete_def asked_def)
  from recv_log [OF ok q(3) l5] obtain r m1 w1 where recv: "pgr_mbuf_recv ?m ?w = (r, m1, w1)"
    "0 \<le> r" "5 \<le> available m1" "sent_on [] ?m ?w m1 w1" "unread m1 w1 = asked s"
    by (auto simp: asked_def)
  then have ok1: "sendable m1 w1" "mbuf_wf m1" by (auto simp: sent_on_def sendable_def)
  from send_log [OF ok1(1) recv(3)] q(1) recv(5) obtain m2 w2 where
    send: "pgr_mbuf_send m1 w1 = (0, m2, w2)" "sent_on (first_msg (asked s)) m1 w1 m2 w2"
    "unread m2 w2 = after_msg (asked s)" by auto
  have on: "sent_on (first_msg (asked s)) ?m ?w m2 w2" using sent_on_trans [OF recv(4) send(2)] by simp
  have type: "pgr_mbuf_msgtype m1 = schar (CHR ''Q'')"
    using type_unread [OF ok1(2) recv(3), of w1] recv(5) q(2) by simp
  have nq: "\<not> query_is m1 ''begin''" "\<not> query_is m1 ''commit''"
    using query_is_unread [of "''begin''" 5 m1 w1] query_is_unread [of "''commit''" 6 m1 w1]
      ok1(2) recv(3,5) q(2) no by simp_all
  define s' where "s' = s\<lparr>fe := m2, hc_world := w2, hc_type := schar CHR ''Q'', hc_pc := BE\<rparr>"
  have qx: "schar CHR ''Q'' \<noteq> schar CHR ''X''" by simp
  have "hc_fe s = s'"
    using recv(2) by (simp add: hc_fe_def recv(1) type hc_route_def nq send(1) Let_def s'_def)
  then have next': "hc_next s = Some s'" by (simp add: hc_next_def s(2))
  have c: "same_conns s s'" "fe s' = m2" "be s' = be s" "hc_world s' = w2"
    by (simp_all add: s'_def same_conns_def)
  note fr = sent_on_session [OF s(1) o'(1,2) on c]
  have "outfd m2 = o'" using on o'(2) by (simp add: sent_on_def)
  then show ?thesis
    using next' fr c(1) send(3) o'(3) by (intro exI [of _ s']) (simp add: s'_def asked_def)
qed

section \<open>The backend's messages\<close>

lemma moved_session:
  assumes s: "session_base s" and i: "infd (be s) = o'" "o' = cn_fd (reader s) \<or> o' = cn_fd (writer s)"
    and mv: "moved bs (be s) (hc_world s) m' w'"
    and s': "same_conns s s'" "fe s' = fe s" "be s' = m'" "hc_world s' = w'"
  shows "session_base s'" and "session_ok s \<Longrightarrow> session_ok s'" and "asked s' = asked s" and "log_of s' = log_of s"
    and "out_of s' x = out_of s x @ (if x = cn_fd (frontend s) then bs else [])"
    and "answers s' x = window m' @ input x w'"
    and "infd m' = o'" and "x \<noteq> o' \<Longrightarrow> input x w' = input x (hc_world s)"
proof -
  let ?fd = "cn_fd (frontend s)" and ?w = "hc_world s"
  have out: "outfd (be s) = ?fd" "infd (fe s) = ?fd" using s by (auto simp: session_defs Let_def)
  have ne: "o' \<noteq> ?fd" using s i(2) by (auto simp: session_defs Let_def)
  have w': "files w' = files ?w" "tmpq w' = tmpq ?w" "\<And>x. x \<noteq> o' \<Longrightarrow> rdq w' x = rdq ?w x"
    "\<And>x. x \<noteq> ?fd \<Longrightarrow> wrq w' x = wrq ?w x" "writable ?fd w'"
    "sent w' = (sent ?w)(?fd := sent ?w ?fd @ bs)"
    using mv i out by (auto simp: moved_def same_world_def)
  have m': "mbuf_wf m'" "start m' = start (be s)" "len m' = len (be s)" "infd m' = o'" "outfd m' = ?fd"
    using mv i out by (auto simp: moved_def same_mbuf_def)
  have fw: "files ?w ?fd = None" "?fd \<notin> set (tmpq ?w)" using s by (auto simp: session_defs socket_def Let_def)
  have rn: "cn_fd (reader s) \<noteq> ?fd" using s by (auto simp: session_defs Let_def)
  have cw: "wrq w' (cache (fe s)) = wrq ?w (cache (fe s))" if "files ?w (cache (fe s)) = Some z" for z
    using that w'(4) fw by (metis option.distinct(1))
  show base: "session_base s'"
    using s s' w' m' by (auto simp: session_base_def Let_def same_conns_def socket_def)
  show "session_ok s'" if "session_ok s"
  proof -
    have "sendable ((fe s)\<lparr>outfd := cn_fd (reader s)\<rparr>) ?w" using that by (simp add: session_ok_def)
    then have "sendable ((fe s)\<lparr>outfd := cn_fd (reader s)\<rparr>) w'"
      using w' fw rn cw by (auto simp: sendable_def overflow_ok_def)
    then show ?thesis using base s' by (simp add: session_ok_def same_conns_def)
  qed
  show "asked s' = asked s" using s' w'(3) ne out by (auto simp: asked_def unread_def input_def)
  show "log_of s' = log_of s" using s' w'(1) by (simp add: log_of_def history_def)
  show "out_of s' x = out_of s x @ (if x = ?fd then bs else [])" using s' w'(6) by (simp add: out_of_def)
  show "answers s' x = window m' @ input x w'" using s' by (simp add: answers_def)
  show "infd m' = o'" by (rule m')
  show "x \<noteq> o' \<Longrightarrow> input x w' = input x ?w" using w'(3) by (simp add: input_def)
qed

text \<open>One message of the backend, relayed to the client.\<close>

lemma be_message:
  assumes s: "session_base s" "hc_pc s = BE"
    and o': "o' = cn_fd (reader s) \<or> o' = cn_fd (writer s)" "infd (be s) = o'"
    and m: "complete (answers s o')" "answers s o' ! 0 \<notin> {NUL, CHR ''E'', CHR ''G''}"
  shows "\<exists>s'. hc_next s = Some s' \<and> hc_pc s' = (if answers s o' ! 0 = CHR ''Z'' then TOP else BE) \<and>
    session_base s' \<and> (session_ok s \<longrightarrow> session_ok s') \<and> same_conns s s' \<and> befd s' = befd s \<and> in_txn s' = in_txn s \<and>
    fe s' = fe s \<and> infd (be s') = o' \<and> asked s' = asked s \<and> log_of s' = log_of s \<and>
    answers s' o' = after_msg (answers s o') \<and>
    (\<forall>x. out_of s' x = out_of s x @ (if x = cn_fd (frontend s) then first_msg (answers s o') else []))"
proof -
  let ?m = "be s" and ?w = "hc_world s" and ?u = "answers s o'"
  have wf: "mbuf_wf ?m" "start ?m = 0" "5 \<le> len ?m" and out: "outfd ?m = cn_fd (frontend s)"
    and wr: "writable (cn_fd (frontend s)) ?w" and f: "files ?w o' = None" "files ?w (cn_fd (frontend s)) = None"
    using s(1) o'(1) by (auto simp: session_defs socket_def Let_def)
  have u: "unread ?m ?w = ?u" using o'(2) by (simp add: unread_def answers_def)
  have l5: "5 \<le> length (unread ?m ?w)" using m(1) u by (simp add: complete_def)
  from recv_stream [OF wf(1) _ _ l5] wf o' out wr f obtain m1 w1 where
    recv: "pgr_mbuf_recv ?m ?w = (int (available m1), m1, w1)" "5 \<le> available m1"
    "moved [] ?m ?w m1 w1" "unread m1 w1 = ?u" using u by auto
  have m1: "mbuf_wf m1" "infd m1 = o'" "outfd m1 = cn_fd (frontend s)" "files w1 = files ?w"
    "writable (cn_fd (frontend s)) w1"
    using recv(3) out o'(2) by (auto simp: moved_def same_mbuf_def same_world_def)
  from relay_stream [OF m1(1) recv(2), of w1] m1 f m(1) recv(4) obtain m2 w2 where
    relay: "pgr_mbuf_relay m1 w1 = (0, m2, w2)" "moved (first_msg ?u) m1 w1 m2 w2"
    "unread m2 w2 = after_msg ?u" by auto
  have mv: "moved (first_msg ?u) ?m ?w m2 w2" using moved_trans [OF recv(3) relay(2)] by simp
  have type: "pgr_mbuf_msgtype m1 = schar (?u ! 0)"
    using type_unread [OF m1(1) recv(2), of w1] recv(4) m(2) by simp
  then have ne: "pgr_mbuf_iserror m1 (Some ''25006'') = 1"
    using m(2) by (simp add: pgr_mbuf_iserror_def)
  define s' where "s' = s\<lparr>be := m2, hc_world := w2, hc_type := schar (?u ! 0),
      hc_pc := (if ?u ! 0 = CHR ''Z'' then TOP else BE)\<rparr>"
  have "hc_be s = Some s'"
    using m(2) by (simp add: hc_be_def recv(1) type ne relay(1) Let_def s'_def)
  then have next': "hc_next s = Some s'" by (simp add: hc_next_def s(2))
  have c: "same_conns s s'" "fe s' = fe s" "be s' = m2" "hc_world s' = w2"
    by (simp_all add: s'_def same_conns_def)
  note fr = moved_session [OF s(1) o'(2,1) mv c]
  have "answers s' o' = after_msg ?u" using relay(3) fr(6) [of o'] fr(7) by (simp add: unread_def)
  then show ?thesis
    using next' fr c by (intro exI [of _ s']) (simp add: s'_def)
qed

end
