(* ===== verification/Sqlstate.thy ===== *)
theory Sqlstate
  imports Msg_Replay
begin

text \<open>
  The error test of \<^verbatim>\<open>src/msg.c\<close> on a whole ErrorResponse: the fields are walked to the first
  \<^verbatim>\<open>C\<close> field and its first five octets are compared with the code.
\<close>

section \<open>Error messages\<close>

definition enc_fields :: "(byte \<times> bytes) list \<Rightarrow> bytes" where
  "enc_fields fs = concat (map (\<lambda>(c, s). c # s @ [NUL]) fs) @ [NUL]"

definition field_ok :: "byte \<times> bytes \<Rightarrow> bool" where
  "field_ok f \<longleftrightarrow> fst f \<noteq> NUL \<and> NUL \<notin> set (snd f) \<and> (fst f = CHR ''C'' \<longrightarrow> 5 \<le> length (snd f))"

fun sqlstate :: "(byte \<times> bytes) list \<Rightarrow> bytes option" where
  "sqlstate [] = None"
| "sqlstate ((c, s) # fs) = (if c = CHR ''C'' then Some (take 5 s) else sqlstate fs)"

lemma enc_fields_simps [simp]:
  "enc_fields [] = [NUL]" "enc_fields ((c, s) # fs) = c # s @ NUL # enc_fields fs"
  by (simp_all add: enc_fields_def)

lemma skip_field_stop:
  "NUL \<notin> set s \<Longrightarrow> n + length s < f \<Longrightarrow> drop n b = s @ NUL # r \<Longrightarrow> skip_field b f n = n + length s"
proof (induction s arbitrary: n)
  case Nil
  then have "b ! n = NUL" by (metis append_Nil nth_via_drop)
  then show ?case by (subst skip_field.simps) simp
next
  case (Cons c s)
  then have "b ! n = c" "drop (Suc n) b = s @ NUL # r"
    by (metis append_Cons nth_via_drop, metis append_Cons drop_Suc list.sel(3) tl_drop)
  then show ?case using Cons by (subst skip_field.simps) auto
qed

lemma scan_fields_code:
  "drop n b = enc_fields fs @ r \<Longrightarrow> n + length (enc_fields fs) \<le> f \<Longrightarrow> f \<le> length b \<Longrightarrow>
   (\<And>x. x \<in> set fs \<Longrightarrow> field_ok x) \<Longrightarrow>
   scan_fields b f code n = (case sqlstate fs of None \<Rightarrow> 1 | Some c \<Rightarrow> memcmp c (take 5 code))"
proof (induction fs arbitrary: n)
  case Nil
  then have "b ! n = NUL" by (metis append_Cons append_Nil enc_fields_simps(1) nth_via_drop)
  then show ?case using Nil by (subst scan_fields.simps) simp
next
  case (Cons x fs)
  obtain c s where x: "x = (c, s)" by (cases x)
  have ok: "c \<noteq> NUL" "NUL \<notin> set s" "c = CHR ''C'' \<longrightarrow> 5 \<le> length s"
    using Cons.prems(4) [of x] by (simp_all add: x field_ok_def)
  have d: "drop n b = c # s @ NUL # enc_fields fs @ r" using Cons.prems(1) by (simp add: x)
  then have bn: "b ! n = c" by (rule nth_via_drop)
  have d1: "drop (n + 1) b = s @ NUL # enc_fields fs @ r"
    using d by (metis Suc_eq_plus1 drop_Suc list.sel(3) tl_drop)
  have f: "n + length s + 2 + length (enc_fields fs) \<le> f" using Cons.prems(2) by (simp add: x)
  have e1: "1 \<le> length (enc_fields fs)" by (simp add: enc_fields_def)
  show ?case
  proof (cases "c = CHR ''C''")
    case True
    then have "5 \<le> length s" using ok by simp
    then have "take 5 (drop (n + 1) b) = take 5 s" "n + 6 < f" using d1 f e1 by simp_all
    then show ?thesis
      using True bn ok f by (subst scan_fields.simps) (simp add: x)
  next
    case False
    have sk: "skip_field b f (Suc n) = Suc n + length s"
      by (rule skip_field_stop [of s "Suc n" f b "enc_fields fs @ r"]) (use ok f d1 in simp_all)
    have "Suc (Suc n + length s) = Suc (length s) + (n + 1)" by simp
    then have "drop (Suc (Suc n + length s)) b = drop (Suc (length s)) (drop (n + 1) b)"
      by (simp only: drop_drop)
    also have "\<dots> = enc_fields fs @ r" unfolding d1 by simp
    finally have "drop (Suc (Suc n + length s)) b = enc_fields fs @ r" .
    then have "scan_fields b f code (Suc (Suc n + length s)) =
        (case sqlstate fs of None \<Rightarrow> 1 | Some c \<Rightarrow> memcmp c (take 5 code))"
      by (rule Cons.IH) (use f Cons.prems in simp_all)
    then show ?thesis
      using False bn ok f by (subst scan_fields.simps) (simp add: x sk)
  qed
qed

definition error_msg :: "(byte \<times> bytes) list \<Rightarrow> bytes" where
  "error_msg fs = ''E'' @ be32 (length (enc_fields fs) + 4) @ enc_fields fs"

lemma schar_E: "schar (CHR ''E'') = 69"
  by (simp add: schar_def uchar_def)

lemma iserror_code:
  assumes wf: "mbuf_wf m" and w: "window m = error_msg fs @ rest"
    and ok: "\<And>x. x \<in> set fs \<Longrightarrow> field_ok x"
  shows "pgr_mbuf_iserror m (Some code) =
    (case sqlstate fs of None \<Rightarrow> 1 | Some c \<Rightarrow> memcmp c (take 5 code))"
proof -
  have l: "available m = length (error_msg fs @ rest)" using length_window [OF wf] w by simp
  have e5: "length (error_msg fs) = 5 + length (enc_fields fs)" by (simp add: error_msg_def)
  have b0: "buf m ! start m = CHR ''E''"
    using window_nth [OF wf, of 0] l e5 w by (simp add: error_msg_def)
  have type: "pgr_mbuf_msgtype m = schar (CHR ''E'')"
    using l e5 b0 by (simp add: pgr_mbuf_msgtype_def)
  have bf: "drop (start m) (buf m) = error_msg fs @ rest @ drop (fill m) (buf m)"
  proof -
    have "drop (start m) (buf m) = window m @ drop (available m) (drop (start m) (buf m))"
      by (simp only: window_def append_take_drop_id)
    moreover have "available m + start m = fill m" using wf by (simp add: available_def mbuf_wf_def)
    ultimately show ?thesis using w by (simp add: add.commute)
  qed
  have "drop (start m + 5) (buf m) = drop 5 (drop (start m) (buf m))" by (simp add: add.commute)
  also have "\<dots> = enc_fields fs @ rest @ drop (fill m) (buf m)" unfolding bf by (simp add: error_msg_def)
  finally have d: "drop (start m + 5) (buf m) = enc_fields fs @ rest @ drop (fill m) (buf m)" .
  have "start m + 5 + length (enc_fields fs) \<le> fill m" "fill m \<le> length (buf m)"
    using l e5 wf by (auto simp: available_def mbuf_wf_def)
  from scan_fields_code [OF d this ok, of code] show ?thesis
    by (simp add: pgr_mbuf_iserror_def type)
qed

end
