(* ===== verification/Routing.thy ===== *)
theory Routing
  imports Session_Laws Sqlstate
begin

text \<open>
  Whole rounds of a session: a query answered by the reader, and a query the reader refuses with
  SQLSTATE 25006, which the writer then answers without the client seeing the refusal.
\<close>

section \<open>Messages one after the other\<close>

definition whole :: "bytes \<Rightarrow> bool" where
  "whole m \<longleftrightarrow> 5 \<le> length m \<and> wire_size m = length m"

lemma whole_complete: "whole m \<Longrightarrow> complete (m @ t)"
  by (auto simp: whole_def complete_def wire_size_append)

lemma whole_first [simp]: "whole m \<Longrightarrow> wire_size (m @ t) = length m"
  by (simp add: whole_def wire_size_append)

lemma whole_nth [simp]: "whole m \<Longrightarrow> (m @ t) ! 0 = m ! 0"
  by (auto simp: whole_def nth_append)

section \<open>The head of the loop\<close>

lemma top_session:
  assumes s: "session_ok s" "hc_pc s = TOP"
    and o': "o' = (if in_txn s = 0 then cn_fd (reader s) else befd s)"
      "o' = cn_fd (reader s) \<or> o' = cn_fd (writer s)"
  shows "\<exists>s'. hc_next s = Some s' \<and> hc_pc s' = FE \<and> session_ok s' \<and> same_conns s s' \<and>
    befd s' = o' \<and> in_txn s' = in_txn s \<and> outfd (fe s') = o' \<and> infd (be s') = o' \<and>
    start (fe s') = start (fe s) \<and> len (fe s') = len (fe s) \<and> cache (fe s') = cache (fe s) \<and>
    window (fe s') = window (fe s) \<and> window (be s') = window (be s) \<and> hc_world s' = hc_world s \<and>
    asked s' = asked s \<and> log_of s' = log_of s \<and> (\<forall>x. out_of s' x = out_of s x \<and> answers s' x = answers s x)"
proof -
  have "0 \<le> o'" using s(1) o'(2) by (auto simp: session_defs socket_def Let_def)
  then have o0: "o' \<noteq> MBUF_SAME_FD" by (simp add: MBUF_SAME_FD_def)
  define s' where "s' = s\<lparr>befd := o', fe := (fe s)\<lparr>outfd := o'\<rparr>, be := (be s)\<lparr>infd := o'\<rparr>, hc_pc := FE\<rparr>"
  have "(if in_txn s = 0 then s\<lparr>befd := cn_fd (reader s)\<rparr> else s) = s\<lparr>befd := o'\<rparr>"
  proof (cases "in_txn s = 0")
    case False
    then have "befd s = o'" using o'(1) by simp
    then show ?thesis using False by (cases s) simp
  qed (use o'(1) in simp)
  then have "hc_top s = s'"
    using o0 by (simp add: hc_top_def s'_def pgr_mbuf_setfd_def)
  then have n: "hc_next s = Some s'" by (simp add: hc_next_def s(2))
  have ok: "session_ok s'"
    using s(1) by (auto simp: session_defs s'_def Let_def mbuf_wf_def)
  show ?thesis
    by (intro exI [of _ s']) (use n ok in \<open>simp add: s'_def same_conns_def asked_def log_of_def out_of_def
        answers_def unread_def window_def available_def history_def\<close>)
qed

section \<open>A response\<close>

definition plain :: "bytes \<Rightarrow> bool" where
  "plain m \<longleftrightarrow> whole m \<and> m ! 0 \<notin> {NUL, CHR ''E'', CHR ''G'', CHR ''Z''}"

lemma be_messages:
  assumes "session_base s" "hc_pc s = BE" "o' = cn_fd (reader s) \<or> o' = cn_fd (writer s)" "infd (be s) = o'"
    and "\<And>m. m \<in> set ms \<Longrightarrow> plain m" "whole rfq" "rfq ! 0 = CHR ''Z''"
    and "answers s o' = concat ms @ rfq @ rest"
  shows "\<exists>s'. hc_reach s s' \<and> hc_pc s' = TOP \<and> session_base s' \<and> (session_ok s \<longrightarrow> session_ok s') \<and>
    same_conns s s' \<and> befd s' = befd s \<and> in_txn s' = in_txn s \<and> fe s' = fe s \<and> asked s' = asked s \<and> log_of s' = log_of s \<and>
    answers s' o' = rest \<and>
    (\<forall>x. out_of s' x = out_of s x @ (if x = cn_fd (frontend s) then concat ms @ rfq else []))"
  using assms
proof (induction ms arbitrary: s)
  case Nil
  have c: "complete (answers s o')" "answers s o' ! 0 = CHR ''Z''" "first_msg (answers s o') = rfq"
    "after_msg (answers s o') = rest"
    using Nil.prems(6,7,8) by (simp_all add: whole_complete)
  from be_message [OF Nil.prems(1-4) c(1)] c obtain s' where
    "hc_next s = Some s'" "hc_pc s' = TOP" "session_base s'" "session_ok s \<longrightarrow> session_ok s'" "same_conns s s'" "befd s' = befd s"
    "in_txn s' = in_txn s" "fe s' = fe s" "asked s' = asked s" "log_of s' = log_of s" "answers s' o' = rest"
    "\<forall>x. out_of s' x = out_of s x @ (if x = cn_fd (frontend s) then rfq else [])" by auto
  moreover from this(1) have "hc_reach s s'" by (auto intro: hc_step.step)
  ultimately show ?case by (intro exI [of _ s']) simp
next
  case (Cons m ms)
  have p: "plain m" using Cons.prems(5) by simp
  then have w: "whole m" by (simp add: plain_def)
  have a: "answers s o' = m @ concat ms @ rfq @ rest" using Cons.prems(8) by simp
  have c: "complete (answers s o')" "answers s o' ! 0 = m ! 0" "first_msg (answers s o') = m"
    "after_msg (answers s o') = concat ms @ rfq @ rest"
    using w by (simp_all add: a whole_complete)
  from be_message [OF Cons.prems(1-4) c(1)] c p obtain s1 where
    s1: "hc_next s = Some s1" "hc_pc s1 = BE" "session_base s1" "same_conns s s1" "befd s1 = befd s"
    "in_txn s1 = in_txn s" "fe s1 = fe s" "infd (be s1) = o'" "asked s1 = asked s" "log_of s1 = log_of s"
    "answers s1 o' = concat ms @ rfq @ rest"
    "\<forall>x. out_of s1 x = out_of s x @ (if x = cn_fd (frontend s) then m else [])"
    "session_ok s \<longrightarrow> session_ok s1"
    by (auto simp: plain_def)
  have o1: "o' = cn_fd (reader s1) \<or> o' = cn_fd (writer s1)"
    using Cons.prems(3) s1(4) by (simp add: same_conns_def)
  from Cons.IH [OF s1(3,2) o1 s1(8) _ Cons.prems(6,7) s1(11)] Cons.prems(5)
  obtain s' where s': "hc_reach s1 s'" "hc_pc s' = TOP" "session_base s'" "session_ok s1 \<longrightarrow> session_ok s'" "same_conns s1 s'" "befd s' = befd s1"
    "in_txn s' = in_txn s1" "fe s' = fe s1" "asked s' = asked s1" "log_of s' = log_of s1" "answers s' o' = rest"
    "\<forall>x. out_of s' x = out_of s1 x @ (if x = cn_fd (frontend s1) then concat ms @ rfq else [])"
    by auto
  have "hc_reach s s'" using s1(1) s'(1) by (meson converse_rtranclp_into_rtranclp hc_step.step)
  moreover have "cn_fd (frontend s1) = cn_fd (frontend s)" using s1(4) by (simp add: same_conns_def)
  ultimately show ?case
    using s1 s' same_conns_trans [OF s1(4) s'(5)] by (intro exI [of _ s']) auto
qed

section \<open>A query answered by the reader\<close>

lemma query_routed:
  assumes s: "session_ok s" "hc_pc s = TOP" "in_txn s = 0"
    and q: "whole q" "q ! 0 = CHR ''Q''" "asked s = q @ later" "start (fe s) + 5 \<le> len (fe s)"
    and no: "\<not> strncaseeq (drop 5 (asked s)) ''begin'' 5" "\<not> strncaseeq (drop 5 (asked s)) ''commit'' 6"
    and ms: "\<And>m. m \<in> set ms \<Longrightarrow> plain m" and rfq: "whole rfq" "rfq ! 0 = CHR ''Z''"
    and a: "answers s (cn_fd (reader s)) = concat ms @ rfq @ rest"
  shows "\<exists>s'. hc_reach s s' \<and> hc_pc s' = TOP \<and> session_ok s' \<and> same_conns s s' \<and> in_txn s' = 0 \<and>
    asked s' = later \<and> answers s' (cn_fd (reader s)) = rest \<and> log_of s' = log_of s @ q \<and>
    out_of s' (cn_fd (reader s)) = out_of s (cn_fd (reader s)) @ q \<and>
    out_of s' (cn_fd (frontend s)) = out_of s (cn_fd (frontend s)) @ concat ms @ rfq \<and>
    out_of s' (cn_fd (writer s)) = out_of s (cn_fd (writer s))"
proof -
  let ?r = "cn_fd (reader s)"
  have ne: "cn_fd (frontend s) \<noteq> ?r" "cn_fd (writer s) \<noteq> ?r" "cn_fd (frontend s) \<noteq> cn_fd (writer s)"
    using s(1) by (auto simp: session_defs Let_def)
  from top_session [OF s(1,2), of ?r] s(3) obtain s1 where
    s1: "hc_next s = Some s1" "hc_pc s1 = FE" "session_ok s1" "same_conns s s1" "befd s1 = ?r" "in_txn s1 = 0"
    "outfd (fe s1) = ?r" "infd (be s1) = ?r" "start (fe s1) = start (fe s)" "len (fe s1) = len (fe s)"
    "asked s1 = asked s" "log_of s1 = log_of s" "\<forall>x. out_of s1 x = out_of s x \<and> answers s1 x = answers s x"
    by auto
  have c1: "reader s1 = reader s" "writer s1 = writer s" "frontend s1 = frontend s"
    using s1(4) by (simp_all add: same_conns_def)
  have cq: "complete (asked s1)" "asked s1 ! 0 = CHR ''Q''" "first_msg (asked s1) = q" "after_msg (asked s1) = later"
    using q s1(11) by (simp_all add: whole_complete)
  from fe_query [OF s1(3,2) _ s1(7,5) cq(1,2)] c1 q(4) s1(9-11) no obtain s2 where
    s2: "hc_next s1 = Some s2" "hc_pc s2 = BE" "session_ok s2" "same_conns s1 s2" "befd s2 = ?r" "in_txn s2 = 0"
    "be s2 = be s1" "asked s2 = later" "log_of s2 = log_of s1 @ q"
    "\<forall>x. out_of s2 x = out_of s1 x @ (if x = ?r then q else [])"
    "\<forall>x. x \<noteq> cn_fd (frontend s1) \<longrightarrow> answers s2 x = answers s1 x"
    using cq(3,4) s1(6) by auto
  have c2: "reader s2 = reader s" "writer s2 = writer s" "frontend s2 = frontend s"
    using s2(4) c1 by (simp_all add: same_conns_def)
  have a2: "answers s2 ?r = concat ms @ rfq @ rest" using s2(11) s1(13) a ne c1 by simp
  from be_messages [OF session_ok_base [OF s2(3)] s2(2), of ?r ms rfq rest] ms rfq a2 s2(7) s1(8) c2 obtain s3 where
    s3: "hc_reach s2 s3" "hc_pc s3 = TOP" "session_ok s3" "same_conns s2 s3" "in_txn s3 = 0" "asked s3 = later"
    "log_of s3 = log_of s2" "answers s3 ?r = rest"
    "\<forall>x. out_of s3 x = out_of s2 x @ (if x = cn_fd (frontend s2) then concat ms @ rfq else [])"
    using s2(3,6,8) by auto
  have "hc_reach s s3"
    using s1(1) s2(1) s3(1) by (meson converse_rtranclp_into_rtranclp hc_step.step)
  then show ?thesis
    using s1 s2 s3 c2 ne same_conns_trans [OF same_conns_trans [OF s1(4) s2(4)] s3(4)]
    by (intro exI [of _ s3]) auto
qed

text \<open>
  C2: A query that is not the beginning or the end of a transaction is routed to the reader:
  from the head of the loop the session reaches the head again after it has sent exactly the
  query to the reader and exactly the whole answer, message by message up to ReadyForQuery, to
  the client, whatever the sizes of the reads and of the writes to the client; the writer is
  sent nothing and the query is appended to the log for a replay.
\<close>

lemma routed_query:
  assumes s: "session_ok s" "hc_pc s = TOP" "in_txn s = 0"
    and q: "whole q" "q ! 0 = CHR ''Q''" "asked s = q @ later" "start (fe s) + 5 \<le> len (fe s)"
    and no: "\<not> strncaseeq (drop 5 (asked s)) ''begin'' 5" "\<not> strncaseeq (drop 5 (asked s)) ''commit'' 6"
    and ms: "\<And>m. m \<in> set ms \<Longrightarrow> plain m" and rfq: "whole rfq" "rfq ! 0 = CHR ''Z''"
    and a: "answers s (cn_fd (reader s)) = concat ms @ rfq @ rest"
  shows "\<exists>s'. hc_reach s s' \<and> hc_pc s' = TOP \<and> session_ok s' \<and> same_conns s s' \<and> in_txn s' = 0 \<and>
    asked s' = later \<and> answers s' (cn_fd (reader s)) = rest \<and> log_of s' = log_of s @ q \<and>
    out_of s' (cn_fd (reader s)) = out_of s (cn_fd (reader s)) @ q \<and>
    out_of s' (cn_fd (frontend s)) = out_of s (cn_fd (frontend s)) @ concat ms @ rfq \<and>
    out_of s' (cn_fd (writer s)) = out_of s (cn_fd (writer s))"
  by (rule query_routed [OF assms])

end
