(* ===== verification/Reroute.thy ===== *)
theory Reroute
  imports Routing
begin

text \<open>
  The rerouting of a session: a query the reader refuses with SQLSTATE 25006 is discarded
  there, replayed on the writer, and answered from the writer only.
\<close>

section \<open>Discarding buffered messages\<close>

text \<open>A whole message at the front of the window is discarded without a read.\<close>

lemma discard_buffered:
  assumes wf: "mbuf_wf m" and w: "window m = x @ rest" "whole x"
  shows "\<exists>m'. pgr_mbuf_discard m w = (0, m', w) \<and> mbuf_wf m' \<and> window m' = rest \<and> same_mbuf m m'"
proof -
  have av: "length x \<le> available m" "5 \<le> available m"
    using length_window [OF wf] w by (simp_all add: whole_def)
  have "wire_size (unread m w) = length x" using w by (simp add: unread_def)
  then have sz: "unat (msize m) = length x" using msize_wire [OF wf av(2), of w] by simp
  have "pgr_mbuf_discard m w = (0, cut_front (length x) m, w)"
    using av w(2) by (simp add: pgr_mbuf_discard_def sz discard_loop.simps [of "length x"] whole_def)
      (auto simp: whole_def)
  moreover have "window (cut_front (length x) m) = rest" using window_cut [OF wf av(1)] w by simp
  ultimately show ?thesis
    using wf_cut_front [OF wf av(1)] by (auto simp: same_mbuf_def cut_front_def)
qed

lemma error_msg_whole: "length (error_msg fs) < 2 ^ 24 \<Longrightarrow> whole (error_msg fs)"
proof -
  assume l: "length (error_msg fs) < 2 ^ 24"
  have e: "length (error_msg fs) = 5 + length (enc_fields fs)" by (simp add: error_msg_def)
  have "wire_size (error_msg fs) = (length (enc_fields fs) + 4) mod 2 ^ 24 + 1"
    unfolding error_msg_def append_Cons append_Nil
  proof -
    have "u32_at (CHR ''E'' # be32 n @ r) 1 = u32_at (be32 n @ r) 0" for n r by (simp add: u32_at_def)
    moreover have "unat (u32_at (be32 n @ r) 0) = n mod 2 ^ 24" for n r
      using unat_u32_of_be32 [of n] by (simp add: u32_at_def nth_append be32_def)
    ultimately show "wire_size (CHR ''E'' # be32 (length (enc_fields fs) + 4) @ enc_fields fs) =
        (length (enc_fields fs) + 4) mod 2 ^ 24 + 1" by (simp add: wire_size_def)
  qed
  then show ?thesis using e l by (simp add: whole_def)
qed

lemma type_window:
  assumes "mbuf_wf m" "window m = x @ rest" "whole x" "x ! 0 \<noteq> NUL"
  shows "pgr_mbuf_msgtype m = schar (x ! 0)" and "5 \<le> available m"
proof -
  show av: "5 \<le> available m" using length_window [OF assms(1)] assms(2,3) by (simp add: whole_def)
  have "unread m undefined ! 0 = x ! 0" using assms(2,3) by (simp add: unread_def)
  then show "pgr_mbuf_msgtype m = schar (x ! 0)"
    using type_unread [OF assms(1) av, of undefined] assms(4) by simp
qed

text \<open>The drain of an error and the ReadyForQuery behind it, both buffered.\<close>

lemma drain_buffered:
  assumes wf: "mbuf_wf m" and w: "window m = x @ rfq @ rest" and x: "whole x" "x ! 0 = CHR ''E''"
    and z: "whole rfq" "rfq ! 0 = CHR ''Z''"
  shows "\<exists>m'. pgr_mbuf_drain m (schar CHR ''Z'') w = Some (0, m', w) \<and> mbuf_wf m' \<and> window m' = rest \<and>
    same_mbuf m m'"
proof -
  have s: "schar CHR ''E'' = 69" "schar CHR ''Z'' = 90" by (simp_all add: schar_def uchar_def)
  from discard_buffered [OF wf w x(1)] obtain m1 where m1: "pgr_mbuf_discard m w = (0, m1, w)"
    "mbuf_wf m1" "window m1 = rfq @ rest" "same_mbuf m m1" by blast
  have t: "pgr_mbuf_msgtype m = schar CHR ''E''" using type_window [OF wf w x(1)] x(2) by simp
  have t1: "pgr_mbuf_msgtype m1 = schar CHR ''Z''" "5 \<le> available m1"
    using type_window [OF m1(2,3) z(1)] z(2) by simp_all
  from discard_buffered [OF m1(2,3) z(1)] obtain m2 where m2: "pgr_mbuf_discard m1 w = (0, m2, w)"
    "mbuf_wf m2" "window m2 = rest" "same_mbuf m1 m2" by blast
  have "pgr_mbuf_drain m1 (schar CHR ''Z'') w = Some (0, m2, w)"
    by (subst pgr_mbuf_drain.simps) (simp add: t1 s m2)
  then have "pgr_mbuf_drain m (schar CHR ''Z'') w = Some (0, m2, w)"
    by (subst pgr_mbuf_drain.simps) (simp add: t s m1 recv_ready t1)
  then show ?thesis using m1(4) m2 by (auto simp: same_mbuf_def)
qed

section \<open>The step\<close>

text \<open>The octets of one read that fill an empty buffer.\<close>

lemma recv_chunk:
  assumes wf: "mbuf_wf m" "start m = 0" "window m = []" and w: "files w (infd m) = None"
    "rdq w (infd m) = Chunk bs # q" and l: "5 \<le> length bs" "length bs \<le> len m"
  shows "\<exists>m1. pgr_mbuf_recv m w = (int (length bs), m1, w\<lparr>rdq := (rdq w)(infd m := q)\<rparr>) \<and>
    mbuf_wf m1 \<and> window m1 = bs \<and> same_mbuf m m1"
proof -
  have f: "fill m = 0" using wf length_window [OF wf(1)] by (simp add: available_def)
  have "sys_read (infd m) (len m) w = (int (length bs), bs, w\<lparr>rdq := (rdq w)(infd m := q)\<rparr>)"
    using w l by (simp add: sys_read_def)
  moreover have "bs \<noteq> []" using l by auto
  moreover have t: "mbuf_wf (take_in bs m)" "window (take_in bs m) = bs"
    using wf l f by (simp_all add: wf_take_in window_take_in room_def)
  moreover have "available (take_in bs m) = length bs" using length_window [OF t(1)] t(2) by simp
  ultimately have "pgr_mbuf_recv m w = (int (length bs), take_in bs m, w\<lparr>rdq := (rdq w)(infd m := q)\<rparr>)"
    using l f wf(2) by (subst pgr_mbuf_recv.simps) (simp add: available_def recv_ready)
  then show ?thesis using t by (intro exI [of _ "take_in bs m"]) (simp add: same_mbuf_def take_in_def)
qed

lemma be_reroute:
  assumes s: "session_ok s" "hc_pc s = BE" "befd s = cn_fd (reader s)" "infd (be s) = cn_fd (reader s)"
    and idle: "window (be s) = []" "asked s = []"
    and fs: "\<And>x. x \<in> set fs \<Longrightarrow> field_ok x" "sqlstate fs = Some ''25006''"
    and z: "whole rfq" "rfq ! 0 = CHR ''Z''" and l: "length (error_msg fs @ rfq) \<le> len (be s)"
      "length (error_msg fs) < 2 ^ 24"
    and q: "rdq (hc_world s) (cn_fd (reader s)) = Chunk (error_msg fs @ rfq) # qs"
  shows "\<exists>s'. hc_next s = Some s' \<and> hc_pc s' = BE \<and> session_base s' \<and> same_conns s s' \<and>
    befd s' = cn_fd (writer s) \<and> infd (be s') = cn_fd (writer s) \<and> in_txn s' = in_txn s \<and>
    asked s' = [] \<and> log_of s' = [] \<and>
    (\<forall>x. out_of s' x = out_of s x @ (if x = cn_fd (writer s) then log_of s else [])) \<and>
    answers s' (cn_fd (writer s)) = answers s (cn_fd (writer s))"
proof -
  let ?r = "cn_fd (reader s)" and ?w = "hc_world s" and ?wr = "cn_fd (writer s)"
  have be: "mbuf_wf (be s)" "start (be s) = 0" and f: "files ?w ?r = None" and ne: "?r \<noteq> ?wr"
    and wr0: "0 \<le> ?wr" "?wr \<noteq> cn_fd (frontend s)" "?r \<noteq> cn_fd (frontend s)"
    using s(1) by (auto simp: session_defs socket_def Let_def)
  have em: "whole (error_msg fs)" by (rule error_msg_whole [OF l(2)])
  then have l5: "5 \<le> length (error_msg fs @ rfq)" by (simp add: whole_def)
  define w1 where "w1 = ?w\<lparr>rdq := (rdq ?w)(?r := qs)\<rparr>"
  from recv_chunk [OF be idle(1), of ?w "error_msg fs @ rfq" qs] s(4) f q l5 l(1) obtain m1 where
    m1: "pgr_mbuf_recv (be s) ?w = (int (length (error_msg fs @ rfq)), m1, w1)" "mbuf_wf m1"
    "window m1 = error_msg fs @ rfq" "same_mbuf (be s) m1" by (auto simp: w1_def)
  have e0: "error_msg fs ! 0 = CHR ''E''" by (simp add: error_msg_def)
  have err: "pgr_mbuf_iserror m1 (Some ''25006'') = 0"
    using iserror_code [OF m1(2,3) fs(1), of "''25006''"] fs(2) by simp
  from drain_buffered [OF m1(2) _ em e0 z, of "[]" w1] m1(3) obtain m2 where
    m2: "pgr_mbuf_drain m1 (schar CHR ''Z'') w1 = Some (0, m2, w1)" "mbuf_wf m2" "window m2 = []"
    "same_mbuf m1 m2" by auto
  define fe1 where "fe1 = (fe s)\<lparr>outfd := ?wr\<rparr>"
  have "sendable fe1 ?w" unfolding fe1_def by (rule sendable_fe [OF s(1)]) simp
  moreover have "infd fe1 \<noteq> ?r" using s(1) by (auto simp: fe1_def session_defs Let_def)
  ultimately have ok: "sendable fe1 w1" by (auto simp: sendable_def overflow_ok_def w1_def)
  define w2 where "w2 = w1\<lparr>sent := (sent w1)(?wr := sent w1 ?wr @ history fe1 w1)\<rparr>"
  have resend: "pgr_mbuf_resend fe1 w1 = (0, fe1, w2)"
    using resend_exact [OF ok] by (simp add: w2_def fe1_def)
  obtain fe3 w3 where reset: "pgr_mbuf_reset fe1 w2 = (fe3, w3)" by (metis surj_pair)
  have w3: "sent w3 = sent w2" "rdq w3 = rdq w2" "wrq w3 = wrq w2" "tmpq w3 = tmpq w2"
    "\<And>x. files w2 x = None \<Longrightarrow> files w3 x = None"
    using reset by (auto simp: pgr_mbuf_reset_def Let_def sys_close_def split: if_splits)
  have fe3: "infd fe3 = infd (fe s)" "cache fe3 < 0" "start fe3 = 0" "fill fe3 = 0"
    using reset by (auto simp: pgr_mbuf_reset_def Let_def fe1_def split: if_splits)
  define be3 where "be3 = m2\<lparr>infd := ?wr\<rparr>"
  define s' where "s' = s\<lparr>befd := ?wr, fe := fe3, be := be3, hc_world := w3, hc_pc := BE,
      hc_type := schar CHR ''E''\<rparr>"
  have sf: "pgr_mbuf_setfd (fe s) MBUF_SAME_FD ?wr = fe1" "pgr_mbuf_setfd m2 ?wr MBUF_SAME_FD = be3"
    using wr0(1) by (simp_all add: pgr_mbuf_setfd_def fe1_def be3_def MBUF_SAME_FD_def)
  have t1: "pgr_mbuf_msgtype m1 = schar CHR ''E''" using type_window(1) [OF m1(2,3) em] e0 by simp
  have "hc_be s = Some s'"
    using s(3) m1(1) by (simp add: hc_be_def t1 err hc_reroute_def m2(1) sf resend reset Let_def s'_def)
  then have next': "hc_next s = Some s'" by (simp add: hc_next_def s(2))
  have be3: "mbuf_wf be3" "start be3 = 0" "len be3 = len (be s)" "outfd be3 = outfd (be s)" "window be3 = []"
    using m1(4) m2 be by (auto simp: be3_def same_mbuf_def mbuf_wf_def window_def available_def)
  have base: "session_base s'"
    using s(1) w3 be3 fe3 by (auto simp: session_defs Let_def s'_def socket_def w2_def w1_def writable_def)
  have "unread (fe s) ?w = []" using idle(2) by (simp add: asked_def)
  then have inp: "input (infd (fe s)) ?w = []" by (simp add: unread_def)
  have ri: "?r \<noteq> infd (fe s)" using s(1) by (auto simp: session_defs Let_def)
  have "asked s' = []"
    using inp ri w3 fe3 by (simp add: asked_def unread_def s'_def window_def available_def input_def w2_def w1_def)
  moreover have "log_of s' = []" using fe3 by (simp add: log_of_def history_def s'_def)
  moreover have "history fe1 w1 = log_of s" by (simp add: log_of_def history_def fe1_def w1_def)
  then have "out_of s' x = out_of s x @ (if x = ?wr then log_of s else [])" for x
    using w3 by (simp add: out_of_def s'_def w2_def) (simp add: w1_def)
  moreover have "answers s' ?wr = answers s ?wr"
    using be3 w3 idle(1) ne by (simp add: answers_def s'_def input_def w2_def w1_def)
  ultimately show ?thesis
    using next' base by (intro exI [of _ s']) (simp add: s'_def same_conns_def be3_def)
qed

section \<open>A query the reader refuses\<close>

text \<open>
  The writer is sent everything the session has sent since it began (or since the last reroute),
  not only the query; the client gets the writer's response and nothing of the reader's.
\<close>

text \<open>
  C3: A query the reader refuses with SQLSTATE 25006 is replayed on the writer: the refusal is
  not shown to the client, the writer is sent the query, and the writer's whole answer goes to
  the client. The writer is also sent again everything logged before the query (log_of s),
  because the log is only reset here.
\<close>

lemma rerouted_query:
  assumes s: "session_ok s" "hc_pc s = TOP" "in_txn s = 0"
    and q: "whole q" "q ! 0 = CHR ''Q''" "asked s = q" "start (fe s) + 5 \<le> len (fe s)"
    and no: "\<not> strncaseeq (drop 5 q) ''begin'' 5" "\<not> strncaseeq (drop 5 q) ''commit'' 6"
    and fs: "\<And>x. x \<in> set fs \<Longrightarrow> field_ok x" "sqlstate fs = Some ''25006''"
    and z0: "whole rfq0" "rfq0 ! 0 = CHR ''Z''" and idle: "window (be s) = []"
    and l: "length (error_msg fs @ rfq0) \<le> len (be s)" "length (error_msg fs) < 2 ^ 24"
    and r: "rdq (hc_world s) (cn_fd (reader s)) = Chunk (error_msg fs @ rfq0) # qs"
    and ms: "\<And>m. m \<in> set ms \<Longrightarrow> plain m" and z: "whole rfq" "rfq ! 0 = CHR ''Z''"
    and a: "answers s (cn_fd (writer s)) = concat ms @ rfq @ rest"
  shows "\<exists>s'. hc_reach s s' \<and> hc_pc s' = TOP \<and> session_base s' \<and> same_conns s s' \<and> in_txn s' = 0 \<and>
    asked s' = [] \<and> answers s' (cn_fd (writer s)) = rest \<and> log_of s' = [] \<and>
    out_of s' (cn_fd (reader s)) = out_of s (cn_fd (reader s)) @ q \<and>
    out_of s' (cn_fd (writer s)) = out_of s (cn_fd (writer s)) @ log_of s @ q \<and>
    out_of s' (cn_fd (frontend s)) = out_of s (cn_fd (frontend s)) @ concat ms @ rfq"
proof -
  let ?r = "cn_fd (reader s)" and ?wr = "cn_fd (writer s)"
  have ne: "cn_fd (frontend s) \<noteq> ?r" "?wr \<noteq> ?r" "cn_fd (frontend s) \<noteq> ?wr"
    using s(1) by (auto simp: session_defs Let_def)
  from top_session [OF s(1,2), of ?r] s(3) obtain s1 where
    s1: "hc_next s = Some s1" "hc_pc s1 = FE" "session_ok s1" "same_conns s s1" "befd s1 = ?r" "in_txn s1 = 0"
    "outfd (fe s1) = ?r" "infd (be s1) = ?r" "start (fe s1) = start (fe s)" "len (fe s1) = len (fe s)"
    "asked s1 = asked s" "log_of s1 = log_of s" "\<forall>x. out_of s1 x = out_of s x \<and> answers s1 x = answers s x"
    "window (be s1) = window (be s)" "hc_world s1 = hc_world s"
    by auto
  have c1: "reader s1 = reader s" "writer s1 = writer s" "frontend s1 = frontend s"
    using s1(4) by (simp_all add: same_conns_def)
  have cq: "complete (asked s1)" "asked s1 ! 0 = CHR ''Q''" "first_msg (asked s1) = q" "after_msg (asked s1) = []"
    using q s1(11) whole_complete [OF q(1), of "[]"] whole_first [OF q(1), of "[]"] by simp_all
  have lb: "len (be s1) = len (be s)" using s1(1) s(2)
    by (auto simp: hc_next_def hc_top_def Let_def pgr_mbuf_setfd_def)
  from fe_query [OF s1(3,2) _ s1(7,5) cq(1,2)] c1 q(3,4) s1(9-11) no obtain s2 where
    s2: "hc_next s1 = Some s2" "hc_pc s2 = BE" "session_ok s2" "same_conns s1 s2" "befd s2 = ?r" "in_txn s2 = 0"
    "be s2 = be s1" "asked s2 = []" "log_of s2 = log_of s1 @ q"
    "\<forall>x. out_of s2 x = out_of s1 x @ (if x = ?r then q else [])"
    "\<forall>x. x \<noteq> cn_fd (frontend s1) \<longrightarrow> answers s2 x = answers s1 x \<and> rdq (hc_world s2) x = rdq (hc_world s1) x"
    using cq(3,4) s1(6) by auto
  have c2: "reader s2 = reader s" "writer s2 = writer s" "frontend s2 = frontend s"
    using s2(4) c1 by (simp_all add: same_conns_def)
  have r2: "rdq (hc_world s2) (cn_fd (reader s2)) = Chunk (error_msg fs @ rfq0) # qs"
    using s2(11) c1 c2 ne s1(15) r by simp
  from be_reroute [OF s2(3,2) _ _ _ s2(8) fs z0 _ l(2) r2] s2(5,7) s1(8,14) idle c2 l(1) lb obtain s3 where
    s3: "hc_next s2 = Some s3" "hc_pc s3 = BE" "session_base s3" "same_conns s2 s3"
    "infd (be s3) = ?wr" "in_txn s3 = 0" "asked s3 = []" "log_of s3 = []"
    "\<forall>x. out_of s3 x = out_of s2 x @ (if x = ?wr then log_of s2 else [])"
    "answers s3 ?wr = answers s2 ?wr"
    using s2(6) by auto
  have c3: "reader s3 = reader s" "writer s3 = writer s" "frontend s3 = frontend s"
    using s3(4) c2 by (simp_all add: same_conns_def)
  have a3: "answers s3 ?wr = concat ms @ rfq @ rest"
    using s3(10) s2(11) s1(13) a ne c1 by simp
  from be_messages [OF s3(3,2), of ?wr ms rfq rest] ms z a3 s3(5) c3 obtain s4 where
    s4: "hc_reach s3 s4" "hc_pc s4 = TOP" "session_base s4" "same_conns s3 s4" "in_txn s4 = 0" "asked s4 = []"
    "log_of s4 = []" "answers s4 ?wr = rest"
    "\<forall>x. out_of s4 x = out_of s3 x @ (if x = cn_fd (frontend s3) then concat ms @ rfq else [])"
    using s3(6,7,8) by auto
  have "hc_reach s s4"
    using s1(1) s2(1) s3(1) s4(1) by (meson converse_rtranclp_into_rtranclp hc_step.step)
  then show ?thesis
    using s1 s2 s3 s4 c3 ne
      same_conns_trans [OF same_conns_trans [OF same_conns_trans [OF s1(4) s2(4)] s3(4)] s4(4)]
    by (intro exI [of _ s4]) auto
qed

end
