(* ===== verification/MD5_Block.thy ===== *)
theory MD5_Block
  imports MD5
begin

text \<open>
  The block function of \<^verbatim>\<open>src/md5.c\<close>: its 64 unrolled steps, with the optimised round
  functions and the rotating registers, compute the loop of RFC 1321.
\<close>

section \<open>The reference block function\<close>

definition ref_f :: "nat \<Rightarrow> u32 \<Rightarrow> u32 \<Rightarrow> u32 \<Rightarrow> u32" where
  "ref_f i b c d =
     (if i < 16 then (b AND c) OR (NOT b AND d)
      else if i < 32 then (b AND d) OR (c AND NOT d)
      else if i < 48 then b XOR c XOR d
      else c XOR (b OR NOT d))"

definition ref_k :: "nat \<Rightarrow> nat" where
  "ref_k i = (if i < 16 then i
              else if i < 32 then (5 * i + 1) mod 16
              else if i < 48 then (3 * i + 5) mod 16
              else (7 * i) mod 16)"

definition ref_s :: "nat \<Rightarrow> nat" where
  "ref_s i = [7, 12, 17, 22, 5, 9, 14, 20, 4, 11, 16, 23, 6, 10, 15, 21] ! (4 * (i div 16) + i mod 4)"

definition ref_T :: "u32 list" where
  "ref_T = [
     0xd76aa478, 0xe8c7b756, 0x242070db, 0xc1bdceee, 0xf57c0faf, 0x4787c62a,
     0xa8304613, 0xfd469501, 0x698098d8, 0x8b44f7af, 0xffff5bb1, 0x895cd7be,
     0x6b901122, 0xfd987193, 0xa679438e, 0x49b40821, 0xf61e2562, 0xc040b340,
     0x265e5a51, 0xe9b6c7aa, 0xd62f105d, 0x02441453, 0xd8a1e681, 0xe7d3fbc8,
     0x21e1cde6, 0xc33707d6, 0xf4d50d87, 0x455a14ed, 0xa9e3e905, 0xfcefa3f8,
     0x676f02d9, 0x8d2a4c8a, 0xfffa3942, 0x8771f681, 0x6d9d6122, 0xfde5380c,
     0xa4beea44, 0x4bdecfa9, 0xf6bb4b60, 0xbebfbc70, 0x289b7ec6, 0xeaa127fa,
     0xd4ef3085, 0x04881d05, 0xd9d4d039, 0xe6db99e5, 0x1fa27cf8, 0xc4ac5665,
     0xf4292244, 0x432aff97, 0xab9423a7, 0xfc93a039, 0x655b59c3, 0x8f0ccc92,
     0xffeff47d, 0x85845dd1, 0x6fa87e4f, 0xfe2ce6e0, 0xa3014314, 0x4e0811a1,
     0xf7537e82, 0xbd3af235, 0x2ad7d2bb, 0xeb86d391]"

fun ref_step :: "(nat \<Rightarrow> u32) \<Rightarrow> nat \<Rightarrow> quad \<Rightarrow> quad" where
  "ref_step x i (a, b, c, d) =
     (d, b + word_rotl (ref_s i) (a + ref_f i b c d + x (ref_k i) + ref_T ! i), b, c)"

definition ref_block :: "bytes \<Rightarrow> quad \<Rightarrow> quad" where
  "ref_block ptr q =
     (case q of (a0, b0, c0, d0) \<Rightarrow>
        (case fold (ref_step (SET ptr)) [0..<64] q of
           (a, b, c, d) \<Rightarrow> (a0 + a, b0 + b, c0 + c, d0 + d)))"

section \<open>The unrolled steps are the reference loop\<close>

lemma and_all_ones: "(x :: u32) AND 0xffffffff = x"
proof -
  have "(0xffffffff :: u32) = -1" by simp
  then show ?thesis by (simp only: and.right_neutral)
qed

lemma rotl_word_rotl:
  fixes x :: u32
  assumes s: "s < 32"
  shows "rotl s x = word_rotl s x"
proof (rule bit_word_eqI)
  fix n assume "n < LENGTH(32)"
  then have n: "n < 32" by simp
  have len: "bit x k \<Longrightarrow> k < 32" for k
    using bit_imp_le_length [of x k] by (simp del: numeral_eq_Suc)
  have "bit (rotl s x) n \<longleftrightarrow> (s \<le> n \<and> bit x (n - s)) \<or> bit x (n + (32 - s))"
    using n by (simp add: rotl_def and_all_ones bit_or_iff bit_push_bit_iff bit_drop_bit_eq
        add.commute [of n])
  also have "\<dots> \<longleftrightarrow> (s \<le> n \<and> bit x (n - s)) \<or> (n + (32 - s) < 32 \<and> bit x (n + (32 - s)))"
    using len by blast
  also have "\<dots> \<longleftrightarrow> bit x ((n + (32 - s)) mod 32)"
  proof (cases "s \<le> n")
    case True
    then have "(n + (32 - s)) mod 32 = n - s" using n s by (simp add: mod_if)
    then show ?thesis using True s n by auto
  next
    case False
    then have "n + (32 - s) < 32" using s by arith
    then show ?thesis using False by simp
  qed
  also have "\<dots> \<longleftrightarrow> bit (word_rotl s x) n"
    using n s by (simp add: bit_word_rotl_iff)
  finally show "bit (rotl s x) n = bit (word_rotl s x) n" .
qed

definition step_f :: "nat \<Rightarrow> u32 \<Rightarrow> u32 \<Rightarrow> u32 \<Rightarrow> u32" where
  "step_f i = (if i < 16 then F else if i < 32 then G
               else if i < 48 then (if even i then H else H2) else I)"

lemma step_f_ref: "step_f i b c d = ref_f i b c d"
  by (intro bit_word_eqI)
     (auto simp: step_f_def ref_f_def F_def G_def H_def H2_def I_def bit_simps)

text \<open>The registers of the step number \<open>i\<close>, target first.\<close>

definition turn :: "nat \<Rightarrow> reg \<times> reg \<times> reg \<times> reg" where
  "turn i = (if i mod 4 = 0 then (RA, RB, RC, RD) else if i mod 4 = 1 then (RD, RA, RB, RC)
             else if i mod 4 = 2 then (RC, RD, RA, RB) else (RB, RC, RD, RA))"

definition step_of :: "nat \<times> u32 \<Rightarrow> step" where
  "step_of it = (case it of (i, t) \<Rightarrow> case turn i of (p, q, r, s) \<Rightarrow>
                  STEP (step_f i) p q r s (ref_k i) t (ref_s i))"

lemma upt_64: "[0..<64] =
  [0, 1, 2, 3, 4, 5, 6, 7, 8, 9, 10, 11, 12, 13, 14, 15, 16, 17, 18, 19,
   20, 21, 22, 23, 24, 25, 26, 27, 28, 29, 30, 31, 32, 33, 34, 35, 36, 37, 38, 39,
   40, 41, 42, 43, 44, 45, 46, 47, 48, 49, 50, 51, 52, 53, 54, 55, 56, 57, 58, 59, 60, 61, 62, 63]"
  by code_simp

lemma body_steps_zip: "body_steps = map step_of (zip [0..<64] ref_T)"
  unfolding upt_64 body_steps_def ref_T_def zip_Cons_Cons zip_Nil list.map list.inject
    step_of_def prod.case
  by (intro conjI refl; simp add: turn_def step_f_def ref_k_def ref_s_def)

lemma body_steps_table: "body_steps = map (\<lambda>i. step_of (i, ref_T ! i)) [0..<64]"
proof -
  have "length ref_T = 64" by (simp add: ref_T_def)
  then have "zip [0..<64] ref_T = map (\<lambda>i. (i, ref_T ! i)) [0..<64]"
    by (intro nth_equalityI) simp_all
  then show ?thesis by (simp add: body_steps_zip)
qed

definition view :: "nat \<Rightarrow> quad \<Rightarrow> quad" where
  "view i v = (case turn i of (p, q, r, s) \<Rightarrow> (rget v p, rget v q, rget v r, rget v s))"

lemma ref_s_small: "i < 64 \<Longrightarrow> ref_s i < 32"
proof -
  let ?l = "[7, 12, 17, 22, 5, 9, 14, 20, 4, 11, 16, 23, 6, 10, 15, 21] :: nat list"
  assume "i < 64"
  then have "i div 16 < 4" by (simp add: less_mult_imp_div_less)
  moreover have "i mod 4 < 4" by simp
  ultimately have "4 * (i div 16) + i mod 4 < length ?l" by simp
  then have "?l ! (4 * (i div 16) + i mod 4) \<in> set ?l" by (rule nth_mem)
  moreover have "\<forall>v\<in>set ?l. v < 32" by simp
  ultimately show ?thesis unfolding ref_s_def by blast
qed

lemma step_view: "i < 64 \<Longrightarrow> view (Suc i) (exec_step x (step_of (i, ref_T ! i)) v) = ref_step x i (view i v)"
proof -
  assume "i < 64"
  then have r: "rotl (ref_s i) w = word_rotl (ref_s i) w" for w
    by (simp add: rotl_word_rotl ref_s_small)
  obtain a b c d where v: "v = (a, b, c, d)" by (cases v)
  consider "i mod 4 = 0" "Suc i mod 4 = 1" | "i mod 4 = 1" "Suc i mod 4 = 2"
    | "i mod 4 = 2" "Suc i mod 4 = 3" | "i mod 4 = 3" "Suc i mod 4 = 0"
    by (simp add: mod_Suc) linarith
  then show ?thesis
    by cases (simp_all add: view_def step_of_def turn_def v r Let_def step_f_ref add_ac)
qed

lemma steps_view:
  "n \<le> 64 \<Longrightarrow> view n (fold (exec_step x) (map (\<lambda>i. step_of (i, ref_T ! i)) [0..<n]) v) = fold (ref_step x) [0..<n] (view 0 v)"
proof (induction n)
  case (Suc n)
  then show ?case by (simp add: step_view)
qed simp

lemma view_id: "view 0 v = v" "view 64 v = v"
  by (cases v; simp add: view_def turn_def)+

lemma body_block_ref: "body_block ptr q = ref_block ptr q"
  using steps_view [of 64 "SET ptr" q]
  by (simp add: body_block_def ref_block_def body_steps_table view_id add.commute split: prod.splits)


section \<open>Blocks\<close>

lemma SET_append: "n * 4 + 3 < length s \<Longrightarrow> SET (s @ t) n = SET s n"
  by (simp add: SET_def nth_append)

lemma exec_step_cong: "k < 16 \<Longrightarrow> (\<And>n. n < 16 \<Longrightarrow> x n = y n) \<Longrightarrow>
    exec_step x (STEP f a b c d k t s) v = exec_step y (STEP f a b c d k t s) v"
  by (simp add: Let_def)

lemma ref_k_small: "i < 64 \<Longrightarrow> ref_k i < 16"
  by (simp add: ref_k_def)

lemma ref_steps_cong:
  "n \<le> 64 \<Longrightarrow> (\<And>k. k < 16 \<Longrightarrow> x k = y k) \<Longrightarrow> fold (ref_step x) [0..<n] v = fold (ref_step y) [0..<n] v"
proof (induction n)
  case (Suc n)
  then have "x (ref_k n) = y (ref_k n)" using ref_k_small [of n] by simp
  then show ?case using Suc by (cases "fold (ref_step y) [0..<n] v") simp
qed simp

lemma body_block_append: "64 \<le> length s \<Longrightarrow> body_block (s @ t) q = body_block s q"
proof -
  assume "64 \<le> length s"
  then have "fold (ref_step (SET (s @ t))) [0..<64] q = fold (ref_step (SET s)) [0..<64] q"
    by (intro ref_steps_cong) (auto intro!: SET_append)
  then show ?thesis by (simp add: body_block_ref ref_block_def)
qed

lemma body_loop_append: "64 * n \<le> length s \<Longrightarrow> body_loop n (s @ t) q = body_loop n s q"
  by (induction n arbitrary: s q) (simp_all add: body_block_append)

lemma body_loop_add:
  "length s = 64 * n \<Longrightarrow> body_loop (n + k) (s @ t) q = body_loop k t (body_loop n s q)"
  by (induction n arbitrary: s q) (simp_all add: body_block_append)

end
