(* ===== verification/MD5_Laws.thy ===== *)
theory MD5_Laws
  imports MD5_Block
begin

text \<open>
  Correctness of the digest: the streaming update depends only on the octets given so far,
  and the output is the hexadecimal form of the reference digest of the whole message.
\<close>

section \<open>The reference digest\<close>

definition md5_iv :: quad where
  "md5_iv = (0x67452301, 0xefcdab89, 0x98badcfe, 0x10325476)"

fun ref_blocks :: "nat \<Rightarrow> bytes \<Rightarrow> quad \<Rightarrow> quad" where
  "ref_blocks 0 ptr q = q"
| "ref_blocks (Suc n) ptr q = ref_blocks n (drop 64 ptr) (ref_block (take 64 ptr) q)"

definition md5_pad :: "bytes \<Rightarrow> bytes" where
  "md5_pad m = m @ byte_of 0x80 # replicate ((119 - length m mod 64) mod 64) NUL
                 @ le32 (of_nat (8 * length m)) @ le32 (of_nat (8 * length m div 2 ^ 32))"

definition hex_of :: "bytes \<Rightarrow> bytes" where
  "hex_of bs = concat (map (\<lambda>c. [hex_digit (uchar c div 16), hex_digit (uchar c mod 16)]) bs)"

definition md5_digest :: "bytes \<Rightarrow> bytes" where
  "md5_digest m = (case ref_blocks (length (md5_pad m) div 64) (md5_pad m) md5_iv of
     (a, b, c, d) \<Rightarrow> hex_of (le32 a @ le32 b @ le32 c @ le32 d))"

lemma body_loop_ref: "64 * n \<le> length p \<Longrightarrow> body_loop n p q = ref_blocks n p q"
proof (induction n arbitrary: p q)
  case (Suc n)
  then have "64 \<le> length (take 64 p)" by simp
  from body_block_append [OF this, of "drop 64 p" q]
  have "body_block p q = ref_block (take 64 p) q" by (simp add: body_block_ref)
  with Suc show ?case by simp
qed simp

lemma length_le32 [simp]: "length (le32 w) = 4"
  by (simp add: le32_def)

lemma pad_zeros:
  fixes r :: nat
  assumes "r < 64"
  shows "(119 - r) mod 64 = (if r < 56 then 55 - r else 119 - r)"
proof (cases "r < 56")
  case True
  then have "119 - r = (55 - r) + 64" by simp
  then have "(119 - r) mod 64 = (55 - r) mod 64" by (simp only: mod_add_self2)
  then show ?thesis using True by simp
qed (use assms in simp)

lemma length_md5_pad:
  "length (md5_pad m) = 64 * (length m div 64 + (if length m mod 64 < 56 then 1 else 2))"
proof -
  define n r where "n = length m div 64" and "r = length m mod 64"
  have "r < 64" and "length m = 64 * n + r" by (simp_all add: n_def r_def)
  then show ?thesis
    unfolding md5_pad_def n_def [symmetric] r_def [symmetric] by (simp add: pad_zeros)
qed

section \<open>What a context stands for\<close>

definition quad_of :: "md5 \<Rightarrow> quad" where
  "quad_of ctx = (md_a ctx, md_b ctx, md_c ctx, md_d ctx)"

text \<open>
  \<open>md5_data q buf m\<close>: after the octets \<open>m\<close> the chaining value is \<open>q\<close> and the octets that do
  not fill a block stand at the front of \<open>buf\<close>. \<open>md5_rep ctx m\<close> adds the octet count, of
  which the context keeps 29 bits in one word and the rest in the other.
\<close>

definition md5_data :: "quad \<Rightarrow> bytes \<Rightarrow> bytes \<Rightarrow> bool" where
  "md5_data q buf m \<longleftrightarrow>
     q = body_loop (length m div 64) m md5_iv \<and> length buf = 64 \<and>
     take (length m mod 64) buf = drop (64 * (length m div 64)) m"

definition md5_rep :: "md5 \<Rightarrow> bytes \<Rightarrow> bool" where
  "md5_rep ctx m \<longleftrightarrow>
     md5_data (quad_of ctx) (md_buf ctx) m \<and>
     md_lo ctx = of_nat (length m mod 2 ^ 29) \<and> md_hi ctx = of_nat (length m div 2 ^ 29)"

lemma data_short:
  assumes d: "md5_data q buf m" and fits: "length m mod 64 + length dat < 64"
  shows "md5_data q (blit (length m mod 64) dat buf) (m @ dat)"
proof -
  define n r where "n = length m div 64" and "r = length m mod 64"
  have m: "length m = 64 * n + r" by (simp add: n_def r_def)
  have "64 * n + r + length dat = (r + length dat) + n * 64" by simp
  moreover have "r + length dat < 64" using fits by (simp add: r_def)
  ultimately have "length (m @ dat) div 64 = n" "length (m @ dat) mod 64 = r + length dat"
    using m by (simp_all only: length_append div_mult_self3 mod_mult_self1) simp_all
  then show ?thesis
    using d fits m unfolding md5_data_def n_def [symmetric] r_def [symmetric]
    by (simp add: body_loop_append blit_def)
qed

lemma data_fill:
  assumes d: "md5_data q buf m" and full: "length m mod 64 + length dat = 64"
    and b: "b = take (length m mod 64) buf @ dat"
  shows "md5_data (body_block b q) b (m @ dat)" and "length (m @ dat) mod 64 = 0"
proof -
  define n r where "n = length m div 64" and "r = length m mod 64"
  have m: "length m = 64 * n + r" by (simp add: n_def r_def)
  have len: "length (m @ dat) = 64 * (n + 1)" using m full unfolding r_def [symmetric] by simp
  have q: "q = body_loop n (take (64 * n) m) md5_iv"
  proof -
    have "body_loop n (take (64 * n) m @ drop (64 * n) m) md5_iv = body_loop n (take (64 * n) m) md5_iv"
      by (rule body_loop_append) (simp add: n_def)
    then show ?thesis using d by (simp only: append_take_drop_id md5_data_def n_def)
  qed
  have bm: "b = drop (64 * n) m @ dat" using d b by (simp add: md5_data_def n_def)
  have split: "m @ dat = take (64 * n) m @ b" by (simp add: bm)
  have "body_loop (n + 1) (m @ dat) md5_iv = body_loop 1 b q"
    unfolding split q by (rule body_loop_add) (use m in simp)
  then have "body_block b q = body_loop (n + 1) (m @ dat) md5_iv" by simp
  moreover have "length b = 64"
  proof -
    have "length buf = 64" using d by (simp add: md5_data_def)
    then show ?thesis using full by (simp add: b)
  qed
  moreover have "drop (64 * (n + 1)) (m @ dat) = []" using len by simp
  moreover have dm: "length (m @ dat) div 64 = n + 1" "length (m @ dat) mod 64 = 0"
    unfolding len by simp_all
  ultimately show "md5_data (body_block b q) b (m @ dat)"
    unfolding md5_data_def by (simp only: take_0)
  show "length (m @ dat) mod 64 = 0" by (rule dm)
qed

lemma data_blocks:
  assumes d: "md5_data q buf m" and whole: "length m mod 64 = 0"
    and n: "n = length dat div 64"
  shows "md5_data (body_loop n dat q) (blit 0 (drop (64 * n) dat) buf) (m @ dat)"
proof -
  define j where "j = length m div 64"
  have m: "length m = 64 * j" using whole mult_div_mod_eq [of 64 "length m"] unfolding j_def by linarith
  have "length (m @ dat) div 64 = j + n" "length (m @ dat) mod 64 = length dat mod 64"
    using m by (simp_all add: n)
  moreover have "length dat mod 64 + 64 * n = length dat" by (simp add: n)
  moreover have "body_loop (j + n) (m @ dat) md5_iv = body_loop n dat q"
    using d m by (simp add: body_loop_add md5_data_def)
  ultimately show ?thesis
    using d m unfolding md5_data_def by (simp add: blit_def)
qed

lemma body_fields:
  "quad_of (body ctx p n) = body_loop n p (quad_of ctx)" "md_buf (body ctx p n) = md_buf ctx"
  "md_lo (body ctx p n) = md_lo ctx" "md_hi (body ctx p n) = md_hi ctx"
  by (simp_all add: body_def quad_of_def split: prod.splits)

lemma md5_rep_init: "length (md_buf ctx) = 64 \<Longrightarrow> md5_rep (pgr_md5_init ctx) []"
  by (simp add: md5_rep_def md5_data_def pgr_md5_init_def quad_of_def md5_iv_def)

lemma unat_low29: "unat (of_nat (n mod 2 ^ 29) :: u32) = n mod 2 ^ 29"
proof -
  have "n mod 2 ^ 29 < 2 ^ 29" by simp
  then have "n mod 2 ^ 29 < 2 ^ 32" by (rule less_trans) simp
  then show ?thesis by (simp add: unsigned_of_nat take_bit_nat_eq_self)
qed

lemma low6: "unat ((w :: u32) AND 0x3f) = unat w mod 64"
proof -
  have "(0x3f :: u32) = mask 6" by (simp add: mask_eq_exp_minus_1)
  then have "w AND 0x3f = take_bit 6 w" by (simp only: take_bit_eq_mask)
  then have "unat (w AND 0x3f) = take_bit 6 (unat w)" by (simp only: unsigned_take_bit_eq)
  then show ?thesis by (simp add: take_bit_eq_mod)
qed

lemma used_mod: "md_lo ctx = of_nat (n mod 2 ^ 29) \<Longrightarrow> unat (md_lo ctx AND 0x3f) = n mod 64"
proof -
  assume a: "md_lo ctx = of_nat (n mod 2 ^ 29)"
  have "unat (md_lo ctx AND 0x3f) = unat (md_lo ctx) mod 64" by (rule low6)
  also have "unat (md_lo ctx) = n mod 2 ^ 29"
    unfolding a by (rule unat_low29)
  finally show ?thesis by (simp add: mod_mod_cancel)
qed

lemma carry_div:
  fixes n k B :: nat
  assumes "0 < B"
  shows "n div B + (if (n mod B + k) mod B < n mod B then 1 else 0) + k div B = (n + k) div B"
proof -
  define s t where "s = n mod B" and "t = k mod B"
  have st: "s < B" "t < B" using assms by (simp_all add: s_def t_def)
  have "(n + k) div B = n div B + k div B + (s + t) div B"
    unfolding s_def t_def by (rule div_add1_eq)
  moreover have "(s + k) mod B = (s + t) mod B" unfolding t_def by (simp add: mod_add_right_eq)
  moreover have "(s + t) div B = (if (s + t) mod B < s then 1 else 0)"
  proof (cases "s + t < B")
    case False
    then have "(s + t) div B = 1" "(s + t) mod B = s + t - B"
      using st by (simp_all add: div_if mod_if)
    then show ?thesis using st False by simp
  qed simp
  ultimately show ?thesis unfolding s_def [symmetric] by simp
qed

text \<open>The 29-bit low counter with its carry into the high word.\<close>

lemma counter_add:
  fixes n k :: nat and saved :: u32
  assumes saved: "saved = of_nat (n mod 2 ^ 29)" and k: "k < 2 ^ 64"
  defines "lo \<equiv> ucast ((ucast saved + of_nat k :: u64) AND 0x1fffffff) :: u32"
  shows "lo = of_nat ((n + k) mod 2 ^ 29)"
    and "of_nat (n div 2 ^ 29) + (if lo < saved then 1 else 0) + ucast (drop_bit 29 (of_nat k :: u64))
         = (of_nat ((n + k) div 2 ^ 29) :: u32)"
proof -
  let ?s = "n mod 2 ^ 29"
  have sv: "unat saved = ?s"
    unfolding saved by (rule unat_low29)
  have sum: "(ucast saved + of_nat k :: u64) = of_nat (?s + k)"
  proof -
    have "(ucast saved :: u64) = of_nat (unat saved)" by (simp only: of_nat_unat)
    then show ?thesis unfolding sv by (simp only: of_nat_add)
  qed
  have low: "unat (ucast (w AND 0x1fffffff) :: u32) = take_bit 29 (unat w)" for w :: u64
  proof -
    have "(0x1fffffff :: u64) = mask 29" by (simp add: mask_eq_exp_minus_1)
    then have "w AND 0x1fffffff = take_bit 29 w" by (simp only: take_bit_eq_mask)
    then show ?thesis by (simp add: unsigned_ucast_eq unsigned_take_bit_eq)
  qed
  have "unat (of_nat (?s + k) :: u64) = take_bit 64 (?s + k)"
    by (simp only: unsigned_of_nat) simp
  then have u: "unat (ucast ((ucast saved + of_nat k :: u64) AND 0x1fffffff) :: u32) = (?s + k) mod 2 ^ 29"
    unfolding sum low by (simp only: take_bit_take_bit) (simp add: take_bit_eq_mod)
  then have lo: "unat lo = (?s + k) mod 2 ^ 29" unfolding lo_def .
  have "lo = of_nat (unat lo)" by (simp only: of_nat_unat ucast_id)
  then show "lo = of_nat ((n + k) mod 2 ^ 29)"
    unfolding lo by (simp only: mod_add_left_eq)
  have less: "lo < saved \<longleftrightarrow> (?s + k) mod 2 ^ 29 < ?s"
    by (simp only: word_less_nat_alt lo sv)
  have "unat (drop_bit 29 (of_nat k :: u64)) = k div 2 ^ 29"
  proof -
    have "unat (of_nat k :: u64) = k" using k by (simp add: unsigned_of_nat take_bit_nat_eq_self)
    then have "unat (drop_bit 29 (of_nat k :: u64)) = drop_bit 29 k"
      by (simp only: unat_drop_bit_eq)
    then show ?thesis by (simp only: drop_bit_eq_div [where 'a = nat])
  qed
  then have hi: "ucast (drop_bit 29 (of_nat k :: u64)) = (of_nat (k div 2 ^ 29) :: u32)"
    by (metis of_nat_unat)
  show "of_nat (n div 2 ^ 29) + (if lo < saved then 1 else 0) + ucast (drop_bit 29 (of_nat k :: u64))
         = (of_nat ((n + k) div 2 ^ 29) :: u32)"
    unfolding less hi carry_div [of "2 ^ 29" n k, symmetric, OF zero_less_power [OF zero_less_numeral]]
    by simp
qed

section \<open>The streaming update\<close>

lemma update_counters:
  "md_lo (pgr_md5_update ctx dat) = ucast ((ucast (md_lo ctx) + of_nat (length dat) :: u64) AND 0x1fffffff)"
  "md_hi (pgr_md5_update ctx dat) =
     md_hi ctx + (if md_lo (pgr_md5_update ctx dat) < md_lo ctx then 1 else 0)
       + ucast (drop_bit 29 (of_nat (length dat) :: u64))"
  by (simp_all add: pgr_md5_update_def Let_def body_fields)

text \<open>The part of an update after the pending block is complete.\<close>

definition absorb :: "md5 \<Rightarrow> bytes \<Rightarrow> md5" where
  "absorb ctx dat =
     (let n = length dat div 64; c = (if 64 \<le> length dat then body ctx dat n else ctx)
      in c\<lparr>md_buf := blit 0 (if 64 \<le> length dat then drop (64 * n) dat else dat) (md_buf c)\<rparr>)"

lemma absorb_fields:
  "quad_of (absorb ctx dat) = body_loop (length dat div 64) dat (quad_of ctx)"
  "md_buf (absorb ctx dat) = blit 0 (drop (64 * (length dat div 64)) dat) (md_buf ctx)"
proof -
  have q: "quad_of (c\<lparr>md_buf := b\<rparr>) = quad_of c" for c b by (simp add: quad_of_def)
  show "quad_of (absorb ctx dat) = body_loop (length dat div 64) dat (quad_of ctx)"
    by (simp add: absorb_def Let_def body_fields q)
  show "md_buf (absorb ctx dat) = blit 0 (drop (64 * (length dat div 64)) dat) (md_buf ctx)"
    by (simp add: absorb_def Let_def body_fields)
qed

lemma absorb_data:
  "md5_data (quad_of ctx) (md_buf ctx) m \<Longrightarrow> length m mod 64 = 0 \<Longrightarrow>
   md5_data (quad_of (absorb ctx dat)) (md_buf (absorb ctx dat)) (m @ dat)"
  unfolding absorb_fields by (rule data_blocks) simp_all

lemma update_absorb:
  fixes ctx :: md5
  defines "used \<equiv> unat (md_lo ctx AND 0x3f)"
  shows "pgr_md5_update ctx dat =
    (let ctx1 = ctx\<lparr>md_lo := md_lo (pgr_md5_update ctx dat), md_hi := md_hi (pgr_md5_update ctx dat)\<rparr>
     in if used = 0 then absorb ctx1 dat
        else if length dat < 64 - used then ctx1\<lparr>md_buf := blit used dat (md_buf ctx1)\<rparr>
        else let c = ctx1\<lparr>md_buf := blit used (take (64 - used) dat) (md_buf ctx1)\<rparr>
             in absorb (body c (md_buf c) 1) (drop (64 - used) dat))"
  unfolding update_counters
  by (simp add: pgr_md5_update_def absorb_def used_def Let_def)

lemma update_data:
  assumes d: "md5_data (quad_of ctx) (md_buf ctx) m" and u: "unat (md_lo ctx AND 0x3f) = length m mod 64"
  shows "md5_data (quad_of (pgr_md5_update ctx dat)) (md_buf (pgr_md5_update ctx dat)) (m @ dat)"
proof -
  define r where "r = length m mod 64"
  have r: "r < 64" by (simp add: r_def)
  have buf: "length (md_buf ctx) = 64" using d by (simp add: md5_data_def)
  define ctx1 where "ctx1 = ctx\<lparr>md_lo := md_lo (pgr_md5_update ctx dat), md_hi := md_hi (pgr_md5_update ctx dat)\<rparr>"
  have c1: "md_buf ctx1 = md_buf ctx" "quad_of ctx1 = quad_of ctx"
    by (simp_all add: ctx1_def quad_of_def)
  note upd = update_absorb [of ctx dat, unfolded u, folded r_def ctx1_def, unfolded Let_def, folded ctx1_def]
  consider "r \<noteq> 0" "length dat < 64 - r" | "r \<noteq> 0" "64 - r \<le> length dat" | "r = 0" by arith
  then show ?thesis
  proof cases
    case 1
    have "quad_of (ctx1\<lparr>md_buf := b\<rparr>) = quad_of ctx" for b by (simp add: ctx1_def quad_of_def)
    with 1 show ?thesis
      using data_short [OF d, of dat] by (subst (1 2) upd) (simp add: r_def [symmetric] c1)
  next
    case 2
    define b where "b = blit r (take (64 - r) dat) (md_buf ctx)"
    have b: "b = take r (md_buf ctx) @ take (64 - r) dat"
      using r buf 2 by (simp add: b_def blit_def)
    have len: "length m mod 64 + length (take (64 - r) dat) = 64" using r 2 by (simp add: r_def)
    define c where "c = body (ctx1\<lparr>md_buf := b\<rparr>) b 1"
    have c: "quad_of c = body_block b (quad_of ctx)" "md_buf c = b"
      by (simp_all add: c_def body_fields) (simp add: quad_of_def ctx1_def)
    have "md5_data (quad_of c) (md_buf c) (m @ take (64 - r) dat)"
      "length (m @ take (64 - r) dat) mod 64 = 0"
      unfolding c using data_fill [OF d len] b by (simp_all add: r_def)
    from absorb_data [OF this, of "drop (64 - r) dat"] 2 show ?thesis
      by (subst (1 2) upd) (simp add: c1 c_def b_def)
  next
    case 3
    then show ?thesis
      using absorb_data [of ctx1 m dat] d by (subst (1 2) upd) (simp add: c1 r_def)
  qed
qed

theorem md5_rep_update:
  assumes rep: "md5_rep ctx m" and small: "length dat < 2 ^ 64"
  shows "md5_rep (pgr_md5_update ctx dat) (m @ dat)"
proof -
  from rep have lo: "md_lo ctx = of_nat (length m mod 2 ^ 29)" and hi: "md_hi ctx = of_nat (length m div 2 ^ 29)"
    and d: "md5_data (quad_of ctx) (md_buf ctx) m" by (simp_all add: md5_rep_def)
  show ?thesis
    unfolding md5_rep_def
    using update_data [OF d used_mod [OF lo]] counter_add [OF lo small] hi
    by (simp add: update_counters del: power.simps)
qed

section \<open>The output\<close>

lemma counter_bits:
  "push_bit 3 (of_nat (n mod 2 ^ 29)) = (of_nat (8 * n) :: u32)"
  "8 * n div 2 ^ 32 = n div 2 ^ 29"
proof -
  have "push_bit 3 (of_nat (n mod 2 ^ 29)) = (of_nat (8 * (n mod 2 ^ 29)) :: u32)"
    by (simp add: push_bit_eq_mult)
  also have "8 * (n mod 2 ^ 29) = (8 * n) mod 2 ^ 32"
    using mult_mod_right [of 8 n "2 ^ 29"] by simp
  also have "(of_nat ((8 * n) mod 2 ^ 32) :: u32) = of_nat (8 * n)"
    by (simp only: word_of_nat_eq_iff take_bit_eq_mod) simp
  finally show "push_bit 3 (of_nat (n mod 2 ^ 29)) = (of_nat (8 * n) :: u32)" .
  have "8 * n div 2 ^ 32 = (8 * n) div (8 * 2 ^ 29)" by simp
  also have "\<dots> = n div 2 ^ 29" by (rule div_mult_mult1) simp
  finally show "8 * n div 2 ^ 32 = n div 2 ^ 29" .
qed

definition quad_bytes :: "quad \<Rightarrow> bytes" where
  "quad_bytes q = (case q of (a, b, c, d) \<Rightarrow> le32 a @ le32 b @ le32 c @ le32 d)"

lemma quad_bytes_of: "le32 (md_a c) @ le32 (md_b c) @ le32 (md_c c) @ le32 (md_d c) = quad_bytes (quad_of c)"
  by (simp add: quad_bytes_def quad_of_def)

lemma blit_tail:
  "length b = 64 \<Longrightarrow> blit 60 (le32 y) (blit 56 (le32 x) b) = take 56 b @ le32 x @ le32 y"
  by (simp add: blit_def)

lemma raw_unfold:
  fixes ctx :: md5
  defines "used \<equiv> unat (md_lo ctx AND 0x3f)"
    and "len8 \<equiv> le32 (push_bit 3 (md_lo ctx)) @ le32 (md_hi ctx)"
  assumes buf: "length (md_buf ctx) = 64"
  shows "fst (pgr_md5_raw ctx) = quad_bytes
    (let front = take used (md_buf ctx) @ [byte_of 0x80]
     in if used < 56 then body_block (front @ replicate (55 - used) NUL @ len8) (quad_of ctx)
        else body_block (replicate 56 NUL @ len8)
               (body_block (front @ replicate (63 - used) NUL) (quad_of ctx)))"
proof -
  have u: "used < 64" by (simp add: used_def low6)
  have upd: "(md_buf ctx)[used := x] = take used (md_buf ctx) @ x # drop (used + 1) (md_buf ctx)" for x
    using u buf by (simp add: upd_conv_take_nth_drop)
  have q: "quad_of (c\<lparr>md_buf := b\<rparr>) = quad_of c" "quad_of (c\<lparr>md_lo := l\<rparr>) = quad_of c"
    for c b l by (simp_all add: quad_of_def)
  show ?thesis
  proof (cases "used < 56")
    case True
    then have "\<not> 64 - (used + 1) < 8" by arith
    moreover have "take 56 (blit (used + 1) (replicate (64 - (used + 1) - 8) NUL) ((md_buf ctx)[used := byte_of 0x80]))
        = take used (md_buf ctx) @ [byte_of 0x80] @ replicate (55 - used) NUL"
    proof -
      have "56 - used = Suc (55 - used)" using True by arith
      then show ?thesis using True buf by (simp add: upd blit_def)
    qed
    ultimately show ?thesis using True u buf
      by (simp add: pgr_md5_raw_def Let_def quad_bytes_of used_def [symmetric] body_fields q blit_tail
          len8_def del: append_assoc) simp
  next
    case False
    then have "64 - (used + 1) < 8" using u by arith
    then show ?thesis using False u buf
      by (simp add: pgr_md5_raw_def Let_def quad_bytes_of used_def [symmetric] body_fields q blit_tail
          len8_def upd) (simp add: blit_def body_fields q)
  qed
qed

lemma raw_digest:
  assumes rep: "md5_rep ctx m"
  shows "pgr_md5_raw ctx =
    (quad_bytes (ref_blocks (length (md5_pad m) div 64) (md5_pad m) md5_iv), md5_zero)"
proof -
  define r where "r = length m mod 64"
  define len8 where "len8 = le32 (of_nat (8 * length m)) @ le32 (of_nat (8 * length m div 2 ^ 32))"
  from rep have lo: "md_lo ctx = of_nat (length m mod 2 ^ 29)" and hi: "md_hi ctx = of_nat (length m div 2 ^ 29)"
    and d: "md5_data (quad_of ctx) (md_buf ctx) m" by (simp_all add: md5_rep_def)
  have buf: "length (md_buf ctx) = 64" using d by (simp add: md5_data_def)
  have r: "r < 64" by (simp add: r_def)
  have len8: "le32 (push_bit 3 (md_lo ctx)) @ le32 (md_hi ctx) = len8" "length len8 = 8"
    by (simp_all only: len8_def lo hi counter_bits length_append length_le32)
  note raw = raw_unfold [OF buf, unfolded used_mod [OF lo] len8, folded r_def]
  have last: "md5_data q b (md5_pad m) \<Longrightarrow> quad_bytes q =
      quad_bytes (ref_blocks (length (md5_pad m) div 64) (md5_pad m) md5_iv)" for q b
    by (simp add: md5_data_def body_loop_ref)
  have "fst (pgr_md5_raw ctx) = quad_bytes (ref_blocks (length (md5_pad m) div 64) (md5_pad m) md5_iv)"
  proof (cases "r < 56")
    case True
    define dat where "dat = byte_of 0x80 # replicate (55 - r) NUL @ len8"
    have pad: "md5_pad m = m @ dat"
      using True by (simp add: md5_pad_def dat_def len8_def pad_zeros r_def)
    have "md5_data (body_block (take r (md_buf ctx) @ dat) (quad_of ctx)) (take r (md_buf ctx) @ dat) (m @ dat)"
      by (rule data_fill [OF d]) (use True len8 in \<open>simp_all add: dat_def r_def\<close>)
    from last [unfolded pad, OF this] show ?thesis
      using True by (simp add: raw pad Let_def dat_def)
  next
    case False
    define dat where "dat = byte_of 0x80 # replicate (63 - r) NUL"
    define tl where "tl = replicate 56 NUL @ len8"
    have pad: "md5_pad m = (m @ dat) @ tl"
    proof -
      have "119 - r = (63 - r) + 56" using False r by simp
      then have "replicate (119 - r) NUL = replicate (63 - r) NUL @ replicate 56 NUL"
        by (simp only: replicate_add)
      then show ?thesis
        using False r by (simp add: md5_pad_def dat_def tl_def len8_def pad_zeros flip: r_def)
    qed
    define b where "b = take r (md_buf ctx) @ dat"
    have full: "length m mod 64 + length dat = 64" using r False by (simp add: dat_def r_def)
    have b: "md5_data (body_block b (quad_of ctx)) b (m @ dat)" and m0: "length (m @ dat) mod 64 = 0"
      using data_fill [OF d full b_def [unfolded r_def]] by this+
    have "length (m @ dat) mod 64 + length tl = 64" using m0 len8 by (simp add: tl_def)
    from data_fill (1) [OF b this, of tl] m0
    have "md5_data (body_block tl (body_block b (quad_of ctx))) tl ((m @ dat) @ tl)" by simp
    from last [unfolded pad, OF this] show ?thesis
      using False by (simp add: raw pad Let_def dat_def b_def tl_def)
  qed
  moreover have "snd (pgr_md5_raw ctx) = md5_zero" by (simp add: pgr_md5_raw_def Let_def)
  ultimately show ?thesis by (metis prod.collapse)
qed

theorem hex_digest: "md5_rep ctx m \<Longrightarrow> pgr_md5_hex ctx = (md5_digest m, md5_zero)"
proof -
  assume "md5_rep ctx m"
  moreover have "uchar c div 16 mod 16 = uchar c div 16" for c
    using uchar_bound [of c] by simp
  ultimately show ?thesis
    by (simp add: pgr_md5_hex_def raw_digest md5_digest_def quad_bytes_def hex_of_def split: prod.splits)
qed

section \<open>The interface of a streaming digest\<close>

text \<open>
  What the users of the digest rely on: initialise any block of memory of the right size, feed
  the message in parts, read the hexadecimal digest; the memory can then be initialised again.
\<close>

definition hex_octet :: "byte \<Rightarrow> bool" where
  "hex_octet c \<longleftrightarrow> isdigit c \<or> (97 \<le> uchar c \<and> uchar c \<le> 102)"

locale streaming_digest =
  fixes blank :: "'c \<Rightarrow> bool"
    and ini :: "'c \<Rightarrow> 'c"
    and upd :: "'c \<Rightarrow> bytes \<Rightarrow> 'c"
    and out :: "'c \<Rightarrow> bytes \<times> 'c"
    and fed :: "'c \<Rightarrow> bytes \<Rightarrow> bool"
    and digest :: "bytes \<Rightarrow> bytes"
  assumes fed_ini: "blank c \<Longrightarrow> fed (ini c) []"
    and fed_upd: "fed c m \<Longrightarrow> length d < 2 ^ 64 \<Longrightarrow> fed (upd c d) (m @ d)"
    and out_digest: "fed c m \<Longrightarrow> fst (out c) = digest m"
    and out_blank: "fed c m \<Longrightarrow> blank (snd (out c))"
    and digest_length: "length (digest m) = 32"
    and digest_hex: "x \<in> set (digest m) \<Longrightarrow> hex_octet x"
begin

lemma fed_parts:
  "fed c m \<Longrightarrow> (\<And>p. p \<in> set ps \<Longrightarrow> length p < 2 ^ 64) \<Longrightarrow> fed (foldl upd c ps) (m @ concat ps)"
proof (induction ps arbitrary: c m)
  case (Cons p ps)
  then have "fed (upd c p) (m @ p)" by (simp add: fed_upd)
  then have "fed (foldl upd (upd c p) ps) ((m @ p) @ concat ps)" by (rule Cons.IH) (rule Cons.prems, simp)
  then show ?case by simp
qed simp

lemma parts:
  "blank c \<Longrightarrow> (\<And>p. p \<in> set ps \<Longrightarrow> length p < 2 ^ 64) \<Longrightarrow>
   fst (out (foldl upd (ini c) ps)) = digest (concat ps)"
  using out_digest fed_parts [OF fed_ini] by fastforce

lemma same_message:
  "blank c \<Longrightarrow> blank c' \<Longrightarrow> (\<And>p. p \<in> set ps \<union> set qs \<Longrightarrow> length p < 2 ^ 64) \<Longrightarrow>
   concat ps = concat qs \<Longrightarrow> fst (out (foldl upd (ini c) ps)) = fst (out (foldl upd (ini c') qs))"
  by (simp add: parts)

lemma two_parts:
  "blank c \<Longrightarrow> length p < 2 ^ 64 \<Longrightarrow> length q < 2 ^ 64 \<Longrightarrow>
   fst (out (upd (upd (ini c) p) q)) = digest (p @ q) \<and> blank (snd (out (upd (upd (ini c) p) q)))"
  using fed_upd [OF fed_upd [OF fed_ini]] out_digest out_blank by fastforce

end

lemma hex_digit_octet: "u < 16 \<Longrightarrow> hex_octet (hex_digit u)"
  by (simp add: hex_octet_def hex_digit_def isdigit_def uchar_byte_of)

lemma length_hex_of: "length (hex_of bs) = 2 * length bs"
  by (induction bs) (simp_all add: hex_of_def)

lemma hex_of_octets: "x \<in> set (hex_of bs) \<Longrightarrow> hex_octet x"
proof -
  assume "x \<in> set (hex_of bs)"
  then obtain c where "x = hex_digit (uchar c div 16) \<or> x = hex_digit (uchar c mod 16)"
    by (auto simp: hex_of_def)
  moreover have "uchar c div 16 < 16" using uchar_bound [of c] by simp
  ultimately show ?thesis using hex_digit_octet by fastforce
qed

definition md5_blank :: "md5 \<Rightarrow> bool" where
  "md5_blank ctx \<longleftrightarrow> length (md_buf ctx) = 64"

interpretation md5: streaming_digest md5_blank pgr_md5_init pgr_md5_update pgr_md5_hex md5_rep md5_digest
proof
  show "length (md5_digest m) = 32" for m
    by (simp add: md5_digest_def length_hex_of split: prod.splits)
  show "x \<in> set (md5_digest m) \<Longrightarrow> hex_octet x" for x m
    using hex_of_octets by (auto simp: md5_digest_def split: prod.splits)
qed (simp_all add: md5_rep_init md5_rep_update hex_digest md5_blank_def md5_zero_def)

end
