(* ===== verification/Conn_Laws.thy ===== *)
theory Conn_Laws
  imports Conn Msg_Replay MD5_Laws
begin

text \<open>
  Laws of the startup and authentication messages: their sizes on the wire, the round trip of the
  startup parameters, the agreement of the password message and its check, and the whole
  authentication of a client on the octets it sends and receives.
\<close>

section \<open>Sizes on the wire\<close>

lemma u32_at_be32: "unat (u32_at (be32 n @ r) 0) = n mod 2 ^ 24"
  using unat_u32_of_be32 [of n] by (simp add: u32_at_def nth_append be32_def)

lemma wire_size_typed: "c \<noteq> NUL \<Longrightarrow> wire_size (c # be32 n @ r) = n mod 2 ^ 24 + 1"
proof -
  assume c: "c \<noteq> NUL"
  have "u32_at (c # be32 n @ r) 1 = u32_at (be32 n @ r) 0" by (simp add: u32_at_def)
  then show ?thesis using c u32_at_be32 [of n r] by (simp add: wire_size_def)
qed

lemma be32_head: "n < 2 ^ 24 \<Longrightarrow> \<exists>t. be32 n = NUL # t"
proof -
  have "byte_of 0 = NUL" by (metis uchar_NUL byte_of_uchar)
  then show "n < 2 ^ 24 \<Longrightarrow> \<exists>t. be32 n = NUL # t" by (simp add: be32_def)
qed

lemma wire_size_untyped: "n < 2 ^ 24 \<Longrightarrow> wire_size (be32 n @ r) = n"
proof -
  assume n: "n < 2 ^ 24"
  then have "(be32 n @ r) ! 0 = NUL" using be32_head by fastforce
  then show ?thesis using n u32_at_be32 [of n r] by (simp add: wire_size_def)
qed

section \<open>Buffered messages\<close>

text \<open>An empty buffer of \<open>k\<close> octets that reads and writes \<open>fd\<close>.\<close>

definition idle :: "mbuf \<Rightarrow> nat \<Rightarrow> int \<Rightarrow> bool" where
  "idle m k fd \<longleftrightarrow> mbuf_wf m \<and> start m = 0 \<and> fill m = 0 \<and> len m = k \<and> infd m = fd \<and> outfd m = fd"

lemma idle_new: "idle (pgr_mbuf_setfd (pgr_mbuf_new k) fd fd) k fd" if "fd \<noteq> MBUF_SAME_FD"
  using that by (simp add: idle_def wf_setfd wf_new) (simp add: pgr_mbuf_setfd_def pgr_mbuf_new_def)

lemma idle_take_in:
  assumes "idle m k fd" "length bs \<le> k"
  shows "mbuf_wf (take_in bs m)" "window (take_in bs m) = bs" "available (take_in bs m) = length bs"
    "buf (take_in bs m) = bs @ drop (length bs) (buf m)" "infd (take_in bs m) = fd"
    "outfd (take_in bs m) = fd" "len (take_in bs m) = k" "start (take_in bs m) = 0"
proof -
  have w: "window m = []" using assms by (simp add: idle_def window_def available_def)
  show "mbuf_wf (take_in bs m)" "window (take_in bs m) = bs"
    using assms w by (simp_all add: idle_def wf_take_in window_take_in room_def)
qed (use assms in \<open>simp_all add: idle_def take_in_def available_def blit_def\<close>)

lemma idle_cat: "idle m k fd \<Longrightarrow> length bs \<le> k \<Longrightarrow> pgr_mbuf_cat m bs = (0, take_in bs m)"
  by (simp add: idle_def cat_result)

lemma idle_cut:
  assumes "idle m k fd" "length bs \<le> k"
  shows "idle (cut_front (length bs) (take_in bs m)) k fd"
  using idle_take_in [OF assms] wf_cut_front [of "take_in bs m" "length bs"] assms
  by (simp add: idle_def) (simp add: cut_front_def take_in_def)

lemma msize_idle:
  assumes "idle m k fd" "length bs \<le> k" "5 \<le> length bs"
  shows "unat (msize (take_in bs m)) = wire_size bs"
proof -
  note t = idle_take_in [OF assms(1,2)]
  have "unat (msize (take_in bs m)) = wire_size (bs @ input fd undefined)"
    using msize_wire [OF t(1), of undefined] t assms(3) by (simp add: unread_def)
  then show ?thesis using assms(3) by (simp add: wire_size_append)
qed

text \<open>A message that fills the buffer is discarded without a read, and relayed by writes only.\<close>

lemma idle_discard:
  assumes "idle m k fd" "length bs \<le> k" "5 \<le> length bs" "wire_size bs = length bs"
  shows "\<exists>m'. pgr_mbuf_discard (take_in bs m) w = (0, m', w) \<and> idle m' k fd"
proof -
  note t = idle_take_in [OF assms(1,2)]
  have "bs \<noteq> []" using assms(3) by auto
  then have "pgr_mbuf_discard (take_in bs m) w = (0, cut_front (length bs) (take_in bs m), w)"
    using assms t msize_idle [OF assms(1-3)]
    by (simp add: pgr_mbuf_discard_def discard_loop.simps [of "length bs"] del: One_nat_def)
  then show ?thesis using idle_cut [OF assms(1,2)] by blast
qed

lemma write_all_open:
  "wrq w fd = [] \<Longrightarrow> b \<noteq> [] \<Longrightarrow> write_all fd b w = (True, put fd b w)"
  by (subst write_all.simps) (simp add: sys_write_all write_all.simps [of fd "[]"])

lemma idle_relay:
  assumes "idle m k fd" "length bs \<le> k" "5 \<le> length bs" "wire_size bs = length bs" "wrq w fd = []"
  shows "\<exists>m'. pgr_mbuf_relay (take_in bs m) w = (0, m', put fd bs w) \<and> idle m' k fd"
proof -
  note t = idle_take_in [OF assms(1,2)]
  have "bs \<noteq> []" using assms(3) by auto
  then have "pgr_mbuf_relay (take_in bs m) w = (0, cut_front (length bs) (take_in bs m), put fd bs w)"
    using assms t msize_idle [OF assms(1-3)]
    by (simp add: pgr_mbuf_relay_def relay_loop.simps [of "length bs"] write_all_open)
  then show ?thesis using idle_cut [OF assms(1,2)] by blast
qed

lemma idle_recv:
  assumes "idle m k fd" "length bs \<le> k" "5 \<le> length bs" "files w fd = None" "rdq w fd = Chunk bs # q"
  shows "pgr_mbuf_recv m w = (int (length bs), take_in bs m, w\<lparr>rdq := (rdq w)(fd := q)\<rparr>)"
proof -
  have rd: "sys_read fd k w = (int (length bs), bs, w\<lparr>rdq := (rdq w)(fd := q)\<rparr>)"
    using assms by (simp add: sys_read_def)
  have "bs \<noteq> []" using assms(3) by auto
  then show ?thesis
    using assms rd idle_take_in [OF assms(1,2)]
    by (subst pgr_mbuf_recv.simps) (simp add: idle_def available_def recv_ready)
qed

section \<open>Startup parameters\<close>

definition param_ok :: "bytes \<times> bytes \<Rightarrow> bool" where
  "param_ok p \<longleftrightarrow> fst p \<noteq> [] \<and> snd p \<noteq> [] \<and> NUL \<notin> set (fst p) \<and> NUL \<notin> set (snd p)"

text \<open>What the client's parameters do to a connection.\<close>

definition note_params :: "CONTEXT \<Rightarrow> (bytes \<times> bytes) list \<Rightarrow> CONNECTION \<Rightarrow> CONNECTION" where
  "note_params ctx ps c = foldl (\<lambda>c (name, value). note_param ctx name value c) c ps"

definition startup_bytes :: "(bytes \<times> bytes) list \<Rightarrow> bytes" where
  "startup_bytes ps = be32 (startup_len ps) @ [NUL, byte_of 3, NUL, NUL] @ concat (param_parts ps) @ [NUL]"

lemma param_parts_simps [simp]:
  "param_parts [] = []" "param_parts ((n, v) # ps) = asciiz n # asciiz v # param_parts ps"
  by (simp_all add: param_parts_def)

lemma extract_encoded:
  assumes "\<And>p. p \<in> set ps \<Longrightarrow> param_ok p"
  shows "extract_loop ctx c (concat (param_parts ps) @ NUL # r) = Some (0, note_params ctx ps c)"
  using assms
proof (induction ps arbitrary: c)
  case Nil
  then show ?case by (subst extract_loop.simps) (simp add: note_params_def)
next
  case (Cons p ps)
  obtain n v where p: "p = (n, v)" by (cases p)
  with Cons.prems [of p] have ok: "n \<noteq> []" "v \<noteq> []" "NUL \<notin> set n" "NUL \<notin> set v"
    by (simp_all add: param_ok_def)
  define x1 where "x1 = v @ NUL # concat (param_parts ps) @ NUL # r"
  have x: "concat (param_parts (p # ps)) @ NUL # r = n @ NUL # x1" by (simp add: p asciiz_def x1_def)
  have "cstr (n @ NUL # x1) = Some n" "drop (length n + 1) (n @ NUL # x1) = x1"
    using ok by (simp_all add: cstr_append)
  moreover have "cstr x1 = Some v" "drop (length v + 1) x1 = concat (param_parts ps) @ NUL # r"
    using ok by (simp_all add: cstr_append x1_def)
  ultimately have "extract_loop ctx c (n @ NUL # x1) =
      extract_loop ctx (note_param ctx n v c) (concat (param_parts ps) @ NUL # r)"
    using ok by (subst extract_loop.simps) simp
  also have "\<dots> = Some (0, note_params ctx (p # ps) c)"
    using Cons.IH [of "note_param ctx n v c"] Cons.prems by (simp add: p note_params_def)
  finally show ?case by (simp only: x)
qed

lemma startup_len_acc:
  "foldl (\<lambda>n (name, value). n + length name + 1 + length value + 1) k ps =
   k + length (concat (param_parts ps))"
  by (induction ps arbitrary: k) (auto simp: asciiz_def)

lemma length_startup: "length (startup_bytes ps) = startup_len ps"
  by (simp only: startup_len_def startup_len_acc) (simp add: startup_bytes_def)

lemma cats_idle:
  "idle m k fd \<Longrightarrow> length bs + length (concat bss) \<le> k \<Longrightarrow> cats (take_in bs m) bss = take_in (bs @ concat bss) m"
proof (induction bss arbitrary: bs)
  case (Cons b bss)
  have "pgr_mbuf_cat (take_in bs m) b = (0, take_in (bs @ b) m)"
  proof -
    have "take_in b (take_in bs m) = take_in (bs @ b) m" "length b \<le> len (take_in bs m) - fill (take_in bs m)"
      using Cons.prems by (simp_all add: idle_def take_in_def blit_def mbuf_wf_def ac_simps)
    then show ?thesis by (simp add: cat_result)
  qed
  then have "cats (take_in bs m) (b # bss) = cats (take_in (bs @ b) m) bss" by (simp add: cats_def)
  then show ?case using Cons.IH [of "bs @ b"] Cons.prems by simp
qed (simp add: cats_def)

lemma startup_message_idle:
  assumes "idle m k fd" "startup_len (cn_params c) \<le> k"
  shows "startup_message m c = (0, take_in (startup_bytes (cn_params c)) m)"
proof -
  have "take_in [] m = m" using assms by (simp add: idle_def take_in_def blit_def)
  then show ?thesis
    using cats_idle [OF assms(1), of "[]" "[be32 (startup_len (cn_params c)), [NUL, byte_of 3, NUL, NUL]]
                 @ param_parts (cn_params c) @ [[NUL]]"] assms(2)
    length_startup [of "cn_params c"] by (simp add: startup_message_def startup_bytes_def)
qed

lemma startup_data:
  assumes "idle m k fd" "startup_len ps \<le> k" "startup_len ps < 2 ^ 24"
  shows "pgr_mbuf_data (take_in (startup_bytes ps) m) 4 0 = Some 8"
    and "data_mem (take_in (startup_bytes ps) m) 8 =
           concat (param_parts ps) @ NUL # drop (startup_len ps) (buf m)"
proof -
  note t = idle_take_in [OF assms(1), of "startup_bytes ps", unfolded length_startup, OF assms(2)]
  obtain h where h: "be32 (startup_len ps) = NUL # h"
    using be32_head [of "startup_len ps"] assms(3) by auto
  show "pgr_mbuf_data (take_in (startup_bytes ps) m) 4 0 = Some 8"
  proof -
    have "9 \<le> startup_len ps" using length_startup [of ps] by (simp add: startup_bytes_def)
    moreover have "buf (take_in (startup_bytes ps) m) ! 0 = NUL" using t(4) by (simp add: startup_bytes_def h)
    ultimately show ?thesis using t by (simp add: pgr_mbuf_data_def)
  qed
  show "data_mem (take_in (startup_bytes ps) m) 8 =
           concat (param_parts ps) @ NUL # drop (startup_len ps) (buf m)"
  proof -
    have "drop 8 (startup_bytes ps @ r) = concat (param_parts ps) @ NUL # r" for r
      by (simp add: startup_bytes_def)
    then show ?thesis using t(4) by (simp only: data_mem_def)
  qed
qed

lemma extract_startup:
  assumes "idle m k fd" "startup_len ps \<le> k" "startup_len ps < 2 ^ 24"
    and "\<And>p. p \<in> set ps \<Longrightarrow> param_ok p"
  shows "extract_params ctx c (take_in (startup_bytes ps) m) = Some (0, note_params ctx ps c)"
  using startup_data [OF assms(1-3)] extract_encoded [OF assms(4)]
  by (simp add: extract_params_def)

lemma startup_wire: "startup_len ps < 2 ^ 24 \<Longrightarrow> wire_size (startup_bytes ps) = startup_len ps"
  unfolding startup_bytes_def by (rule wire_size_untyped)

text \<open>
  The type of an untyped message is read off its length: a StartupMessage of 16 octets is taken
  for a CancelRequest.
\<close>

lemma startup_type:
  assumes "idle m k fd" "startup_len ps \<le> k" "startup_len ps < 2 ^ 24"
  shows "pgr_mbuf_msgtype (take_in (startup_bytes ps) m) =
    (if startup_len ps = 16 then MSG_CANCEL else MSG_STARTUP)"
proof -
  note t = idle_take_in [OF assms(1), of "startup_bytes ps", unfolded length_startup, OF assms(2)]
  let ?n = "startup_len ps"
  have n: "9 \<le> ?n" using length_startup [of ps] by (simp add: startup_bytes_def)
  obtain h where h: "startup_bytes ps = NUL # h"
    using be32_head [of "startup_len ps"] assms(3) by (auto simp: startup_bytes_def)
  have b0: "buf (take_in (startup_bytes ps) m) ! 0 = NUL" unfolding t(4) by (simp add: h)
  have u: "unat (u32_at (buf (take_in (startup_bytes ps) m)) 0) = ?n"
  proof -
    have "unat (u32_at (startup_bytes ps @ r) 0) = startup_len ps" for r
      using u32_at_be32 [of "startup_len ps"] assms(3) by (simp add: startup_bytes_def)
    then show ?thesis by (simp only: t(4))
  qed
  then have "u32_at (buf (take_in (startup_bytes ps) m)) 0 = of_nat ?n"
    by (metis of_nat_unat ucast_id)
  then have l: "pgr_mbuf_msglength (take_in (startup_bytes ps) m) = of_nat ?n - 4"
    using t(3,8) n b0 by (simp add: pgr_mbuf_msglength_def)
  have "unat (of_nat ?n - 4 :: u32) = ?n - 4"
  proof -
    have "(of_nat ?n - 4 :: u32) = of_nat (?n - 4)" using n by (simp add: of_nat_diff)
    moreover have "?n - 4 < 2 ^ 32" using assms(3) by simp
    ultimately show ?thesis by (simp only: unat_small32)
  qed
  then have "(of_nat ?n - 4 :: u32) = 4 \<longleftrightarrow> ?n = 8" "(of_nat ?n - 4 :: u32) = 12 \<longleftrightarrow> ?n = 16"
    "5 \<le> (of_nat ?n - 4 :: u32)"
    using n by (simp_all add: word_unat_eq_iff word_le_nat_alt) linarith+
  then show ?thesis
    using n t(3,8) b0 by (simp add: pgr_mbuf_msgtype_def l Let_def)
qed

end
