(* ===== verification/Auth_Run.thy ===== *)
theory Auth_Run
  imports Conn_Laws
begin

text \<open>
  The authentication of a client: what \<^verbatim>\<open>check_auth\<close> accepts, that a backend connection with the
  same hash sends what it accepts, and the whole run of \<^verbatim>\<open>pgr_conn_accept\<close> on the messages of a
  client, with everything it writes. Then the inputs on which the code goes wrong.
\<close>

section \<open>The password message and its check\<close>

definition pw_bytes :: "bytes \<Rightarrow> bytes" where
  "pw_bytes d = ''p'' @ be32 0x28 @ ''md5'' @ d @ [NUL]"

definition md5_answer :: "bytes \<Rightarrow> bytes \<Rightarrow> bytes" where
  "md5_answer hash salt = md5_digest (hash @ take 4 salt)"

lemma length_pw_bytes [simp]: "length (pw_bytes d) = length d + 9"
  by (simp add: pw_bytes_def)

lemma wire_pw_bytes: "length d = 32 \<Longrightarrow> wire_size (pw_bytes d) = length (pw_bytes d)"
  using wire_size_typed [of "CHR ''p''" "0x28" "''md5'' @ d @ [NUL]"] by (simp add: pw_bytes_def)

lemma blank_zero: "md5_blank md5_zero"
  by (simp add: md5_blank_def md5_zero_def)

lemma salted_digest:
  assumes "length h < 2 ^ 64"
  shows "fst (pgr_md5_hex (pgr_md5_update (pgr_md5_update (pgr_md5_init md5_zero) h) (take 4 s))) = md5_answer h s"
proof -
  have "length (take 4 s) < 2 ^ 64" by (simp add: min_def)
  with md5.two_parts [OF blank_zero assms this] show ?thesis by (simp add: md5_answer_def)
qed

lemma length_md5_answer [simp]: "length (md5_answer h s) = 32"
  by (simp add: md5_answer_def md5.digest_length)

lemma check_auth_buffered:
  assumes m: "idle m k fd" "length d = 32" "41 \<le> k" and h: "\<And>h. cn_pwhash c = Some h \<Longrightarrow> length h < 2 ^ 64"
  shows "check_auth c (take_in (pw_bytes d) m) =
    Some (case cn_pwhash c of None \<Rightarrow> 1 | Some h \<Rightarrow> memcmp d (md5_answer h (cn_salt c)))"
proof -
  have len: "length (pw_bytes d) \<le> k" using m by simp
  note t = idle_take_in [OF m(1) len]
  have "pgr_mbuf_data (take_in (pw_bytes d) m) 3 32 = Some 8"
    using t m(2) by (simp add: pgr_mbuf_data_def) (simp add: pw_bytes_def)
  moreover have "take 32 (data_mem (take_in (pw_bytes d) m) 8) = d"
  proof -
    have "take 32 (drop 8 (pw_bytes d @ r)) = d" for r using m(2) by (simp add: pw_bytes_def)
    then show ?thesis by (simp only: data_mem_def t(4))
  qed
  ultimately show ?thesis
    using h by (auto simp: check_auth_def salted_digest split: option.splits)
qed

text \<open>The message a backend connection sends, for a hash of 32 octets.\<close>

lemma password_message_idle:
  assumes "idle m k fd" "41 \<le> k" "cn_pwhash c = Some h" "length h = 32"
  shows "password_message m c = Some (0, take_in (pw_bytes (md5_answer h (cn_salt c))) m)"
proof -
  have "pgr_mbuf_cat m (pw_bytes (md5_answer h (cn_salt c))) = (0, take_in (pw_bytes (md5_answer h (cn_salt c))) m)"
    using assms by (intro idle_cat) simp_all
  then show ?thesis
    using assms by (simp add: password_message_def asciiz_def salted_digest pw_bytes_def)
qed

section \<open>A conversation on a socket\<close>

text \<open>A socket of the connection: no partial writes, the answers \<open>q\<close> still to be read.\<close>

definition dialogue :: "int \<Rightarrow> bytes list \<Rightarrow> world \<Rightarrow> bool" where
  "dialogue fd bs w \<longleftrightarrow> rdq w fd = map Chunk bs \<and> wrq w fd = [] \<and> files w fd = None"

text \<open>The world after a dialogue: \<open>q\<close> is left to be read from the socket, and \<open>b\<close> was written to it.\<close>

definition talked :: "int \<Rightarrow> bytes list \<Rightarrow> bytes \<Rightarrow> world \<Rightarrow> world" where
  "talked fd q b w = w\<lparr>rdq := (rdq w)(fd := map Chunk q), sent := (sent w)(fd := sent w fd @ b)\<rparr>"

lemma talked_dialogue [simp]: "dialogue fd bs w \<Longrightarrow> dialogue fd q (talked fd q b w)"
  by (simp add: dialogue_def talked_def)

lemma talked_elsewhere [simp]: "x \<noteq> fd \<Longrightarrow> dialogue x bs (talked fd q b w) \<longleftrightarrow> dialogue x bs w"
  by (simp add: dialogue_def talked_def)

lemma talked_again [simp]: "talked fd q b (talked fd q1 b1 w) = talked fd q (b1 @ b) w"
  by (simp add: talked_def)

lemma talked_sent [simp]: "sent (talked fd q b w) x = (if x = fd then sent w fd @ b else sent w x)"
  by (simp add: talked_def)

lemma dialogue_put: "dialogue fd bs w \<Longrightarrow> put fd b w = talked fd bs b w"
  by (simp add: dialogue_def put_def talked_def fun_upd_idem)

section \<open>A run of the authentication\<close>

definition auth_request :: "bytes \<Rightarrow> bytes" where
  "auth_request salt = ''R'' @ be32 12 @ be32 5 @ take 4 salt"

definition auth_done :: bytes where
  "auth_done = (''R'' @ be32 8 @ be32 0) @ (''Z'' @ be32 5 @ ''I'')"

definition auth_error :: "bytes option \<Rightarrow> bytes" where
  "auth_error user =
     (let t = auth_failed_text user
      in ''E'' @ be32 (22 + length t) @ ''S'' @ asciiz ''ERROR'' @ ''C'' @ asciiz ''28P01'' @ ''M'' @ asciiz t @ [NUL])"

lemma note_param_fields [simp]:
  "cn_fd (note_param ctx n v c) = cn_fd c" "cn_salt (note_param ctx n v c) = cn_salt c"
  by (simp_all add: note_param_def Let_def)

lemma note_params_fields [simp]:
  "cn_fd (note_params ctx ps c) = cn_fd c" "cn_salt (note_params ctx ps c) = cn_salt c"
proof -
  have "cn_fd (note_params ctx ps c) = cn_fd c \<and> cn_salt (note_params ctx ps c) = cn_salt c"
    by (induction ps arbitrary: c) (auto simp: note_params_def)
  then show "cn_fd (note_params ctx ps c) = cn_fd c" "cn_salt (note_params ctx ps c) = cn_salt c" by auto
qed

text \<open>The last \<^verbatim>\<open>user\<close> parameter names the user, and the hash comes from the password file.\<close>

lemma note_params_user:
  "cn_pwhash (note_params ctx ps c) =
     (case map_of (rev ps) ''user'' of None \<Rightarrow> cn_pwhash c | Some u \<Rightarrow> pgr_auth_find ctx u)"
  "cn_username (note_params ctx ps c) =
     (case map_of (rev ps) ''user'' of None \<Rightarrow> cn_username c | Some u \<Rightarrow> Some u)"
proof -
  have "cn_pwhash (note_params ctx ps c) =
     (case map_of (rev ps) ''user'' of None \<Rightarrow> cn_pwhash c | Some u \<Rightarrow> pgr_auth_find ctx u) \<and>
     cn_username (note_params ctx ps c) =
     (case map_of (rev ps) ''user'' of None \<Rightarrow> cn_username c | Some u \<Rightarrow> Some u)"
  proof (induction ps rule: rev_induct)
    case (snoc p ps)
    obtain n v where "p = (n, v)" by (cases p)
    with snoc show ?case by (auto simp: note_params_def note_param_def Let_def)
  qed (simp add: note_params_def)
  then show "cn_pwhash (note_params ctx ps c) =
     (case map_of (rev ps) ''user'' of None \<Rightarrow> cn_pwhash c | Some u \<Rightarrow> pgr_auth_find ctx u)"
    "cn_username (note_params ctx ps c) =
     (case map_of (rev ps) ''user'' of None \<Rightarrow> cn_username c | Some u \<Rightarrow> Some u)" by auto
qed

lemma auth_request_idle:
  assumes "idle m k fd" "13 \<le> k" "length (cn_salt c) = 4" "wrq w fd = []"
  shows "\<exists>m1 m'. auth_md5_message m c = (0, m1) \<and>
    pgr_mbuf_relay m1 w = (0, m', put fd (auth_request (cn_salt c)) w) \<and> idle m' k fd"
proof -
  let ?b = "auth_request (cn_salt c)"
  have len: "length ?b = 13" using assms(3) by (simp add: auth_request_def)
  have "blit 9 (take 4 (cn_salt c)) (''R'' @ be32 12 @ be32 5 @ replicate 4 NUL) = ?b"
    using assms(3) by (simp add: blit_def auth_request_def)
  then have cat: "auth_md5_message m c = (0, take_in ?b m)"
    using idle_cat [OF assms(1), of ?b] assms(2) len by (simp add: auth_md5_message_def)
  have "wire_size ?b = length ?b"
    using wire_size_typed [of "CHR ''R''" 12 "be32 5 @ take 4 (cn_salt c)"] len by (simp add: auth_request_def)
  from idle_relay [OF assms(1) _ _ this assms(4)] len assms(2) cat show ?thesis by auto
qed

lemma accept_ok_idle:
  assumes m: "idle m k fd" "9 \<le> k" and w: "wrq w fd = []" "files w fd = None"
  shows "\<exists>w'. accept_ok c m w = (0, c, w') \<and> w' = put fd auth_done w"
proof -
  let ?a = "''R'' @ be32 8 @ be32 0" and ?b = "''Z'' @ be32 5 @ ''I''"
  have wa: "wire_size ?a = length ?a" using wire_size_typed [of "CHR ''R''" 8 "be32 0"] by simp
  have wb: "wire_size ?b = length ?b" using wire_size_typed [of "CHR ''Z''" 5 "''I''"] by simp
  from idle_relay [OF m(1) _ _ wa w(1)] m(2) obtain m2 where
    r1: "pgr_mbuf_relay (take_in ?a m) w = (0, m2, put fd ?a w)" and m2: "idle m2 k fd" by auto
  have w1: "wrq (put fd ?a w) fd = []" using w by (simp add: frame_simps)
  from idle_relay [OF m2 _ _ wb w1] m(2) obtain m3 where
    r2: "pgr_mbuf_relay (take_in ?b m2) (put fd ?a w) = (0, m3, put fd ?b (put fd ?a w))" by auto
  have c1: "auth_ok_message m c = (0, take_in ?a m)"
    using idle_cat [OF m(1), of ?a] m(2) by (simp add: auth_ok_message_def)
  have c2: "ready_for_query m2 c = (0, take_in ?b m2)"
    using idle_cat [OF m2, of ?b] m(2) by (simp add: ready_for_query_def)
  have "put fd ?b (put fd ?a w) = put fd auth_done w"
    using w by (simp add: put_def auth_done_def)
  then show ?thesis by (simp add: accept_ok_def c1 r1 c2 r2 del: append_Cons)
qed

text \<open>The two messages of the client, one round of the loop each.\<close>

lemma accept_startup:
  assumes m: "idle m 512 fd" "cn_fd c = fd" and salt: "length (cn_salt c) = 4"
    and w: "dialogue fd (startup_bytes ps # qs) w"
    and ps: "\<And>p. p \<in> set ps \<Longrightarrow> param_ok p" "startup_len ps \<le> 512" "startup_len ps \<noteq> 16"
  shows "\<exists>m'. idle m' 512 fd \<and> accept_loop ctx c m w =
    accept_loop ctx (note_params ctx ps c) m' (talked fd qs (auth_request (cn_salt c)) w)"
proof -
  let ?s = "startup_bytes ps" and ?c = "note_params ctx ps c"
  let ?w = "talked fd qs [] w"
  have w1: "dialogue fd qs ?w" by (rule talked_dialogue [OF w])
  have n: "length ?s \<le> 512" "5 \<le> length ?s" "startup_len ps < 2 ^ 24"
    using ps(2) length_startup [of ps] by (simp_all add: startup_bytes_def)
  have recv: "pgr_mbuf_recv m w = (int (length ?s), take_in ?s m, ?w)"
    using idle_recv [OF m(1) n(1,2), of w "map Chunk qs"] w by (simp add: dialogue_def talked_def)
  have type: "pgr_mbuf_msgtype (take_in ?s m) = MSG_STARTUP"
    using startup_type [OF m(1) ps(2) n(3)] ps(3) by simp
  have ext: "extract_params ctx c (take_in ?s m) = Some (0, ?c)"
    by (rule extract_startup [OF m(1) ps(2) n(3) ps(1)])
  have "wire_size ?s = length ?s" using startup_wire [OF n(3)] by (simp add: length_startup)
  from idle_discard [OF m(1) n(1,2) this] obtain m2 where
    dis: "pgr_mbuf_discard (take_in ?s m) ?w = (0, m2, ?w)" and m2: "idle m2 512 fd" by blast
  have "length (cn_salt ?c) = 4" "wrq ?w fd = []" using salt w1 by (simp_all add: dialogue_def)
  from auth_request_idle [OF m2 _ this] obtain m3 m4 where
    req: "auth_md5_message m2 ?c = (0, m3)"
    "pgr_mbuf_relay m3 ?w = (0, m4, talked fd qs (auth_request (cn_salt c)) w)" and m4: "idle m4 512 fd"
    by (auto simp: dialogue_put [OF w1])
  have "accept_loop ctx c m w = accept_loop ctx ?c m4 (talked fd qs (auth_request (cn_salt c)) w)"
    by (subst accept_loop.simps) (simp add: recv type ext dis req msg_constants)
  then show ?thesis using m4 by blast
qed

lemma accept_pw:
  assumes m: "idle m 512 fd" and d: "length d = 32"
    and w: "dialogue fd (pw_bytes d # qs) w"
  shows "accept_loop ctx c m w = Some (accept_password c (take_in (pw_bytes d) m) (talked fd qs [] w))"
proof -
  have n: "length (pw_bytes d) \<le> 512" "5 \<le> length (pw_bytes d)" using d by simp_all
  have recv: "pgr_mbuf_recv m w = (int (length (pw_bytes d)), take_in (pw_bytes d) m, talked fd qs [] w)"
    using idle_recv [OF m n, of w "map Chunk qs"] w by (simp add: dialogue_def talked_def)
  have "pgr_mbuf_msgtype (take_in (pw_bytes d) m) = schar (CHR ''p'')"
    using idle_take_in [OF m n(1)] by (simp add: pgr_mbuf_msgtype_def) (simp add: pw_bytes_def)
  moreover have "schar (CHR ''p'') = 112" by (simp add: schar_def uchar_def)
  ultimately show ?thesis
    by (subst accept_loop.simps) (simp add: recv msg_constants)
qed

text \<open>
  The client's answer is right: the password file has a hash for the user the startup message
  names (the last \<^verbatim>\<open>user\<close> parameter), and the answer is the digest of the hash and the salt.
\<close>

definition answer_ok :: "CONNECTION \<Rightarrow> bytes \<Rightarrow> bool" where
  "answer_ok c d \<longleftrightarrow> (case cn_pwhash c of None \<Rightarrow> False | Some h \<Rightarrow> d = md5_answer h (cn_salt c))"

lemma accept_password_good:
  assumes m: "idle m 512 fd" and d: "length d = 32" and h: "\<And>h. cn_pwhash c = Some h \<Longrightarrow> length h < 2 ^ 64"
    and w: "wrq w fd = []" "files w fd = None" and ok: "answer_ok c d"
  shows "accept_password c (take_in (pw_bytes d) m) w = Ret (0, c, put fd auth_done w)"
proof -
  have n: "length (pw_bytes d) \<le> 512" "5 \<le> length (pw_bytes d)" using d by simp_all
  have "check_auth c (take_in (pw_bytes d) m) = Some 0"
    using check_auth_buffered [OF m d _ h] ok by (auto simp: answer_ok_def memcmp_eq_0 split: option.splits)
  moreover obtain m1 where dis: "pgr_mbuf_discard (take_in (pw_bytes d) m) w = (0, m1, w)" and m1: "idle m1 512 fd"
    using idle_discard [OF m n wire_pw_bytes [OF d]] by blast
  moreover have "accept_ok c m1 w = (0, c, put fd auth_done w)"
    using accept_ok_idle [OF m1 _ w] by auto
  ultimately show ?thesis by (simp add: accept_password_def)
qed

text \<open>
  The length in the error message is one too large, so the relay goes back to read from the
  client; here the client has closed its side.
\<close>

lemma auth_error_wire:
  assumes "length (auth_failed_text user) < 1000"
  shows "length (auth_error user) = 22 + length (auth_failed_text user)"
    and "wire_size (auth_error user) = length (auth_error user) + 1"
proof -
  let ?t = "auth_failed_text user"
  show l: "length (auth_error user) = 22 + length ?t" by (simp add: auth_error_def Let_def asciiz_def)
  have "wire_size (auth_error user) = (22 + length ?t) mod 2 ^ 24 + 1"
    unfolding auth_error_def Let_def append_Cons append_Nil
    by (rule wire_size_typed) simp
  then show "wire_size (auth_error user) = length (auth_error user) + 1" using assms l by simp
qed

lemma error_response_idle:
  assumes "idle m k fd" "22 + length (auth_failed_text user) \<le> k"
  shows "error_response m ''ERROR'' ''28P01'' (auth_failed_text user) = take_in (auth_error user) m"
proof -
  let ?t = "auth_failed_text user"
  have "take_in [] m = m" using assms by (simp add: idle_def take_in_def blit_def)
  then show ?thesis
    using cats_idle [OF assms(1), of "[]" "[''E'', be32 (22 + length ?t), ''S'', asciiz ''ERROR'', ''C'', asciiz ''28P01'', ''M'', asciiz ?t, [NUL]]"]
      assms(2) by (simp add: error_response_def auth_error_def Let_def asciiz_def)
qed

lemma accept_password_bad:
  assumes m: "idle m 512 fd" and d: "length d = 32" and h: "\<And>h. cn_pwhash c = Some h \<Longrightarrow> length h < 2 ^ 64"
    and w: "wrq w fd = []" "rdq w fd = []" "files w fd = None" and bad: "\<not> answer_ok c d"
    and u: "length (auth_failed_text (cn_username c)) \<le> 490"
  shows "accept_password c (take_in (pw_bytes d) m) w = Ret (1, c, put fd (auth_error (cn_username c)) w)"
proof -
  let ?e = "auth_error (cn_username c)"
  have n: "length (pw_bytes d) \<le> 512" "5 \<le> length (pw_bytes d)" using d by simp_all
  have "\<exists>rc. check_auth c (take_in (pw_bytes d) m) = Some rc \<and> rc \<noteq> 0"
    using check_auth_buffered [OF m d _ h] bad d
    by (auto simp: answer_ok_def memcmp_eq_0 split: option.splits)
  moreover obtain m1 where dis: "pgr_mbuf_discard (take_in (pw_bytes d) m) w = (0, m1, w)" and m1: "idle m1 512 fd"
    using idle_discard [OF m n wire_pw_bytes [OF d]] by blast
  moreover have e: "length ?e \<le> 512" "5 \<le> length ?e" "wire_size ?e = length ?e + 1"
    using auth_error_wire [of "cn_username c"] u by simp_all
  have er: "error_response m1 ''ERROR'' ''28P01'' (auth_failed_text (cn_username c)) = take_in ?e m1"
    using error_response_idle [OF m1, of "cn_username c"] u by simp
  note t = idle_take_in [OF m1 e(1)]
  have sz: "unat (msize (take_in ?e m1)) = length ?e + 1" using msize_idle [OF m1 e(1,2)] e(3) by simp
  have ne: "?e \<noteq> []" using e(2) by auto
  have rd: "sys_read fd r (put fd ?e w) = (0, [], put fd ?e w)" for r
    using w by (simp add: sys_read_def put_def)
  have "\<exists>m2. pgr_mbuf_relay (take_in ?e m1) w = (1, m2, put fd ?e w)"
    using e(2) t sz ne w
    by (simp add: pgr_mbuf_relay_def relay_loop.simps [of "Suc (length ?e)"] write_all_open rd)
  ultimately show ?thesis by (auto simp: accept_password_def er)
qed

text \<open>The startup message and its answer, up to the password message in the buffer.\<close>

lemma accept_to_password:
  assumes fd: "cn_fd c = fd" "fd \<noteq> MBUF_SAME_FD" and salt: "length (cn_salt c) = 4"
    and w: "dialogue fd (startup_bytes ps # pw_bytes d # qs) w"
    and ps: "\<And>p. p \<in> set ps \<Longrightarrow> param_ok p" "startup_len ps \<le> 512" "startup_len ps \<noteq> 16"
    and d: "length d = 32"
  obtains m1 where "idle m1 512 fd"
    "pgr_conn_accept ctx c w = Some (accept_password (note_params ctx ps c) (take_in (pw_bytes d) m1)
       (talked fd qs (auth_request (cn_salt c)) w))"
proof -
  have m: "idle (pgr_mbuf_setfd (pgr_mbuf_new 512) fd fd) 512 fd" using fd by (intro idle_new)
  from accept_startup [OF m fd(1) salt w ps] obtain m1 where m1: "idle m1 512 fd"
    and s: "pgr_conn_accept ctx c w =
      accept_loop ctx (note_params ctx ps c) m1 (talked fd (pw_bytes d # qs) (auth_request (cn_salt c)) w)"
    by (auto simp: pgr_conn_accept_def fd)
  from accept_pw [OF m1 d talked_dialogue [OF w]] m1 s that show ?thesis by simp
qed

lemma dialogue_fields: "dialogue fd qs w \<Longrightarrow> rdq w fd = map Chunk qs \<and> wrq w fd = [] \<and> files w fd = None"
  by (simp add: dialogue_def)

lemma accept_granted:
  assumes fd: "cn_fd c = fd" "fd \<noteq> MBUF_SAME_FD" and salt: "length (cn_salt c) = 4"
    and w: "dialogue fd (startup_bytes ps # pw_bytes d # qs) w"
    and ps: "\<And>p. p \<in> set ps \<Longrightarrow> param_ok p" "startup_len ps \<le> 512" "startup_len ps \<noteq> 16"
    and d: "length d = 32" and h: "\<And>h. cn_pwhash (note_params ctx ps c) = Some h \<Longrightarrow> length h < 2 ^ 64"
    and ok: "answer_ok (note_params ctx ps c) d"
  shows "pgr_conn_accept ctx c w =
    Some (Ret (0, note_params ctx ps c, talked fd qs (auth_request (cn_salt c) @ auth_done) w))"
proof -
  have w2: "dialogue fd qs (talked fd qs (auth_request (cn_salt c)) w)" by (rule talked_dialogue [OF w])
  from accept_to_password [OF fd salt w ps d] obtain m1 where m1: "idle m1 512 fd"
    and s: "pgr_conn_accept ctx c w = Some (accept_password (note_params ctx ps c) (take_in (pw_bytes d) m1)
      (talked fd qs (auth_request (cn_salt c)) w))" .
  from accept_password_good [OF m1 d h _ _ ok] dialogue_fields [OF w2] show ?thesis
    by (simp add: s dialogue_put [OF w2])
qed

lemma accept_dialogue:
  assumes fd: "cn_fd c = fd" "fd \<noteq> MBUF_SAME_FD" and salt: "length (cn_salt c) = 4" and c: "cn_pwhash c = None"
    and w: "dialogue fd [startup_bytes ps, pw_bytes d] w"
    and ps: "\<And>p. p \<in> set ps \<Longrightarrow> param_ok p" "startup_len ps \<le> 512" "startup_len ps \<noteq> 16"
    and d: "length d = 32" and tab: "\<And>u h. pgr_auth_find ctx u = Some h \<Longrightarrow> length h < 2 ^ 64"
    and u: "length (auth_failed_text (cn_username (note_params ctx ps c))) \<le> 490"
  shows "pgr_conn_accept ctx c w =
    Some (Ret (if answer_ok (note_params ctx ps c) d then 0 else 1, note_params ctx ps c,
      talked fd [] (auth_request (cn_salt c) @
        (if answer_ok (note_params ctx ps c) d then auth_done else auth_error (cn_username (note_params ctx ps c)))) w))"
proof -
  let ?c = "note_params ctx ps c" and ?w2 = "talked fd [] (auth_request (cn_salt c)) w"
  have h: "length h < 2 ^ 64" if "cn_pwhash ?c = Some h" for h
    using that c tab by (auto simp: note_params_user split: option.splits)
  have w2: "dialogue fd [] ?w2" by (rule talked_dialogue [OF w])
  from accept_to_password [OF fd salt w ps d] obtain m1 where m1: "idle m1 512 fd"
    and s: "pgr_conn_accept ctx c w = Some (accept_password ?c (take_in (pw_bytes d) m1) ?w2)" .
  show ?thesis
  proof (cases "answer_ok ?c d")
    case True
    then show ?thesis using accept_granted [OF fd salt w ps d h] by simp
  next
    case False
    with accept_password_bad [OF m1 d h _ _ _ _ u] dialogue_fields [OF w2] show ?thesis
      by (simp add: s dialogue_put [OF w2])
  qed
qed

end
