(* ===== verification/Conn_Safety.thy ===== *)
theory Conn_Safety
  imports Auth_Run
begin

text \<open>
  Whatever a client sends, it is only accepted as a user of the password file. And the inputs
  on which the functions of \<^verbatim>\<open>src/conn.c\<close> never return or read through \<^verbatim>\<open>NULL\<close>.
\<close>

section \<open>Only known users\<close>

text \<open>The hash of a connection is the one the password file holds for its user.\<close>

definition pwhash_inv :: "CONTEXT \<Rightarrow> CONNECTION \<Rightarrow> bool" where
  "pwhash_inv ctx c \<longleftrightarrow>
     cn_pwhash c = (case cn_username c of None \<Rightarrow> None | Some u \<Rightarrow> pgr_auth_find ctx u)"

lemma pwhash_init: "pwhash_inv ctx (pgr_conn_init k)"
  by (simp add: pwhash_inv_def pgr_conn_init_def)

lemma pwhash_note: "pwhash_inv ctx c \<Longrightarrow> pwhash_inv ctx (note_param ctx n v c)"
  by (simp add: pwhash_inv_def note_param_def Let_def)

text \<open>What the two ways to take in a parameter keep, the whole extraction keeps.\<close>

lemma extract_loop_keeps:
  assumes "extract_loop ctx c x = Some (rc, c')" "P c"
    and "\<And>n v c. P c \<Longrightarrow> P (note_param ctx n v c)" "\<And>ps c. P c \<Longrightarrow> P (c\<lparr>cn_params := ps\<rparr>)"
  shows "P c'"
  using assms
proof (induction ctx c x rule: extract_loop.induct)
  case (1 ctx c x)
  note e = 1(2)
  obtain name where n: "cstr x = Some name"
    using e by (subst (asm) extract_loop.simps) (auto split: option.splits)
  show ?case
  proof (cases "name = []")
    case True
    then show ?thesis using e 1(3) n by (subst (asm) extract_loop.simps) simp
  next
    case False
    let ?x1 = "drop (length name + 1) x"
    obtain val where v: "cstr ?x1 = Some val"
      using e False by (subst (asm) extract_loop.simps) (auto simp: n Let_def split: option.splits)
    show ?thesis
    proof (cases "val = []")
      case True
      then show ?thesis
        using e 1(5) [OF 1(3)] False by (subst (asm) extract_loop.simps) (auto simp: n v [simplified] Let_def)
    next
      case val: False
      then have "extract_loop ctx (note_param ctx name val c) (drop (length val + 1) ?x1) = Some (rc, c')"
        using e False by (subst (asm) extract_loop.simps) (simp add: n v [simplified] Let_def)
      from 1(1) [OF n False refl v val this 1(4) [OF 1(3)] 1(4,5)] show ?thesis .
    qed
  qed
qed

lemma extract_keeps:
  assumes "\<And>n v c. P c \<Longrightarrow> P (note_param ctx n v c)" "\<And>ps c. P c \<Longrightarrow> P (c\<lparr>cn_params := ps\<rparr>)"
    and "extract_params ctx c m = Some (rc, c')" "P c"
  shows "P c'"
proof (cases "pgr_mbuf_data m 4 0")
  case None
  then show ?thesis using assms(3,4) by (simp add: extract_params_def)
next
  case (Some p)
  then have "extract_loop ctx c (data_mem m p) = Some (rc, c')" using assms(3) by (simp add: extract_params_def)
  from extract_loop_keeps [of _ _ _ _ _ P, OF this assms(4,1,2)] show ?thesis .
qed

lemma pwhash_extract:
  assumes "extract_params ctx c m = Some (rc, c')" "pwhash_inv ctx c"
  shows "pwhash_inv ctx c'"
  by (rule extract_keeps [of "pwhash_inv ctx", OF pwhash_note _ assms]) (simp_all add: pwhash_inv_def)

lemma accept_password_known:
  assumes "accept_password c m w = Ret (0, c', w')"
  shows "c' = c \<and> cn_pwhash c \<noteq> None"
proof -
  have ok: "c1 = c" if "accept_ok c m1 w1 = (rc, c1, w2)" for m1 w1 rc c1 w2
    using that by (auto simp: accept_ok_def split: prod.splits if_splits)
  from assms show ?thesis
    by (auto simp: accept_password_def check_auth_def dest: ok split: option.splits prod.splits if_splits)
qed

definition known :: "CONTEXT \<Rightarrow> (int \<times> CONNECTION \<times> world) run \<Rightarrow> bool" where
  "known ctx y \<longleftrightarrow> (case y of Ret (rc, c', w') \<Rightarrow> rc = 0 \<longrightarrow> pwhash_inv ctx c' \<and> cn_pwhash c' \<noteq> None
                     | Crash \<Rightarrow> True)"

lemma known_simps [simp]:
  "known ctx Crash" "known ctx (Ret (rc, c', w')) \<longleftrightarrow> rc = 0 \<longrightarrow> pwhash_inv ctx c' \<and> cn_pwhash c' \<noteq> None"
  by (simp_all add: known_def)

lemma accept_loop_known:
  assumes "accept_loop ctx c m w = Some y"
  shows "pwhash_inv ctx c \<longrightarrow> known ctx y"
  using assms
proof (induction rule: accept_loop.raw_induct [rotated, consumes 1, case_names 1])
  case (1 f ctx c m w y)
  show ?case
  proof
    assume inv: "pwhash_inv ctx c"
    obtain rc m1 w1 where recv: "pgr_mbuf_recv m w = (rc, m1, w1)" by (metis surj_pair)
    obtain r2 m2 w2 where dis: "pgr_mbuf_discard m1 w1 = (r2, m2, w2)" by (metis surj_pair)
    have IH: "known ctx y" if "f ctx c1 m' w' = Some y" "pwhash_inv ctx c1" for c1 m' w'
      using 1(1) [OF that(1)] that(2) by simp
    have pw: "known ctx (accept_password c m1 w1)"
      using accept_password_known [of c m1 w1] inv by (cases "accept_password c m1 w1") auto
    show "known ctx y"
      using 1(2) pw inv IH pwhash_extract [of ctx c m1]
      by (auto simp: recv dis Let_def split: if_splits prod.splits option.splits)
  qed
qed

text \<open>
  C14: Whatever a client sends: when pgr_conn_accept returns 0, the client named a user of the
  password file and the connection holds that user's hash.
\<close>

lemma accepted_user:
  assumes "pgr_conn_accept ctx c w = Some (Ret (0, c', w'))" and "pwhash_inv ctx c"
  shows "\<exists>u h. cn_username c' = Some u \<and> pgr_auth_find ctx u = Some h \<and> cn_pwhash c' = Some h"
proof -
  from accept_loop_known [OF assms(1) [unfolded pgr_conn_accept_def]] assms(2)
  have "pwhash_inv ctx c'" "cn_pwhash c' \<noteq> None" by simp_all
  then show ?thesis by (cases "cn_username c'") (auto simp: pwhash_inv_def)
qed

section \<open>Runs that do not end\<close>

text \<open>
  C36: Connecting to a backend never returns once the backend has sent a NoticeResponse.
\<close>

lemma notice_hangs:
  assumes "5 \<le> available m" "pgr_mbuf_msgtype m = schar CHR ''N''"
  shows "connect_loop c m w = None"
proof -
  have "connect_loop c m w = Some y \<Longrightarrow> 5 \<le> available m \<and> pgr_mbuf_msgtype m = schar CHR ''N'' \<longrightarrow> False" for y
  proof (induction rule: connect_loop.raw_induct [rotated, consumes 1, case_names 1])
    case (1 f c m w y)
    show ?case
    proof (intro impI)
      assume s: "5 \<le> available m \<and> pgr_mbuf_msgtype m = schar CHR ''N''"
      then have "f c m w = Some y" using 1(2) by (simp add: recv_ready)
      then show False using 1(1) s by blast
    qed
  qed
  then show ?thesis using assms by (cases "connect_loop c m w") auto
qed

lemma recv_at_end:
  "available m < 5 \<Longrightarrow> files w (infd m) = None \<Longrightarrow> rdq w (infd m) = [] \<Longrightarrow> pgr_mbuf_recv m w = (0, m, w)"
  by (subst pgr_mbuf_recv.simps) (simp add: sys_read_def)

text \<open>
  One octet \<open>3\<close> and the end of the input: the octet is taken for the type of a CancelRequest,
  which \<^verbatim>\<open>pgr_mbuf_discard\<close> does not remove.
\<close>

lemma cancel_hangs:
  assumes "0 < available m" "available m < 5" "pgr_mbuf_msgtype m = MSG_CANCEL"
    and "files w (infd m) = None" "rdq w (infd m) = []"
  shows "accept_loop ctx c m w = None"
proof -
  let ?S = "\<lambda>m w. 0 < available m \<and> available m < 5 \<and> pgr_mbuf_msgtype m = MSG_CANCEL \<and>
      files w (infd m) = None \<and> rdq w (infd m) = []"
  have "accept_loop ctx c m w = Some y \<Longrightarrow> ?S m w \<longrightarrow> False" for y
  proof (induction rule: accept_loop.raw_induct [rotated, consumes 1, case_names 1])
    case (1 f ctx c m w y)
    show ?case
    proof (intro impI)
      assume s: "?S m w"
      then have "f ctx c m w = Some y"
        using 1(2) by (simp add: recv_at_end pgr_mbuf_discard_def msg_constants)
      then show False using 1(1) s by blast
    qed
  qed
  then show ?thesis using assms by (cases "accept_loop ctx c m w") auto
qed

text \<open>
  C37: A client that sends the single octet 3 and closes its side keeps pgr_conn_accept in its
  loop for ever.
\<close>

lemma accept_one_octet_hangs:
  assumes fd: "cn_fd c = fd" "fd \<noteq> MBUF_SAME_FD" and w: "rdq w fd = [Chunk [byte_of 3]]" "files w fd = None"
  shows "pgr_conn_accept ctx c w = None"
proof -
  let ?m = "pgr_mbuf_setfd (pgr_mbuf_new 512) fd fd" and ?w = "w\<lparr>rdq := (rdq w)(fd := [])\<rparr>"
  let ?m1 = "take_in [byte_of 3] ?m"
  have m: "idle ?m 512 fd" using fd by (intro idle_new)
  have t: "available ?m1 = 1" "infd ?m1 = fd" "window ?m1 = [byte_of 3]" "start ?m1 = 0"
    "buf ?m1 = byte_of 3 # drop 1 (buf ?m)"
    using idle_take_in [OF m, of "[byte_of 3]"] by simp_all
  have "sys_read fd 512 w = (1, [byte_of 3], ?w)" using w by (simp add: sys_read_def)
  then have "pgr_mbuf_recv ?m w = pgr_mbuf_recv ?m1 ?w"
    using m by (subst pgr_mbuf_recv.simps) (simp add: idle_def available_def)
  also have "\<dots> = (0, ?m1, ?w)" using t w by (intro recv_at_end) simp_all
  finally have recv: "pgr_mbuf_recv ?m w = (0, ?m1, ?w)" .
  have u: "uchar (byte_of 3) = 3" by (simp add: uchar_byte_of)
  have "byte_of 3 \<noteq> NUL"
  proof
    assume "byte_of 3 = NUL"
    then have "uchar (byte_of 3) = 0" by simp
    then show False using u by simp
  qed
  then have type: "pgr_mbuf_msgtype ?m1 = MSG_CANCEL"
    using t(1,4)
    by (simp add: pgr_mbuf_msgtype_def t(5) MSG_CANCEL_def schar_def u)
  have "accept_loop ctx c ?m w = accept_loop ctx c ?m1 ?w"
    by (subst accept_loop.simps) (simp add: recv type t pgr_mbuf_discard_def msg_constants)
  also have "\<dots> = None" using t type w by (intro cancel_hangs) simp_all
  finally show ?thesis by (simp add: pgr_conn_accept_def fd)
qed

section \<open>Reads through NULL\<close>

text \<open>A password message of which only the header has arrived.\<close>

text \<open>
  C38: A password message of which fewer than 40 octets have arrived makes check_auth of a
  known user read through NULL.
\<close>

lemma short_password_crashes:
  assumes "cn_pwhash c \<noteq> None" "available m < 40" "buf m ! start m \<noteq> NUL"
  shows "accept_password c m w = Crash"
  using assms by (auto simp: accept_password_def check_auth_def pgr_mbuf_data_def Let_def)

text \<open>The salt of every connection.\<close>

lemma salt_zero:
  assumes "0 \<le> k" "k \<le> RAND_MAX"
  shows "cn_salt (pgr_conn_init k) = replicate 4 NUL"
proof -
  have z: "byte_of 0 = NUL" by (metis uchar_NUL byte_of_uchar)
  have "int32 0xffffffff = -1" by (simp add: int32_def)
  then have "cn_salt (pgr_conn_init k) = le32 0"
    using rand_minus_one [OF assms] by (simp add: pgr_conn_init_def)
  also have "\<dots> = replicate 4 NUL" by (simp add: le32_def low8_def z numeral_eq_Suc)
  finally show ?thesis .
qed

text \<open>The salt of every connection is four NUL octets whatever \<^verbatim>\<open>rand_r\<close> returns.\<close>

lemma salt_constant:
  assumes "0 \<le> k" "k \<le> RAND_MAX" and "0 \<le> k'" "k' \<le> RAND_MAX"
  shows "cn_salt (pgr_conn_init k) = replicate 4 NUL \<and>
    md5_answer h (cn_salt (pgr_conn_init k)) = md5_answer h (cn_salt (pgr_conn_init k'))"
  using salt_zero [OF assms(1,2)] salt_zero [OF assms(3,4)] by simp

end
