(* ===== verification/Lexer_Laws.thy ===== *)
theory Lexer_Laws
  imports Lexer
begin

text \<open>
  The scanner shared by the two parsers, seen as the part of the text read so far and the part
  ahead: what the character functions and the loops do to that view.
\<close>

section \<open>The scanner's view of the text\<close>

text \<open>\<open>lx_view l f pre rest\<close>: function \<open>f\<close> is current, \<open>pre\<close> is the token so far, \<open>rest\<close> is ahead.\<close>

definition lx_view :: "'f LEXER \<Rightarrow> 'f option \<Rightarrow> bytes \<Rightarrow> bytes \<Rightarrow> bool" where
  "lx_view l f pre rest \<longleftrightarrow>
     lx_f l = f \<and> lx_max l = int (length (lx_src l)) \<and> 0 \<le> lx_start l \<and>
     lx_pos l = lx_start l + int (length pre) \<and> drop (nat (lx_start l)) (lx_src l) = pre @ rest \<and>
     nat (lx_start l) \<le> length (lx_src l)"

lemma view_length:
  "lx_view l f pre rest \<Longrightarrow> int (length (lx_src l)) = lx_pos l + int (length rest)"
proof -
  assume v: "lx_view l f pre rest"
  then have "length (drop (nat (lx_start l)) (lx_src l)) = length pre + length rest"
    by (simp add: lx_view_def)
  then have "length (lx_src l) - nat (lx_start l) = length pre + length rest"
    by (simp only: length_drop)
  moreover have "nat (lx_start l) \<le> length (lx_src l)" using v by (simp add: lx_view_def)
  moreover have "int (nat (lx_start l)) = lx_start l" using v by (simp add: lx_view_def)
  moreover have "lx_pos l = lx_start l + int (length pre)" using v by (simp add: lx_view_def)
  ultimately show ?thesis by linarith
qed

lemma view_next:
  assumes v: "lx_view l f pre (c # rest)"
  obtains l1 where "lex_next l = (c, l1)" "lx_view l1 f (pre @ [c]) rest"
proof -
  define s where "s = nat (lx_start l)"
  from v have d: "drop s (lx_src l) = pre @ c # rest" and s: "s \<le> length (lx_src l)"
    and p: "lx_pos l = int s + int (length pre)"
    by (simp_all add: lx_view_def s_def)
  have "nat (lx_pos l) = s + length pre" using p by simp
  then have "lx_src l ! nat (lx_pos l) = drop s (lx_src l) ! length pre" using s by simp
  then have "lx_src l ! nat (lx_pos l) = c" by (simp add: d)
  moreover have "\<not> lx_max l \<le> lx_pos l" using v view_length [OF v] by (simp add: lx_view_def)
  ultimately have "lex_next l = (c, l\<lparr>lx_col := lx_col l + 1, lx_pos := lx_pos l + 1\<rparr>)"
    by (simp add: lex_next_def)
  moreover have "lx_view (l\<lparr>lx_col := lx_col l + 1, lx_pos := lx_pos l + 1\<rparr>) f (pre @ [c]) rest"
    using v by (simp add: lx_view_def)
  ultimately show ?thesis by (rule that)
qed

lemma view_end: "lx_view l f pre [] \<Longrightarrow> lex_next l = (NUL, l)"
  using view_length [of l f pre "[]"] by (simp add: lex_next_def lx_view_def)

lemma view_ignore: "lx_view l f pre rest \<Longrightarrow> lx_view (lex_ignore l) f [] rest"
proof -
  assume v: "lx_view l f pre rest"
  then have "nat (lx_pos l) = length pre + nat (lx_start l)"
    by (simp add: lx_view_def nat_add_distrib)
  then have "drop (nat (lx_pos l)) (lx_src l) = drop (length pre) (drop (nat (lx_start l)) (lx_src l))"
    by (simp only: drop_drop)
  also have "drop (nat (lx_start l)) (lx_src l) = pre @ rest" using v by (simp add: lx_view_def)
  finally have "drop (nat (lx_pos l)) (lx_src l) = rest" by simp
  then show ?thesis using v view_length [OF v] by (simp add: lx_view_def lex_ignore_def)
qed

lemma view_backup: "lx_view l f (pre @ [c]) rest \<Longrightarrow> lx_view (lex_backup l) f pre (c # rest)"
  by (simp add: lx_view_def lex_backup_def)

lemma view_fields [simp]:
  "lx_view (l\<lparr>lx_f := g\<rparr>) f pre rest \<longleftrightarrow> g = f \<and> lx_view l (lx_f l) pre rest"
  "lx_view (l\<lparr>lx_line := n\<rparr>) f pre rest \<longleftrightarrow> lx_view l f pre rest"
  "lx_view (l\<lparr>lx_col := m\<rparr>) f pre rest \<longleftrightarrow> lx_view l f pre rest"
  by (auto simp: lx_view_def)

lemma view_f: "lx_view l f pre rest \<Longrightarrow> lx_f l = f"
  by (simp add: lx_view_def)

lemma view_tok:
  assumes v: "lx_view l f pre rest"
  obtains t where "tok k l = (t, lex_ignore l)" "tk_type t = k" "tk_value t = pre @ rest"
    "tk_length t = int (length pre)" "lx_view (lex_ignore l) f [] rest"
proof -
  have "tok k l = (\<lparr>tk_type = k, tk_value = pre @ rest, tk_length = int (length pre), tk_i = 0\<rparr>,
      lex_ignore l)"
    using v by (simp add: tok_def lx_view_def)
  then show ?thesis using view_ignore [OF v] by (intro that [of "\<lparr>tk_type = k, tk_value = pre @ rest,
      tk_length = int (length pre), tk_i = 0\<rparr>"]) simp_all
qed

lemma view_init:
  "length src \<le> 2147483647 \<Longrightarrow> \<exists>l. lexer_init f (Some src) = Some l \<and> lx_view l (Some f) [] src"
  by (simp add: lexer_init_def lx_view_def)

section \<open>The shared loops on a view\<close>

lemma skip_line_view:
  "lx_view l f pre (s @ CHR 0x0A # rest) \<Longrightarrow> (\<And>c. c \<in> set s \<Longrightarrow> c \<noteq> NUL \<and> c \<noteq> CHR 0x0A) \<Longrightarrow>
   lx_view (skip_line l) f (pre @ s @ [CHR 0x0A]) rest"
proof (induction s arbitrary: l pre)
  case Nil
  then obtain l1 where "lex_next l = (CHR 0x0A, l1)" "lx_view l1 f (pre @ [CHR 0x0A]) rest"
    by (auto elim: view_next)
  then show ?case by (subst skip_line.simps) simp
next
  case (Cons c s)
  then obtain l1 where n: "lex_next l = (c, l1)" and v: "lx_view l1 f (pre @ [c]) (s @ CHR 0x0A # rest)"
    by (auto elim: view_next)
  have "lx_view (skip_line l1) f ((pre @ [c]) @ s @ [CHR 0x0A]) rest"
    by (rule Cons.IH [OF v]) (use Cons.prems in auto)
  then show ?case using Cons.prems(2) [of c] by (subst skip_line.simps) (simp add: n)
qed

lemma skip_line_any:
  "lx_view l f pre rest \<Longrightarrow> \<exists>s rest'. rest = s @ rest' \<and> lx_view (skip_line l) f (pre @ s) rest'"
proof (induction rest arbitrary: l pre)
  case Nil
  then show ?case by (subst skip_line.simps) (simp add: view_end)
next
  case (Cons c rest)
  then obtain l1 where n: "lex_next l = (c, l1)" and v: "lx_view l1 f (pre @ [c]) rest"
    by (auto elim: view_next)
  show ?case
  proof (cases "c \<noteq> NUL \<and> c \<noteq> CHR 0x0A")
    case True
    from Cons.IH [OF v] obtain s rest' where "rest = s @ rest'" "lx_view (skip_line l1) f ((pre @ [c]) @ s) rest'"
      by blast
    with True show ?thesis
      by (intro exI [of _ "c # s"] exI [of _ rest'], subst skip_line.simps) (simp add: n)
  next
    case False
    with v show ?thesis
      by (intro exI [of _ "[c]"] exI [of _ rest], subst skip_line.simps) (auto simp: n)
  qed
qed

lemma scan_quoted_any:
  "lx_view l f pre rest \<Longrightarrow>
   \<exists>b l1 s rest'. scan_quoted q l = (b, l1) \<and> rest = s @ rest' \<and> lx_view l1 f (pre @ s) rest'"
proof (induction "length rest" arbitrary: l pre rest rule: less_induct)
  case less
  show ?case
  proof (cases rest)
    case Nil
    with less.prems have "lex_next l = (NUL, l)" by (simp add: view_end)
    then have "scan_quoted q l = (False, l)" by (subst scan_quoted.simps) simp
    with less.prems Nil show ?thesis by (metis append_Nil2)
  next
    case (Cons c cs)
    with less.prems obtain l1 where n: "lex_next l = (c, l1)" and v: "lx_view l1 f (pre @ [c]) cs"
      by (auto elim: view_next)
    consider "c = NUL \<or> c = q" | "c \<noteq> NUL" "c \<noteq> q" "c = CHR 0x5C"
      | "c \<noteq> NUL" "c \<noteq> q" "c \<noteq> CHR 0x5C" by blast
    then show ?thesis
    proof cases
      case 1
      then have "\<exists>b. scan_quoted q l = (b, l1)" by (subst scan_quoted.simps) (auto simp: n)
      with v Cons show ?thesis by (metis append_Cons append_Nil append_assoc)
    next
      case 2
      obtain p' s' where "lx_view (snd (lex_next l1)) f (pre @ s') p'" "rest = s' @ p'" "length p' < length rest"
      proof (cases cs)
        case Nil
        then show ?thesis using v Cons that [of "[c]" "[]"] by (simp add: view_end)
      next
        case (Cons d ds)
        with v obtain l2 where "lex_next l1 = (d, l2)" "lx_view l2 f (pre @ [c, d]) ds"
          by (auto elim: view_next)
        then show ?thesis using Cons \<open>rest = c # cs\<close> that [of "[c, d]" ds] by simp
      qed
      moreover have "scan_quoted q l = scan_quoted q (snd (lex_next l1))"
        using 2 by (subst scan_quoted.simps) (simp add: n)
      ultimately show ?thesis using less.hyps [of p' "snd (lex_next l1)" "pre @ s'"]
        by (metis append_assoc)
    next
      case 3
      then have "scan_quoted q l = scan_quoted q l1" by (subst scan_quoted.simps) (simp add: n)
      then show ?thesis using less.hyps [OF _ v] Cons by (metis append_assoc append_Cons append_Nil length_Cons lessI)
    qed
  qed
qed

end
