(* ===== verification/Authdb_Laws.thy ===== *)
theory Authdb_Laws
  imports Authdb Lexer_Laws
begin

text \<open>
  The lexer and the parser of the password file on well-formed text: what each token function
  does to the view of the scanner, the entries a table of lines gives.
\<close>

section \<open>The loops on a view\<close>

lemma scan_word_view:
  "lx_view l f pre (w @ d # rest) \<Longrightarrow> (\<And>c. c \<in> set w \<Longrightarrow> c \<noteq> NUL \<and> \<not> isspace c) \<Longrightarrow>
   isspace d \<Longrightarrow> lx_view (scan_word l) f (pre @ w) (d # rest)"
proof (induction w arbitrary: l pre)
  case Nil
  then obtain l1 where "lex_next l = (d, l1)" "lx_view l1 f (pre @ [d]) rest"
    by (auto elim: view_next)
  then show ?case using Nil view_backup by (subst scan_word.simps) simp
next
  case (Cons c w)
  then obtain l1 where n: "lex_next l = (c, l1)" and v: "lx_view l1 f (pre @ [c]) (w @ d # rest)"
    by (auto elim: view_next)
  have "lx_view (scan_word l1) f ((pre @ [c]) @ w) (d # rest)"
    by (rule Cons.IH [OF v]) (use Cons.prems in auto)
  then show ?case using Cons.prems(2) [of c] by (subst scan_word.simps) (simp add: n)
qed

text \<open>A string the test program prints in quotes: no NUL, and no backslash of its own.\<close>

definition quotable :: "bytes \<Rightarrow> bool" where
  "quotable s \<longleftrightarrow> NUL \<notin> set s \<and> CHR 0x5C \<notin> set s"

lemma quotable_Cons: "quotable (c # s) \<longleftrightarrow> c \<noteq> NUL \<and> c \<noteq> CHR 0x5C \<and> quotable s"
  by (auto simp: quotable_def)

lemma scan_quoted_view:
  "lx_view l f pre (quote s @ CHR 0x22 # rest) \<Longrightarrow> quotable s \<Longrightarrow>
   \<exists>l1. scan_quoted (CHR 0x22) l = (True, l1) \<and> lx_view l1 f (pre @ quote s @ [CHR 0x22]) rest"
proof (induction s arbitrary: l pre)
  case Nil
  then obtain l1 where "lex_next l = (CHR 0x22, l1)" "lx_view l1 f (pre @ [CHR 0x22]) rest"
    by (auto elim: view_next)
  then show ?case by (subst scan_quoted.simps) simp
next
  case (Cons c s)
  then have q: "c \<noteq> NUL" "c \<noteq> CHR 0x5C" "quotable s" by (simp_all add: quotable_Cons)
  show ?case
  proof (cases "c = CHR 0x22")
    case True
    with Cons.prems obtain l1 l2 where n: "lex_next l = (CHR 0x5C, l1)" "lex_next l1 = (c, l2)"
      and v: "lx_view l2 f (pre @ [CHR 0x5C, c]) (quote s @ CHR 0x22 # rest)"
      by (auto elim!: view_next)
    from Cons.IH [OF v q(3)] show ?thesis
      by (subst scan_quoted.simps) (simp add: n True)
  next
    case False
    with Cons.prems obtain l1 where n: "lex_next l = (c, l1)"
      and v: "lx_view l1 f (pre @ [c]) (quote s @ CHR 0x22 # rest)"
      by (auto elim: view_next)
    from Cons.IH [OF v q(3)] show ?thesis
      using False q by (subst scan_quoted.simps) (simp add: n)
  qed
qed

lemma unescape_quote:
  "quotable s \<Longrightarrow> unescape (int (length (quote s))) (quote s @ r) = s"
proof (induction s)
  case (Cons c s)
  then show ?case by (simp add: quotable_Cons unescape_char_def)
next
  case Nil
  then show ?case by (cases r) simp_all
qed

section \<open>Tokens\<close>

definition word_start :: "byte \<Rightarrow> bool" where
  "word_start c \<longleftrightarrow> c \<noteq> NUL \<and> \<not> isspace c \<and> c \<noteq> CHR ''#'' \<and> c \<noteq> CHR 0x27 \<and> c \<noteq> CHR 0x22"

definition word_char :: "byte \<Rightarrow> bool" where
  "word_char c \<longleftrightarrow> c \<noteq> NUL \<and> \<not> isspace c"

definition adb_word :: "bytes \<Rightarrow> bool" where
  "adb_word w \<longleftrightarrow> (case w of [] \<Rightarrow> False | c # cs \<Rightarrow> word_start c \<and> (\<forall>d\<in>set cs. word_char d))"

lemma newline_isspace: "isspace (CHR 0x0A)"
  by (simp add: isspace_def uchar_def)

lemma blank_isspace: "isspace (CHR '' '')"
  by (simp add: isspace_def uchar_def)

lemma emit_any:
  "lx_f l = Some LexAny \<Longrightarrow> adb_lex_any l = (t, l1) \<Longrightarrow>
   adb_emit l = (if tk_type t = T_RESTART then adb_emit l1 else Some (t, l1))"
  by (subst adb_emit.simps) simp

lemma takeWhile_word: "(\<And>c. c \<in> set w \<Longrightarrow> c \<noteq> NUL) \<Longrightarrow> takeWhile (\<lambda>c. c \<noteq> NUL) w = w"
  by (simp add: takeWhile_eq_all_conv)

lemma emit_word:
  assumes v: "lx_view l (Some LexAny) [] (w @ d # rest)" and w: "adb_word w" and d: "isspace d"
  obtains t l1 where "adb_emit l = Some (t, l1)" "tk_type t = T_WORD" "word_string t = w"
    "lx_view l1 (Some LexAny) [] (d # rest)"
proof -
  obtain c cs where cs: "w = c # cs" "word_start c" "\<forall>d\<in>set cs. word_char d"
    using w by (auto simp: adb_word_def split: list.splits)
  have nl: "c \<noteq> CHR 0x0A" using cs(2) newline_isspace by (auto simp: word_start_def)
  from v cs obtain l1 where n: "lex_next l = (c, l1)" and v1: "lx_view l1 (Some LexAny) [c] (cs @ d # rest)"
    by (auto elim: view_next)
  have any: "adb_lex_any l = (tok_none T_RESTART, l1\<lparr>lx_f := Some LexBareword\<rparr>)"
    using cs(2) nl by (subst adb_lex_any.simps) (simp add: n word_start_def)
  define l2 where "l2 = l1\<lparr>lx_f := Some LexBareword\<rparr>"
  have "lx_view (l2\<lparr>lx_f := Some LexAny\<rparr>) (Some LexAny) [c] (cs @ d # rest)"
    using v1 view_f [OF v1] by (simp add: l2_def lx_view_def)
  then have "lx_view (scan_word (l2\<lparr>lx_f := Some LexAny\<rparr>)) (Some LexAny) ([c] @ cs) (d # rest)"
    by (rule scan_word_view) (use cs(3) d in \<open>auto simp: word_char_def\<close>)
  then have "lx_view (scan_word (l2\<lparr>lx_f := Some LexAny\<rparr>)) (Some LexAny) w (d # rest)"
    by (simp add: cs)
  then obtain t where t: "tok T_WORD (scan_word (l2\<lparr>lx_f := Some LexAny\<rparr>)) =
        (t, lex_ignore (scan_word (l2\<lparr>lx_f := Some LexAny\<rparr>)))"
      "tk_type t = T_WORD" "tk_value t = w @ d # rest" "tk_length t = int (length w)"
    and v3: "lx_view (lex_ignore (scan_word (l2\<lparr>lx_f := Some LexAny\<rparr>))) (Some LexAny) [] (d # rest)"
    by (rule view_tok)
  define l3 where "l3 = lex_ignore (scan_word (l2\<lparr>lx_f := Some LexAny\<rparr>))"
  have f2: "lx_f l2 = Some LexBareword" by (simp add: l2_def)
  have "adb_emit l = adb_emit l2"
    using emit_any [OF view_f [OF v] any] by (simp add: l2_def tok_none_def)
  also have "\<dots> = Some (t, l3)"
    by (subst adb_emit.simps) (simp add: f2 adb_lex_bareword_def t l3_def)
  finally have "adb_emit l = Some (t, l3)" .
  moreover have "word_string t = w"
  proof -
    have "c' \<noteq> NUL" if "c' \<in> set w" for c' using that cs by (auto simp: word_start_def word_char_def)
    then show ?thesis by (simp add: word_string_def t takeWhile_word)
  qed
  ultimately show ?thesis using t(2) v3 by (intro that [of t l3]) (simp_all add: l3_def)
qed

lemma emit_blank:
  assumes v: "lx_view l (Some LexAny) [] (CHR '' '' # rest)"
  obtains l1 where "adb_emit l = adb_emit l1" "lx_view l1 (Some LexAny) [] rest"
proof -
  from v obtain l1 where n: "lex_next l = (CHR '' '', l1)" and v1: "lx_view l1 (Some LexAny) [CHR '' ''] rest"
    by (auto elim: view_next)
  have v2: "lx_view (lex_ignore l1) (Some LexAny) [] rest" using v1 by (rule view_ignore)
  have any: "adb_lex_any l = adb_lex_any (lex_ignore l1)"
    by (subst adb_lex_any.simps) (simp add: n blank_isspace)
  obtain t l3 where "adb_lex_any (lex_ignore l1) = (t, l3)" by (metis surj_pair)
  then have "adb_emit l = adb_emit (lex_ignore l1)"
    using emit_any [OF view_f [OF v]] emit_any [OF view_f [OF v2]] any by simp
  then show ?thesis using v2 by (rule that)
qed

lemma emit_newline:
  assumes v: "lx_view l (Some LexAny) [] (CHR 0x0A # rest)"
  obtains t l1 where "adb_emit l = Some (t, l1)" "tk_type t = T_NEWLINE"
    "lx_view l1 (Some LexAny) [] rest"
proof -
  from v obtain l1 where n: "lex_next l = (CHR 0x0A, l1)" and v1: "lx_view l1 (Some LexAny) [CHR 0x0A] rest"
    by (auto elim: view_next)
  have any: "adb_lex_any l =
      (tok_none T_NEWLINE, (lex_ignore l1)\<lparr>lx_line := lx_line l1 + 1, lx_col := 0\<rparr>)"
    by (subst adb_lex_any.simps) (simp add: n)
  show ?thesis
    by (rule that [OF emit_any [OF view_f [OF v] any, simplified tok_none_def, simplified]])
       (use view_ignore [OF v1] in simp_all)
qed

lemma emit_comment:
  assumes v: "lx_view l (Some LexAny) [] (CHR ''#'' # s @ CHR 0x0A # rest)"
    and s: "\<And>c. c \<in> set s \<Longrightarrow> c \<noteq> NUL \<and> c \<noteq> CHR 0x0A"
  obtains l1 where "adb_emit l = adb_emit l1" "lx_view l1 (Some LexAny) [] rest"
proof -
  from v obtain l1 where n: "lex_next l = (CHR ''#'', l1)"
    and v1: "lx_view l1 (Some LexAny) [CHR ''#''] (s @ CHR 0x0A # rest)"
    by (auto elim: view_next)
  define l2 where "l2 = lex_ignore (l1\<lparr>lx_f := Some LexComment\<rparr>)"
  have any: "adb_lex_any l = (tok_none T_RESTART, l2)"
    by (subst adb_lex_any.simps) (simp add: n l2_def isspace_def uchar_def)
  have f2: "lx_f l2 = Some LexComment" by (simp add: l2_def lex_ignore_def)
  have "lx_view l2 (Some LexComment) [] (s @ CHR 0x0A # rest)"
    unfolding l2_def by (rule view_ignore [where pre = "''#''"]) (use v1 view_f [OF v1] in \<open>simp add: lx_view_def\<close>)
  then have v3: "lx_view (skip_line l2) (Some LexComment) ([] @ s @ [CHR 0x0A]) rest"
    by (rule skip_line_view) (use s in blast)+
  define l3 where "l3 = (lex_ignore ((skip_line l2)\<lparr>lx_line := lx_line (skip_line l2) + 1\<rparr>))\<lparr>lx_f := Some LexAny\<rparr>"
  have "lx_view (lex_ignore ((skip_line l2)\<lparr>lx_line := lx_line (skip_line l2) + 1\<rparr>)) (Some LexComment) [] rest"
    by (rule view_ignore) (use v3 in simp)
  then have "lx_view l3 (Some LexAny) [] rest"
    unfolding l3_def by (simp add: lx_view_def)
  moreover have "adb_emit l = adb_emit l3"
  proof -
    have "adb_emit l = adb_emit l2"
      using emit_any [OF view_f [OF v] any] by (simp add: tok_none_def)
    also have "\<dots> = adb_emit l3"
      by (subst adb_emit.simps) (simp add: f2 adb_lex_comment_def l3_def tok_none_def Let_def)
    finally show ?thesis .
  qed
  ultimately show ?thesis by (intro that)
qed

lemma emit_eos:
  assumes v: "lx_view l (Some LexAny) [] []"
  obtains t l1 where "adb_emit l = Some (t, l1)" "tk_type t = T_EOS"
proof -
  have any: "adb_lex_any l = (tok_none T_EOS, l\<lparr>lx_f := None\<rparr>)"
    by (subst adb_lex_any.simps) (simp add: view_end [OF v])
  show ?thesis
    by (rule that [OF emit_any [OF view_f [OF v] any, simplified tok_none_def, simplified]]) simp
qed

lemma emit_quoted:
  assumes v: "lx_view l (Some LexAny) [] (CHR 0x22 # quote s @ CHR 0x22 # rest)" and s: "quotable s"
  obtains t l1 where "adb_emit l = Some (t, l1)" "tk_type t = T_QSTRING" "quoted_string t = s"
    "lx_view l1 (Some LexAny) [] rest"
proof -
  from v obtain l1 where n: "lex_next l = (CHR 0x22, l1)"
    and v1: "lx_view l1 (Some LexAny) [CHR 0x22] (quote s @ CHR 0x22 # rest)"
    by (auto elim: view_next)
  define l2 where "l2 = l1\<lparr>lx_f := Some LexQstring\<rparr>"
  have any: "adb_lex_any l = (tok_none T_RESTART, l2)"
    by (subst adb_lex_any.simps) (simp add: n l2_def isspace_def uchar_def)
  have f2: "lx_f l2 = Some LexQstring" by (simp add: l2_def)
  have "lx_view (l2\<lparr>lx_f := Some LexAny\<rparr>) (Some LexAny) ([] @ [CHR 0x22]) (quote s @ CHR 0x22 # rest)"
    using v1 view_f [OF v1] by (simp add: l2_def lx_view_def)
  from view_next [OF view_backup [OF this]]
  obtain l4 where n4: "lex_next (lex_backup (l2\<lparr>lx_f := Some LexAny\<rparr>)) = (CHR 0x22, l4)"
    and v4: "lx_view l4 (Some LexAny) [CHR 0x22] (quote s @ CHR 0x22 # rest)" by auto
  from scan_quoted_view [OF v4 s] obtain l5 where q: "scan_quoted (CHR 0x22) l4 = (True, l5)"
    and v5: "lx_view l5 (Some LexAny) ([CHR 0x22] @ quote s @ [CHR 0x22]) rest" by blast
  from v5 obtain t where t: "tok T_QSTRING l5 = (t, lex_ignore l5)" "tk_type t = T_QSTRING"
      "tk_value t = ([CHR 0x22] @ quote s @ [CHR 0x22]) @ rest"
      "tk_length t = int (length ([CHR 0x22] @ quote s @ [CHR 0x22]))"
    and v6: "lx_view (lex_ignore l5) (Some LexAny) [] rest"
    by (rule view_tok)
  have "adb_emit l = adb_emit l2"
    using emit_any [OF view_f [OF v] any] by (simp add: tok_none_def)
  also have "\<dots> = Some (t, lex_ignore l5)"
    by (subst adb_emit.simps) (simp add: f2 adb_lex_qstring_def n4 q t)
  finally have "adb_emit l = Some (t, lex_ignore l5)" .
  moreover have "quoted_string t = s"
  proof -
    have "unescape (tk_length t - 2) (tl (tk_value t)) = s"
      using s by (simp add: t unescape_quote)
    moreover have "takeWhile (\<lambda>c. c \<noteq> NUL) s = s"
      by (rule takeWhile_word) (use s in \<open>auto simp: quotable_def\<close>)
    ultimately show ?thesis by (simp add: quoted_string_def)
  qed
  ultimately show ?thesis using t(2) v6 by (intro that)
qed

section \<open>Lines\<close>

definition hash_ok :: "bytes \<Rightarrow> bool" where
  "hash_ok h \<longleftrightarrow> (if (\<exists>c\<in>set h. isspace c) then quotable h else adb_word h)"

definition entry_ok :: "bytes \<times> bytes \<Rightarrow> bool" where
  "entry_ok e \<longleftrightarrow> adb_word (fst e) \<and> hash_ok (snd e)"

lemma emit_hash:
  assumes v: "lx_view l (Some LexAny) []
      ((if (\<exists>c\<in>set h. isspace c) then CHR 0x22 # quote h @ [CHR 0x22, CHR 0x0A] else h @ [CHR 0x0A]) @ rest)"
    and h: "hash_ok h"
  obtains t l1 where "adb_emit l = Some (t, l1)" "tk_type t \<in> {T_WORD, T_QSTRING}"
    "adb_as_string t = Some h" "lx_view l1 (Some LexAny) [] (CHR 0x0A # rest)"
proof (cases "\<exists>c\<in>set h. isspace c")
  case True
  then have "quotable h" using h by (simp add: hash_ok_def)
  then show ?thesis
    using v True that by (auto elim!: emit_quoted [of l h "CHR 0x0A # rest"] simp: adb_as_string_def)
next
  case False
  then have "adb_word h" using h by (simp add: hash_ok_def)
  moreover have "lx_view l (Some LexAny) [] (h @ CHR 0x0A # rest)" using v False by simp
  ultimately show ?thesis
    using that newline_isspace by (auto elim!: emit_word [of l h "CHR 0x0A" rest] simp: adb_as_string_def)
qed

lemma parse_newline:
  assumes v: "lx_view (p_l p) (Some LexAny) [] (CHR 0x0A # rest)" and f: "p_f p"
  obtains l1 where "adb_parse p = adb_parse (p\<lparr>p_l := l1\<rparr>)" "lx_view l1 (Some LexAny) [] rest"
proof -
  from v obtain t l1 where e: "adb_emit (p_l p) = Some (t, l1)" "tk_type t = T_NEWLINE"
    and v1: "lx_view l1 (Some LexAny) [] rest" by (rule emit_newline)
  have "adb_parse p = adb_parse (p\<lparr>p_l := l1\<rparr>)"
    by (subst adb_parse.simps) (simp add: f adb_parse_top_def e)
  then show ?thesis using v1 by (rule that)
qed

lemma md5_word: "adb_word ''md5''"
  by (simp add: adb_word_def word_start_def word_char_def isspace_def uchar_def)

lemma parse_line:
  assumes v: "lx_view (p_l p) (Some LexAny) [] (adb_line (u, h) @ rest)" and f: "p_f p"
    and ok: "entry_ok (u, h)"
  obtains l1 where "adb_parse p = adb_parse (p\<lparr>p_entries := (u, h) # p_entries p, p_l := l1\<rparr>)"
    "lx_view l1 (Some LexAny) [] rest"
proof -
  define hs where "hs = (if (\<exists>c\<in>set h. isspace c) then CHR 0x22 # quote h @ [CHR 0x22, CHR 0x0A]
                         else h @ [CHR 0x0A])"
  have line: "adb_line (u, h) @ rest = u @ CHR '' '' # ''md5'' @ CHR '' '' # hs @ rest"
    by (simp add: adb_line_def hs_def)
  from ok have u: "adb_word u" and h: "hash_ok h" by (simp_all add: entry_ok_def)
  from v [unfolded line] u blank_isspace
  obtain t1 l1 where e1: "adb_emit (p_l p) = Some (t1, l1)" "tk_type t1 = T_WORD" "word_string t1 = u"
    and v1: "lx_view l1 (Some LexAny) [] (CHR '' '' # ''md5'' @ CHR '' '' # hs @ rest)"
    by (rule emit_word)
  from v1 obtain l2 where e2: "adb_emit l1 = adb_emit l2"
    and v2: "lx_view l2 (Some LexAny) [] (''md5'' @ CHR '' '' # hs @ rest)"
    by (rule emit_blank)
  from v2 md5_word blank_isspace
  obtain t3 l3 where e3: "adb_emit l2 = Some (t3, l3)" "tk_type t3 = T_WORD" "word_string t3 = ''md5''"
    and v3: "lx_view l3 (Some LexAny) [] (CHR '' '' # hs @ rest)"
    by (rule emit_word)
  from v3 obtain l4 where e4: "adb_emit l3 = adb_emit l4" and v4: "lx_view l4 (Some LexAny) [] (hs @ rest)"
    by (rule emit_blank)
  from v4 [unfolded hs_def] h obtain t5 l5 where e5: "adb_emit l4 = Some (t5, l5)"
      "tk_type t5 \<in> {T_WORD, T_QSTRING}" "adb_as_string t5 = Some h"
    and v5: "lx_view l5 (Some LexAny) [] (CHR 0x0A # rest)"
    by (rule emit_hash)
  define p5 where "p5 = p\<lparr>p_entries := (u, h) # p_entries p, p_l := l5\<rparr>"
  have s: "adb_as_string t1 = Some u" "adb_as_string t3 = Some ''md5''"
    using e1 e3 by (simp_all add: adb_as_string_def)
  have "adb_parse_hash (p\<lparr>p_l := l3\<rparr>) u = Some (0, p5)"
    using e5(2,3) by (auto simp: adb_parse_hash_def e4 e5(1) new_entry_def p5_def)
  then have "adb_parse_top p = Some (0, p5)"
    by (simp add: adb_parse_top_def adb_parse_type_def e1 e2 e3 s)
  then have "adb_parse p = adb_parse p5" by (subst adb_parse.simps) (simp add: f)
  moreover from v5 f obtain l6 where "adb_parse p5 = adb_parse (p5\<lparr>p_l := l6\<rparr>)"
    and v6: "lx_view l6 (Some LexAny) [] rest"
    using parse_newline [of p5 rest] by (auto simp: p5_def)
  ultimately show ?thesis by (intro that [OF _ v6]) (simp add: p5_def)
qed

lemma parse_lines:
  assumes "lx_view (p_l p) (Some LexAny) [] (concat (map adb_line es))" and "p_f p"
    and "\<And>e. e \<in> set es \<Longrightarrow> entry_ok e"
  shows "\<exists>p1. adb_parse p = Some (0, p1) \<and> p_entries p1 = rev es @ p_entries p"
  using assms
proof (induction es arbitrary: p)
  case Nil
  then obtain t l1 where "adb_emit (p_l p) = Some (t, l1)" "tk_type t = T_EOS"
    by (auto elim: emit_eos)
  moreover have "adb_parse (stop_parse q) = Some (0, stop_parse q)" for q
    by (subst adb_parse.simps) (simp add: stop_parse_def)
  ultimately have "adb_parse p = Some (0, stop_parse (p\<lparr>p_l := l1\<rparr>))"
    using Nil by (subst adb_parse.simps) (simp add: adb_parse_top_def)
  then show ?case by (simp add: stop_parse_def)
next
  case (Cons e es)
  obtain u h where e: "e = (u, h)" by (cases e)
  have v: "lx_view (p_l p) (Some LexAny) [] (adb_line (u, h) @ concat (map adb_line es))"
    using Cons.prems(1) by (simp add: e)
  have ok: "entry_ok (u, h)" using Cons.prems(3) by (simp add: e)
  from parse_line [OF v Cons.prems(2) ok] obtain l1 where
    p: "adb_parse p = adb_parse (p\<lparr>p_entries := (u, h) # p_entries p, p_l := l1\<rparr>)"
    and v1: "lx_view l1 (Some LexAny) [] (concat (map adb_line es))" by blast
  have "\<exists>p1. adb_parse (p\<lparr>p_entries := (u, h) # p_entries p, p_l := l1\<rparr>) = Some (0, p1) \<and>
      p_entries p1 = rev es @ (u, h) # p_entries p"
    using Cons.IH [of "p\<lparr>p_entries := (u, h) # p_entries p, p_l := l1\<rparr>"] v1 Cons.prems by simp
  then show ?case by (simp add: p e)
qed

lemma header_comment:
  "''# pgrouter authdb'' @ CHR 0x0A # s = CHR ''#'' # '' pgrouter authdb'' @ CHR 0x0A # s"
  by simp

lemma authdb_of_lines:
  assumes "authdb_file c = Some path" and "fs path = Some (Some (''# pgrouter authdb'' @ CHR 0x0A # concat (map adb_line es)))"
    and size: "length (''# pgrouter authdb'' @ CHR 0x0A # concat (map adb_line es)) \<le> 2147483647"
    and ok: "\<And>e. e \<in> set es \<Longrightarrow> entry_ok e"
  shows "pgr_authdb fs c =
    Some (0, c\<lparr>authdb_usernames := map fst es, authdb_md5hashes := map snd es\<rparr>)"
proof -
  let ?src = "''# pgrouter authdb'' @ CHR 0x0A # concat (map adb_line es)"
  from view_init [OF size, of LexAny] obtain l where l: "lexer_init LexAny (Some ?src) = Some l"
    and v: "lx_view l (Some LexAny) [] ?src" by blast
  define p where "p = \<lparr>p_entries = [], p_l = l, p_f = True\<rparr>"
  from v [unfolded header_comment] obtain l1 where e: "adb_emit l = adb_emit l1"
    and v1: "lx_view l1 (Some LexAny) [] (concat (map adb_line es))"
    by (rule emit_comment) auto
  have "adb_parse_top p = adb_parse_top (p\<lparr>p_l := l1\<rparr>)"
    by (cases "adb_emit l1") (auto simp: adb_parse_top_def p_def e)
  then have "adb_parse p = adb_parse (p\<lparr>p_l := l1\<rparr>)"
    by (subst (1 2) adb_parse.simps) (simp add: p_def)
  moreover have "\<exists>p1. adb_parse (p\<lparr>p_l := l1\<rparr>) = Some (0, p1) \<and> p_entries p1 = rev es @ []"
    using parse_lines [of "p\<lparr>p_l := l1\<rparr>" es] v1 ok by (simp add: p_def)
  ultimately obtain p1 where "adb_parse p = Some (0, p1)" "p_entries p1 = rev es" by auto
  then show ?thesis using assms l by (simp add: pgr_authdb_def adb_parser_init_def p_def rev_map)
qed

end
