(* ===== verification/Authdb_Total.thy ===== *)
theory Authdb_Total
  imports Authdb_Laws
begin

text \<open>
  Loading a password file always returns, whatever the file holds. Progress is not obvious: at
  the end of a text without a final newline \<^verbatim>\<open>lex_bareword\<close> gives back a character it did not
  take, so the lexer can emit empty words without advancing; the parser stops because an
  empty word is not the keyword \<^verbatim>\<open>md5\<close>.
\<close>

section \<open>The loops on any text\<close>

lemma scan_word_any:
  "lx_view l f pre rest \<Longrightarrow> pre \<noteq> [] \<Longrightarrow>
   \<exists>pre' rest'. pre' @ rest' = pre @ rest \<and> length pre \<le> length pre' + 1 \<and> lx_view (scan_word l) f pre' rest'"
proof (induction rest arbitrary: l pre)
  case Nil
  then obtain b c where pre: "pre = b @ [c]" by (metis rev_exhaust)
  then have "lx_view (lex_backup l) f b [c]" using Nil by (intro view_backup) simp
  then show ?case using Nil pre by (subst scan_word.simps) (auto simp: view_end)
next
  case (Cons c rest)
  then obtain l1 where n: "lex_next l = (c, l1)" and v: "lx_view l1 f (pre @ [c]) rest"
    by (auto elim: view_next)
  show ?case
  proof (cases "c = NUL \<or> isspace c")
    case True
    with view_backup [OF v] show ?thesis
      by (intro exI [of _ pre] exI [of _ "c # rest"], subst scan_word.simps) (auto simp: n)
  next
    case False
    from Cons.IH [OF v] obtain pre' rest' where "pre' @ rest' = (pre @ [c]) @ rest"
      "length pre < length pre' + 1" "lx_view (scan_word l1) f pre' rest'"
      by auto
    with False show ?thesis
      by (intro exI [of _ pre'] exI [of _ rest'], subst scan_word.simps) (auto simp: n)
  qed
qed

section \<open>Every token makes progress, or is an empty word\<close>

text \<open>
  What \<open>emit\<close> gives on a text \<open>rest\<close>: an end (of the text, or of an open string), or a token
  with a text \<open>rest'\<close> behind it. \<open>progress\<close> says how the two compare.
\<close>

definition progress :: "bytes \<Rightarrow> adb_token \<Rightarrow> bytes \<Rightarrow> bool" where
  "progress rest t rest' \<longleftrightarrow>
     (case tk_type t of
        T_NEWLINE \<Rightarrow> length rest' < length rest
      | T_QSTRING \<Rightarrow> length rest' < length rest
      | T_WORD \<Rightarrow> length rest' \<le> length rest \<and> (word_string t \<noteq> [] \<longrightarrow> length rest' < length rest)
      | _ \<Rightarrow> False)"

definition emits :: "bytes \<Rightarrow> adb_token \<times> adb_lexer \<Rightarrow> bool" where
  "emits rest r \<longleftrightarrow>
     tk_type (fst r) \<in> {T_EOS, T_ERROR} \<or>
     (\<exists>rest'. lx_view (snd r) (Some LexAny) [] rest' \<and> progress rest (fst r) rest')"

lemma progress_mono: "progress rest t rest' \<Longrightarrow> length rest \<le> length rest0 \<Longrightarrow> progress rest0 t rest'"
  by (auto simp: progress_def split: adb_type.splits)

lemma emits_mono: "emits rest r \<Longrightarrow> length rest \<le> length rest0 \<Longrightarrow> emits rest0 r"
  unfolding emits_def using progress_mono by blast

lemma bareword_emits:
  assumes v: "lx_view l (Some LexAny) [c] rest"
  shows "\<exists>r. adb_emit (l\<lparr>lx_f := Some LexBareword\<rparr>) = Some r \<and> emits (c # rest) r"
proof -
  let ?l = "l\<lparr>lx_f := Some LexBareword\<rparr>"
  have "lx_view (?l\<lparr>lx_f := Some LexAny\<rparr>) (Some LexAny) [c] rest"
    using v by (simp add: lx_view_def)
  from scan_word_any [OF this] obtain pre' rest' where pr: "pre' @ rest' = c # rest"
    and v': "lx_view (scan_word (?l\<lparr>lx_f := Some LexAny\<rparr>)) (Some LexAny) pre' rest'" by auto
  from v' obtain t where t: "tok T_WORD (scan_word (?l\<lparr>lx_f := Some LexAny\<rparr>)) =
        (t, lex_ignore (scan_word (?l\<lparr>lx_f := Some LexAny\<rparr>)))" "tk_type t = T_WORD"
      "tk_value t = pre' @ rest'" "tk_length t = int (length pre')"
    and v2: "lx_view (lex_ignore (scan_word (?l\<lparr>lx_f := Some LexAny\<rparr>))) (Some LexAny) [] rest'"
    by (rule view_tok)
  have len: "length pre' + length rest' = length (c # rest)" by (simp only: flip: length_append pr)
  have "progress (c # rest) t rest'"
    using len by (cases pre') (auto simp: progress_def t(2) word_string_def t(4))
  then have "emits (c # rest) (t, lex_ignore (scan_word (?l\<lparr>lx_f := Some LexAny\<rparr>)))"
    using v2 by (auto simp: emits_def)
  moreover have "adb_emit ?l = Some (t, lex_ignore (scan_word (?l\<lparr>lx_f := Some LexAny\<rparr>)))"
    by (subst adb_emit.simps) (use t in \<open>simp add: adb_lex_bareword_def\<close>)
  ultimately show ?thesis by blast
qed

lemma qstring_emits:
  assumes v: "lx_view l (Some LexAny) [c] rest"
  shows "\<exists>r. adb_emit (l\<lparr>lx_f := Some LexQstring\<rparr>) = Some r \<and> emits (c # rest) r"
proof -
  let ?l = "l\<lparr>lx_f := Some LexQstring\<rparr>"
  have "lx_view (?l\<lparr>lx_f := Some LexAny\<rparr>) (Some LexAny) ([] @ [c]) rest"
    using v by (simp add: lx_view_def)
  from view_next [OF view_backup [OF this]]
  obtain l1 where n: "lex_next (lex_backup (?l\<lparr>lx_f := Some LexAny\<rparr>)) = (c, l1)"
    and v1: "lx_view l1 (Some LexAny) [c] rest" by auto
  from scan_quoted_any [OF v1, of c] obtain b l2 s rest' where q: "scan_quoted c l1 = (b, l2)"
    and s: "rest = s @ rest'" and v2: "lx_view l2 (Some LexAny) ([c] @ s) rest'" by blast
  show ?thesis
  proof (cases b)
    case False
    then have "adb_emit ?l = Some (tok_none T_ERROR, l2)"
      by (subst adb_emit.simps) (simp add: adb_lex_qstring_def n [simplified] q tok_none_def)
    then show ?thesis by (simp add: emits_def tok_none_def)
  next
    case True
    from v2 obtain t where t: "tok T_QSTRING l2 = (t, lex_ignore l2)" "tk_type t = T_QSTRING"
      and v3: "lx_view (lex_ignore l2) (Some LexAny) [] rest'" by (rule view_tok)
    have "adb_emit ?l = Some (t, lex_ignore l2)"
      by (subst adb_emit.simps) (use True in \<open>simp add: adb_lex_qstring_def n [simplified] q t\<close>)
    moreover have "emits (c # rest) (t, lex_ignore l2)"
      using v3 s by (auto simp: emits_def progress_def t(2))
    ultimately show ?thesis by blast
  qed
qed

lemma emit_emits:
  "lx_view l (Some LexAny) [] rest \<Longrightarrow> \<exists>r. adb_emit l = Some r \<and> emits rest r"
proof (induction "length rest" arbitrary: l rest rule: less_induct)
  case less
  note v = less.prems
  show ?case
  proof (cases rest)
    case Nil
    with v obtain t l1 where "adb_emit l = Some (t, l1)" "tk_type t = T_EOS"
      by (auto elim: emit_eos)
    then show ?thesis by (simp add: emits_def)
  next
    case (Cons c cs)
    with v obtain l1 where n: "lex_next l = (c, l1)" and v1: "lx_view l1 (Some LexAny) [c] cs"
      by (auto elim: view_next)
    have shorter: "\<exists>r. adb_emit l' = Some r \<and> emits rest r"
      if "lx_view l' (Some LexAny) [] rest'" "length rest' < length rest" for l' rest'
      using less.hyps [OF that(2) that(1)] that(2) emits_mono by (meson less_imp_le)
    note f = view_f [OF v]
    consider (eos) "c = NUL" | (nl) "c = CHR 0x0A" | (sp) "c \<noteq> NUL" "c \<noteq> CHR 0x0A" "isspace c"
      | (hash) "c = CHR ''#''" | (quot) "c = CHR 0x27 \<or> c = CHR 0x22"
      | (word) "c \<noteq> NUL" "\<not> isspace c" "c \<noteq> CHR ''#''" "c \<noteq> CHR 0x27" "c \<noteq> CHR 0x22" by blast
    then show ?thesis
    proof cases
      case eos
      then have "adb_lex_any l = (tok_none T_EOS, l1\<lparr>lx_f := None\<rparr>)"
        by (subst adb_lex_any.simps) (simp add: n)
      from emit_any [OF f this] show ?thesis by (simp add: emits_def tok_none_def)
    next
      case nl
      with v Cons obtain t l2 where "adb_emit l = Some (t, l2)" "tk_type t = T_NEWLINE"
        "lx_view l2 (Some LexAny) [] cs" by (auto elim: emit_newline)
      then show ?thesis using Cons by (auto simp: emits_def progress_def)
    next
      case sp
      have v2: "lx_view (lex_ignore l1) (Some LexAny) [] cs" using v1 by (rule view_ignore)
      have any: "adb_lex_any l = adb_lex_any (lex_ignore l1)"
        using sp by (subst adb_lex_any.simps) (simp add: n)
      obtain t l3 where "adb_lex_any (lex_ignore l1) = (t, l3)" by (metis surj_pair)
      then have "adb_emit l = adb_emit (lex_ignore l1)"
        using emit_any [OF f] emit_any [OF view_f [OF v2]] any by simp
      then show ?thesis using shorter [OF v2] Cons by simp
    next
      case hash
      define l2 where "l2 = lex_ignore (l1\<lparr>lx_f := Some LexComment\<rparr>)"
      have any: "adb_lex_any l = (tok_none T_RESTART, l2)"
        by (subst adb_lex_any.simps) (simp add: n hash l2_def isspace_def uchar_def)
      have f2: "lx_f l2 = Some LexComment" by (simp add: l2_def lex_ignore_def)
      have "lx_view l2 (Some LexComment) [] cs"
        unfolding l2_def by (rule view_ignore [where pre = "[c]"]) (use v1 in \<open>simp add: lx_view_def\<close>)
      from skip_line_any [OF this] obtain s rest' where s: "cs = s @ rest'"
        and v3: "lx_view (skip_line l2) (Some LexComment) s rest'" by auto
      define l3 where "l3 = (lex_ignore ((skip_line l2)\<lparr>lx_line := lx_line (skip_line l2) + 1\<rparr>))\<lparr>lx_f := Some LexAny\<rparr>"
      have "lx_view (lex_ignore ((skip_line l2)\<lparr>lx_line := lx_line (skip_line l2) + 1\<rparr>)) (Some LexComment) [] rest'"
        by (rule view_ignore) (use v3 in simp)
      then have v4: "lx_view l3 (Some LexAny) [] rest'" by (simp add: l3_def lx_view_def)
      have "adb_emit l = adb_emit l2" using emit_any [OF f any] by (simp add: tok_none_def)
      also have "\<dots> = adb_emit l3"
        by (subst adb_emit.simps) (simp add: f2 adb_lex_comment_def l3_def tok_none_def Let_def)
      finally show ?thesis using shorter [OF v4] s Cons by simp
    next
      case quot
      then have any: "adb_lex_any l = (tok_none T_RESTART, l1\<lparr>lx_f := Some LexQstring\<rparr>)"
        by (subst adb_lex_any.simps) (auto simp: n isspace_def uchar_def)
      have "adb_emit l = adb_emit (l1\<lparr>lx_f := Some LexQstring\<rparr>)"
        using emit_any [OF f any] by (simp add: tok_none_def)
      then show ?thesis using qstring_emits [OF v1] Cons by simp
    next
      case word
      then have "c \<noteq> CHR 0x0A" using newline_isspace by blast
      then have any: "adb_lex_any l = (tok_none T_RESTART, l1\<lparr>lx_f := Some LexBareword\<rparr>)"
        using word by (subst adb_lex_any.simps) (simp add: n)
      have "adb_emit l = adb_emit (l1\<lparr>lx_f := Some LexBareword\<rparr>)"
        using emit_any [OF f any] by (simp add: tok_none_def)
      then show ?thesis using bareword_emits [OF v1] Cons by simp
    qed
  qed
qed

section \<open>The parser stops\<close>

text \<open>One round of the parser: it is over, or it has a shorter text ahead.\<close>

definition round :: "nat \<Rightarrow> int \<times> adb_parser \<Rightarrow> bool" where
  "round n r \<longleftrightarrow> fst r \<noteq> 0 \<or> \<not> p_f (snd r) \<or>
     (\<exists>rest'. lx_view (p_l (snd r)) (Some LexAny) [] rest' \<and> length rest' < n)"

lemma round_stop: "round n (rc, stop_parse p)"
  by (simp add: round_def stop_parse_def)

lemma round_view: "lx_view (p_l p) (Some LexAny) [] rest \<Longrightarrow> length rest < n \<Longrightarrow> round n (rc, p)"
  by (auto simp: round_def)

lemma parse_hash_round:
  assumes v: "lx_view (p_l p) (Some LexAny) [] rest" and n: "length rest < n"
  shows "\<exists>r. adb_parse_hash p user = Some r \<and> round n r"
proof -
  from emit_emits [OF v] obtain t l where e: "adb_emit (p_l p) = Some (t, l)" "emits rest (t, l)"
    by (metis surj_pair)
  then consider "tk_type t \<in> {T_EOS, T_ERROR}"
    | rest' where "lx_view l (Some LexAny) [] rest'" "progress rest t rest'"
    by (auto simp: emits_def)
  then show ?thesis
  proof cases
    case 1
    then show ?thesis by (auto simp: adb_parse_hash_def e round_stop)
  next
    case 2
    then show ?thesis
      using n by (cases "tk_type t") (auto simp: adb_parse_hash_def e round_stop progress_def
          adb_as_string_def new_entry_def intro!: round_view)
  qed
qed

lemma parse_type_round:
  assumes v: "lx_view (p_l p) (Some LexAny) [] rest"
  shows "\<exists>r. adb_parse_type p user = Some r \<and> round (length rest) r"
proof -
  from emit_emits [OF v] obtain t l where e: "adb_emit (p_l p) = Some (t, l)" "emits rest (t, l)"
    by (metis surj_pair)
  then consider "tk_type t \<in> {T_EOS, T_ERROR}"
    | rest' where "lx_view l (Some LexAny) [] rest'" "progress rest t rest'"
    by (auto simp: emits_def)
  then show ?thesis
  proof cases
    case 1
    then show ?thesis by (auto simp: adb_parse_type_def e round_stop)
  next
    case 2
    show ?thesis
    proof (cases "tk_type t = T_WORD \<and> word_string t = ''md5''")
      case True
      then have "length rest' < length rest" using 2 by (simp add: progress_def)
      then show ?thesis
        using True 2 parse_hash_round [of "p\<lparr>p_l := l\<rparr>" rest' "length rest" user]
        by (simp add: adb_parse_type_def e adb_as_string_def)
    next
      case False
      then show ?thesis
        using 2 by (cases "tk_type t") (auto simp: adb_parse_type_def e round_stop progress_def
            adb_as_string_def intro!: round_view)
    qed
  qed
qed

lemma round_mono: "round n r \<Longrightarrow> n \<le> k \<Longrightarrow> round k r"
  by (auto simp: round_def)

lemma parse_top_round:
  assumes v: "lx_view (p_l p) (Some LexAny) [] rest"
  shows "\<exists>r. adb_parse_top p = Some r \<and> round (length rest) r"
proof -
  from emit_emits [OF v] obtain t l where e: "adb_emit (p_l p) = Some (t, l)" "emits rest (t, l)"
    by (metis surj_pair)
  then consider "tk_type t \<in> {T_EOS, T_ERROR}"
    | rest' where "lx_view l (Some LexAny) [] rest'" "progress rest t rest'"
    by (auto simp: emits_def)
  then show ?thesis
  proof cases
    case 1
    then show ?thesis by (auto simp: adb_parse_top_def e round_stop)
  next
    case 2
    show ?thesis
    proof (cases "tk_type t \<in> {T_WORD, T_QSTRING}")
      case True
      then have "length rest' \<le> length rest" using 2 by (auto simp: progress_def)
      moreover obtain user where "adb_as_string t = Some user"
        using True by (auto simp: adb_as_string_def)
      moreover obtain r where "adb_parse_type (p\<lparr>p_l := l\<rparr>) user = Some r" "round (length rest') r"
        using parse_type_round [of "p\<lparr>p_l := l\<rparr>" rest' user] 2 by auto
      ultimately show ?thesis
        using True round_mono [of "length rest'" r "length rest"]
        by (cases r) (auto simp: adb_parse_top_def e)
    next
      case False
      then show ?thesis
        using 2 by (cases "tk_type t") (auto simp: adb_parse_top_def e round_stop progress_def
            intro!: round_view)
    qed
  qed
qed

lemma parse_returns:
  "lx_view (p_l p) (Some LexAny) [] rest \<Longrightarrow> \<exists>p1. adb_parse p = Some (0, p1)"
proof (induction "length rest" arbitrary: p rest rule: less_induct)
  case less
  from parse_top_round [OF less.prems] obtain rc p1
    where t: "adb_parse_top p = Some (rc, p1)" "round (length rest) (rc, p1)" by (metis surj_pair)
  show ?case
  proof (cases "p_f p \<and> rc = 0 \<and> p_f p1")
    case True
    with t obtain rest' where "lx_view (p_l p1) (Some LexAny) [] rest'" "length rest' < length rest"
      by (auto simp: round_def)
    from less.hyps [OF this(2,1)] show ?thesis
      using True t by (subst adb_parse.simps) simp
  next
    case False
    moreover have "adb_parse q = Some (0, q)" if "\<not> p_f q" for q
      using that by (subst adb_parse.simps) simp
    ultimately show ?thesis using t by (subst adb_parse.simps) auto
  qed
qed

text \<open>
  C32: Loading a password file returns for every content of the file: 1 when it cannot be read
  or is larger than INT_MAX, and otherwise 0 with as many names as hashes.
\<close>

lemma authdb_returns:
  assumes "authdb_file c = Some path"
  shows "\<exists>us hs. length us = length hs \<and> pgr_authdb fs c =
    (case fs path of
       Some (Some src) \<Rightarrow>
         if 2147483647 < int (length src) then Some (1, c)
         else Some (0, c\<lparr>authdb_usernames := us, authdb_md5hashes := hs\<rparr>)
     | _ \<Rightarrow> Some (1, c))"
proof (cases "\<exists>src. fs path = Some (Some src) \<and> length src \<le> 2147483647")
  case True
  then obtain src where src: "fs path = Some (Some src)" "length src \<le> 2147483647" by blast
  from view_init [OF src(2), of LexAny] obtain l where l: "lexer_init LexAny (Some src) = Some l"
    and v: "lx_view l (Some LexAny) [] src" by blast
  from v parse_returns [of "\<lparr>p_entries = [], p_l = l, p_f = True\<rparr>" src]
  obtain p1 where p: "adb_parse \<lparr>p_entries = [], p_l = l, p_f = True\<rparr> = Some (0, p1)" by auto
  show ?thesis
    using src l p assms by (intro exI [of _ "rev (map fst (p_entries p1))"] exI [of _ "rev (map snd (p_entries p1))"])
      (simp add: pgr_authdb_def adb_parser_init_def)
next
  case False
  then show ?thesis
    using assms by (intro exI [of _ "[]"])
      (auto simp: pgr_authdb_def adb_parser_init_def lexer_init_def split: option.splits)
qed

end
