(* ===== verification/Backend_Laws.thy ===== *)
theory Backend_Laws
  imports Worker
begin

text \<open>
  The choice of backends: the weights are the running totals of the viable backends, a random
  number above 0 falls on a viable backend in proportion to its weight, the writer is the last
  master, and 0 falls on the first backend, viable or not.
\<close>

section \<open>The weights\<close>

definition viable :: "BACKEND \<Rightarrow> bool" where
  "viable b \<longleftrightarrow> be_role b \<noteq> BACKEND_ROLE_MASTER \<and> be_status b = BACKEND_IS_OK \<and> be_lag b < be_threshold b"

definition share :: "BACKEND \<Rightarrow> int" where
  "share b = (if viable b then be_weight b else 0)"

definition shares :: "BACKEND list \<Rightarrow> int" where
  "shares bs = sum_list (map share bs)"

definition weights_ok :: "BACKEND list \<Rightarrow> bool" where
  "weights_ok bs \<longleftrightarrow> (\<forall>b\<in>set bs. 0 \<le> be_weight b) \<and> shares bs < 2 ^ 31"

lemma share_nonneg: "0 \<le> be_weight b \<Longrightarrow> 0 \<le> share b"
  by (simp add: share_def)

lemma shares_nonneg: "\<forall>b\<in>set bs. 0 \<le> be_weight b \<Longrightarrow> 0 \<le> shares bs"
  unfolding shares_def by (rule sum_list_nonneg) (auto simp: share_def)

lemma shares_Cons [simp]: "shares (b # bs) = share b + shares bs" "shares [] = 0"
  by (simp_all add: shares_def)

lemma shares_append [simp]: "shares (as @ bs) = shares as + shares bs"
  by (simp add: shares_def)

text \<open>The running totals, with 0 for a backend that is not viable.\<close>

fun running :: "int \<Rightarrow> BACKEND list \<Rightarrow> int list" where
  "running cum [] = []"
| "running cum (b # bs) = (if viable b then cum + be_weight b else 0) # running (cum + share b) bs"

fun last_master :: "CONTEXT \<Rightarrow> nat \<Rightarrow> BACKEND list \<Rightarrow> CONNECTION \<Rightarrow> CONNECTION" where
  "last_master c i [] wr = wr"
| "last_master c i (b # bs) wr =
     last_master c (Suc i) bs (if be_role b = BACKEND_ROLE_MASTER then use_backend c i b wr else wr)"

lemma weigh_running:
  "0 \<le> cum \<Longrightarrow> \<forall>b\<in>set bs. 0 \<le> be_weight b \<Longrightarrow> cum + shares bs < 2 ^ 31 \<Longrightarrow>
   weigh c i cum bs wr = (running cum bs, cum + shares bs, last_master c i bs wr)"
proof (induction c i cum bs wr rule: weigh.induct)
  case (2 c i cum b bs wr)
  consider "be_role b = BACKEND_ROLE_MASTER" | "be_role b \<noteq> BACKEND_ROLE_MASTER" "viable b"
    | "be_role b \<noteq> BACKEND_ROLE_MASTER" "\<not> viable b" by blast
  then show ?case
  proof cases
    case 1
    then have s: "\<not> viable b" "share b = 0" by (simp_all add: viable_def share_def)
    have "weigh c (Suc i) cum bs (use_backend c i b wr) =
        (running cum bs, cum + shares bs, last_master c (Suc i) bs (use_backend c i b wr))"
      by (rule "2.IH"(1)) (use 1 s 2 in auto)
    then show ?thesis using 1 s by simp
  next
    case 2
    have b: "share b = be_weight b" "0 \<le> be_weight b" using 2 "2.prems" by (simp_all add: share_def)
    have "0 \<le> shares bs" using "2.prems" by (intro shares_nonneg) simp
    then have i: "int32 (cum + be_weight b) = cum + be_weight b"
      using b "2.prems" by (intro int32_id) auto
    have "weigh c (Suc i) (cum + be_weight b) bs wr =
        (running (cum + be_weight b) bs, cum + be_weight b + shares bs, last_master c (Suc i) bs wr)"
      using "2.IH"(2) [of "cum + be_weight b"] 2 "2.prems" b i by (simp add: viable_def)
    then show ?thesis using 2 b i by (simp add: viable_def Let_def add.assoc)
  next
    case 3
    then have s: "share b = 0" by (simp add: share_def)
    have "weigh c (Suc i) cum bs wr = (running cum bs, cum + shares bs, last_master c (Suc i) bs wr)"
      using "2.IH"(3) 3 s "2.prems" by (simp add: viable_def)
    moreover have "\<not> (be_status b = BACKEND_IS_OK \<and> be_lag b < be_threshold b)"
      using 3 by (simp add: viable_def)
    ultimately show ?thesis using 3 s by auto
  qed
qed simp

section \<open>The pick\<close>

lemma pick_running:
  "0 \<le> cum \<Longrightarrow> cum < r \<Longrightarrow> r \<le> cum + shares bs \<Longrightarrow> \<forall>b\<in>set bs. 0 \<le> be_weight b \<Longrightarrow>
   \<exists>j<length bs. pick r i (running cum bs) = Some (i + j) \<and> viable (bs ! j) \<and>
     cum + shares (take j bs) < r \<and> r \<le> cum + shares (take (Suc j) bs)"
proof (induction bs arbitrary: i cum)
  case (Cons b bs)
  show ?case
  proof (cases "viable b \<and> r \<le> cum + be_weight b")
    case True
    then show ?thesis using Cons.prems by (intro exI [of _ 0]) (simp add: share_def)
  next
    case False
    have "cum + share b < r" using False Cons.prems by (auto simp: share_def)
    moreover have "0 \<le> cum + share b" using Cons.prems share_nonneg [of b] by simp
    ultimately obtain j where "j < length bs" "pick r (Suc i) (running (cum + share b) bs) = Some (Suc i + j)"
      "viable (bs ! j)" "cum + share b + shares (take j bs) < r"
      "r \<le> cum + share b + shares (take (Suc j) bs)"
      using Cons.IH [of "cum + share b" "Suc i"] Cons.prems by auto
    moreover have "\<not> r \<le> (if viable b then cum + be_weight b else 0)" using False Cons.prems by auto
    ultimately show ?thesis
      by (intro exI [of _ "Suc j"]) (simp add: add.assoc)
  qed
qed simp

lemma shares_mono:
  assumes "\<forall>b\<in>set bs. 0 \<le> be_weight b" "i \<le> j"
  shows "shares (take i bs) \<le> shares (take j bs)"
proof -
  have "take j bs = take i bs @ take (j - i) (drop i bs)"
    using assms(2) by (metis take_add le_add_diff_inverse)
  moreover have "0 \<le> shares (take (j - i) (drop i bs))"
    using assms(1) by (intro shares_nonneg) (meson in_set_dropD in_set_takeD)
  ultimately show ?thesis by simp
qed

text \<open>Which random numbers fall on a backend: an interval as long as its weight.\<close>

lemma pick_interval:
  assumes "0 < r" "r \<le> shares bs" "\<forall>b\<in>set bs. 0 \<le> be_weight b" "j < length bs"
  shows "pick r 0 (running 0 bs) = Some j \<longleftrightarrow> shares (take j bs) < r \<and> r \<le> shares (take (Suc j) bs)"
proof -
  from pick_running [of 0 r bs 0] assms obtain i where i: "i < length bs" "pick r 0 (running 0 bs) = Some i"
    "shares (take i bs) < r" "r \<le> shares (take (Suc i) bs)" by auto
  consider "i = j" | "Suc i \<le> j" | "Suc j \<le> i" by arith
  then show ?thesis
  proof cases
    case 2
    with shares_mono [OF assms(3) 2] i show ?thesis by auto
  next
    case 3
    with shares_mono [OF assms(3) 3] i show ?thesis by auto
  qed (use i in auto)
qed


section \<open>The two connections\<close>

text \<open>
  C15: For a random number above 0, determine_backends chooses a viable backend as the reader:
  the one in whose interval of the running totals of the weights the number falls.
\<close>

lemma determine_some:
  assumes ok: "weights_ok (backends c)" and r: "0 < pgr_rand k 0 (shares (backends c))"
    and k: "0 \<le> k" "k \<le> RAND_MAX"
  shows "\<exists>i<length (backends c). viable (backends c ! i) \<and>
     shares (take i (backends c)) < pgr_rand k 0 (shares (backends c)) \<and>
     pgr_rand k 0 (shares (backends c)) \<le> shares (take (Suc i) (backends c)) \<and>
     determine_backends k c rd wr =
       (0, use_backend c i (backends c ! i) rd, last_master c 0 (backends c) wr)"
proof -
  let ?bs = "backends c" and ?r = "pgr_rand k 0 (shares (backends c))"
  from ok have w: "\<forall>b\<in>set ?bs. 0 \<le> be_weight b" "0 + shares ?bs < 2 ^ 31" by (simp_all add: weights_ok_def)
  note run = weigh_running [OF order_refl w, of c 0 wr]
  have le: "?r \<le> shares ?bs" using rand_range [OF k shares_nonneg [OF w(1)]] w(2) by simp
  from pick_running [of 0 ?r ?bs 0] r le w obtain i where "i < length ?bs" "viable (?bs ! i)"
    "pick ?r 0 (running 0 ?bs) = Some i" "shares (take i ?bs) < ?r" "?r \<le> shares (take (Suc i) ?bs)" by auto
  moreover have "shares ?bs \<noteq> 0" using r le by auto
  ultimately show ?thesis using run by (auto simp: determine_backends_def)
qed

lemma determine_none:
  assumes ok: "weights_ok (backends c)" and none: "shares (backends c) = 0"
  shows "determine_backends k c rd wr = (-1, rd, last_master c 0 (backends c) wr)"
proof -
  from ok have w: "\<forall>b\<in>set (backends c). 0 \<le> be_weight b" "0 + shares (backends c) < 2 ^ 31"
    by (simp_all add: weights_ok_def)
  from weigh_running [OF order_refl w, of c 0 wr] none show ?thesis
    by (simp add: determine_backends_def)
qed

text \<open>The number 0 falls on the first backend, whatever its state.\<close>

lemma determine_zero:
  assumes ok: "weights_ok (backends c)" and pos: "shares (backends c) \<noteq> 0"
    and r: "pgr_rand k 0 (shares (backends c)) = 0"
  shows "determine_backends k c rd wr =
    (0, use_backend c 0 (backends c ! 0) rd, last_master c 0 (backends c) wr)"
proof -
  from ok have w: "\<forall>b\<in>set (backends c). 0 \<le> be_weight b" "0 + shares (backends c) < 2 ^ 31"
    by (simp_all add: weights_ok_def)
  obtain b bs where bs: "backends c = b # bs" using pos by (cases "backends c") auto
  have "pick 0 0 (running 0 (backends c)) = Some 0" using w by (simp add: bs)
  with weigh_running [OF order_refl w, of c 0 wr] pos r show ?thesis
    by (simp add: determine_backends_def)
qed

lemma last_master_unchanged:
  "\<forall>b\<in>set bs. be_role b \<noteq> BACKEND_ROLE_MASTER \<Longrightarrow> last_master c i bs wr = wr"
  by (induction bs arbitrary: i) auto

lemma last_master_found:
  "be_role b = BACKEND_ROLE_MASTER \<Longrightarrow> \<forall>x\<in>set bs. be_role x \<noteq> BACKEND_ROLE_MASTER \<Longrightarrow>
   \<exists>wr2. last_master c i (as @ b # bs) wr = use_backend c (i + length as) b wr2"
proof (induction as arbitrary: i wr)
  case (Cons a as)
  let ?wr = "if be_role a = BACKEND_ROLE_MASTER then use_backend c i a wr else wr"
  from Cons.IH [OF Cons.prems, of "Suc i" ?wr] show ?case by simp
qed (auto simp: last_master_unchanged)

end
