(* ===== verification/Samples.thy ===== *)
theory Samples
  imports Reroute Conn_Safety Authdb_Total Backend_Laws
begin

text \<open>
  Small concrete inputs at which the properties of the development are applied: messages of the
  protocol, a world with three sockets, a session, a context with one user and two backends.
\<close>

section \<open>Messages\<close>

definition ex_query :: bytes where "ex_query = ''Q'' @ be32 13 @ ''select 1'' @ [NUL]"
definition ex_row :: bytes where "ex_row = ''D'' @ be32 11 @ ''payload''"
definition ex_done :: bytes where "ex_done = ''C'' @ be32 13 @ ''SELECT 1'' @ [NUL]"
definition ex_ready :: bytes where "ex_ready = ''Z'' @ be32 5 @ ''I''"

lemma ex_whole: "whole ex_query" "whole ex_row" "whole ex_done" "whole ex_ready"
  using wire_size_typed [of "CHR ''Q''" 13 "''select 1'' @ [NUL]"] wire_size_typed [of "CHR ''D''" 11 "''payload''"]
    wire_size_typed [of "CHR ''C''" 13 "''SELECT 1'' @ [NUL]"] wire_size_typed [of "CHR ''Z''" 5 "''I''"]
  by (simp_all add: whole_def ex_query_def ex_row_def ex_done_def ex_ready_def)

lemma ex_heads [simp]:
  "ex_query ! 0 = CHR ''Q''" "ex_row ! 0 = CHR ''D''" "ex_done ! 0 = CHR ''C''" "ex_ready ! 0 = CHR ''Z''"
  by (simp_all add: ex_query_def ex_row_def ex_done_def ex_ready_def)

lemma ex_plain: "plain ex_row" "plain ex_done"
  by (simp_all add: plain_def ex_whole)

lemma ex_lengths [simp]:
  "length ex_query = 14" "length ex_row = 12" "length ex_done = 14" "length ex_ready = 6"
  by (simp_all add: ex_query_def ex_row_def ex_done_def ex_ready_def)

lemma ex_query_text: "drop 5 ex_query = ''select 1'' @ [NUL]"
  by (simp add: ex_query_def be32_def)

lemma ex_not_begin: "\<not> strncaseeq (drop 5 ex_query) ''begin'' 5" "\<not> strncaseeq (drop 5 ex_query) ''commit'' 6"
  unfolding ex_query_text by code_simp+

text \<open>A refusal: severity, SQLSTATE, message.\<close>

definition ex_fields :: "(byte \<times> bytes) list" where
  "ex_fields = [(CHR ''S'', ''ERROR''), (CHR ''C'', ''25006''), (CHR ''M'', ''read-only'')]"

lemma ex_fields_ok: "x \<in> set ex_fields \<Longrightarrow> field_ok x" "sqlstate ex_fields = Some ''25006''"
  by (auto simp: ex_fields_def field_ok_def)

lemma length_ex_error [simp]: "length (error_msg ex_fields) = 31"
  by (simp add: error_msg_def enc_fields_def ex_fields_def)

section \<open>A session\<close>

definition ex_conn :: "int \<Rightarrow> CONNECTION" where
  "ex_conn fd = (pgr_conn_init 0)\<lparr>cn_fd := fd\<rparr>"

definition ex_world :: "(int \<Rightarrow> rd list) \<Rightarrow> world" where
  "ex_world q = \<lparr>rdq = q, wrq = \<lambda>_. [], sent = \<lambda>_. [], files = \<lambda>_. None, tmpq = [9], closed = [],
                 netq = [], netlog = []\<rparr>"

definition ex_session :: "(int \<Rightarrow> rd list) \<Rightarrow> session" where
  "ex_session q = \<lparr>hc_pc = TOP, frontend = ex_conn 5, reader = ex_conn 6, writer = ex_conn 7,
     fe = pgr_mbuf_setfd (pgr_mbuf_new 16384) 5 MBUF_NO_FD, be = pgr_mbuf_setfd (pgr_mbuf_new 4096) MBUF_NO_FD 5,
     befd = -1, in_txn = 0, hc_type = 0, hc_world = ex_world q\<rparr>"

lemma ex_setfd:
  "pgr_mbuf_setfd (pgr_mbuf_new k) 5 MBUF_NO_FD = (pgr_mbuf_new k)\<lparr>infd := 5, outfd := -1\<rparr>"
  "pgr_mbuf_setfd (pgr_mbuf_new k) MBUF_NO_FD 5 = (pgr_mbuf_new k)\<lparr>infd := -1, outfd := 5\<rparr>"
  by (simp_all add: pgr_mbuf_setfd_def MBUF_NO_FD_def MBUF_SAME_FD_def)

lemma ex_session_eq:
  "ex_session q = \<lparr>hc_pc = TOP, frontend = ex_conn 5, reader = ex_conn 6, writer = ex_conn 7,
     fe = (pgr_mbuf_new 16384)\<lparr>infd := 5, outfd := -1\<rparr>, be = (pgr_mbuf_new 4096)\<lparr>infd := -1, outfd := 5\<rparr>,
     befd = -1, in_txn = 0, hc_type = 0, hc_world = ex_world q\<rparr>"
  by (simp add: ex_session_def ex_setfd)

lemma ex_session_ok: "session_ok (ex_session q)"
  by (simp add: session_ok_def session_base_def ex_session_eq ex_world_def ex_conn_def socket_def writable_def
      sendable_def overflow_ok_def mbuf_wf_def pgr_mbuf_new_def)

lemma ex_session_views:
  "hc_pc (ex_session q) = TOP" "in_txn (ex_session q) = 0"
  "cn_fd (frontend (ex_session q)) = 5" "cn_fd (reader (ex_session q)) = 6" "cn_fd (writer (ex_session q)) = 7"
  "asked (ex_session q) = stream (q 5)" "answers (ex_session q) x = stream (q x)"
  "start (fe (ex_session q)) + 5 \<le> len (fe (ex_session q))" "window (be (ex_session q)) = []"
  "len (be (ex_session q)) = 4096" "rdq (hc_world (ex_session q)) = q" "log_of (ex_session q) = []"
  "out_of (ex_session q) x = []"
  by (simp_all add: ex_session_eq ex_conn_def asked_def answers_def unread_def window_def available_def
      pgr_mbuf_new_def input_def ex_world_def log_of_def history_def out_of_def)

section \<open>A context\<close>

definition ex_backend :: "int \<Rightarrow> int \<Rightarrow> BACKEND" where
  "ex_backend role weight = \<lparr>be_serial = 1, be_hostname = ''10.0.0.1'', be_port = 5432, be_tls = 0, be_role = role,
     be_status = BACKEND_IS_OK, be_weight = weight, be_database = ''db'', be_username = ''u'', be_password = ''p'',
     be_lag = 0, be_threshold = 100\<rparr>"

definition ex_hash :: bytes where "ex_hash = replicate 32 (CHR ''a'')"

definition ex_context :: CONTEXT where
  "ex_context = \<lparr>cx_frontend4 = -1, cx_frontend6 = -1, cx_monitor4 = -1, cx_monitor6 = -1, cx_workers = 2,
     cx_loglevel = 3, health_interval = 10, health_timeout = 2, health_database = None, health_username = None,
     health_password = None, authdb_file = Some ''authdb'', authdb_usernames = [''alice''], authdb_md5hashes = [ex_hash],
     st_frontend = None, st_monitor = None, st_hbafile = None, st_pidfile = None, st_tls_ciphers = None,
     st_tls_certfile = None, st_tls_keyfile = None, st_user = None, st_group = None, st_daemonize = 0,
     fe_conns = 0, be_conns = 0, ok_backends = 0,
     backends = [ex_backend BACKEND_ROLE_MASTER 0, ex_backend BACKEND_ROLE_SLAVE 3, ex_backend BACKEND_ROLE_SLAVE 1]\<rparr>"

lemma ex_find: "pgr_auth_find ex_context u = (if u = ''alice'' then Some ex_hash else None)"
  by (simp add: pgr_auth_find_def ex_context_def)

lemma length_ex_hash [simp]: "length ex_hash = 32"
  by (simp add: ex_hash_def)

lemma ex_backends: "weights_ok (backends ex_context)" "shares (backends ex_context) = 4"
  by (simp_all add: weights_ok_def ex_context_def ex_backend_def share_def viable_def backend_role_defs backend_status_defs)

lemma ex_rand: "pgr_rand 0 0 4 = 0" "pgr_rand RAND_MAX 0 4 = 4"
  by (simp_all add: pgr_rand_def c_trunc_def RAND_MAX_def int32_def floor_eq_iff)

definition ex_params :: "(bytes \<times> bytes) list" where
  "ex_params = [(''user'', ''alice'')]"

lemma ex_params_ok: "p \<in> set ex_params \<Longrightarrow> param_ok p" "startup_len ex_params = 20"
  by (auto simp: ex_params_def param_ok_def startup_len_def)

end
