(* ===== verification/Monitor.thy ===== *)
theory Monitor
  imports Net Context
begin

text \<open>
  The monitor (\<^verbatim>\<open>src/monitor.c\<close>): the report on the backends that a client gets, and the loop that
  serves its clients; \<^verbatim>\<open>pgr_sendf\<close> of \<^verbatim>\<open>src/net.c\<close>, on the text that \<^verbatim>\<open>vasprintf\<close> makes. What
  \<^verbatim>\<open>select\<close> and \<^verbatim>\<open>accept\<close> return is given.
\<close>

section \<open>The report\<close>

definition pgr_sendf :: "int \<Rightarrow> bytes \<Rightarrow> world \<Rightarrow> int \<times> world" where
  "pgr_sendf fd text w = pgr_sendn fd text w"

definition backend_line :: "BACKEND \<Rightarrow> bytes" where
  "backend_line b =
     (if be_status b = BACKEND_IS_OK then
        be_hostname b @ '':'' @ fmt_d (be_port b) @ '' '' @ pgr_backend_role (be_role b) @ '' '' @
        pgr_backend_status (be_status b) @ '' '' @ dec (unat (be_lag b)) @ ''/'' @ dec (unat (be_threshold b)) @ [CHR 0x0A]
      else
        be_hostname b @ '':'' @ fmt_d (be_port b) @ '' '' @ pgr_backend_role (be_role b) @ '' '' @
        pgr_backend_status (be_status b) @ [CHR 0x0A])"

text \<open>\<^verbatim>\<open>handle_client\<close>: the results of the sends are dropped.\<close>

fun send_backends :: "int \<Rightarrow> BACKEND list \<Rightarrow> world \<Rightarrow> world" where
  "send_backends fd [] w = w"
| "send_backends fd (b # bs) w = send_backends fd bs (snd (pgr_sendf fd (backend_line b) w))"

definition monitor_client :: "CONTEXT \<Rightarrow> int \<Rightarrow> world \<Rightarrow> world" where
  "monitor_client c fd w =
     (let w1 = snd (pgr_sendf fd (''backends '' @ fmt_d (ok_backends c) @ ''/'' @ fmt_d (int (length (backends c))) @ [CHR 0x0A]) w);
          w2 = snd (pgr_sendf fd (''workers '' @ fmt_d (cx_workers c) @ [CHR 0x0A]) w1);
          w3 = snd (pgr_sendf fd (''clients '' @ fmt_d (fe_conns c) @ [CHR 0x0A]) w2)
      in send_backends fd (backends c) w3)"

section \<open>The loop\<close>

datatype select_result = Readable "int \<Rightarrow> bool" | Interrupted | SelectError

text \<open>The two descriptors that are watched; \<open>acc fd\<close> is what \<^verbatim>\<open>accept\<close> returns for one.\<close>

fun monitor_ready :: "CONTEXT \<Rightarrow> (int \<Rightarrow> bool) \<Rightarrow> (int \<Rightarrow> int) \<Rightarrow> int list \<Rightarrow> world \<Rightarrow> world" where
  "monitor_ready c ready acc [] w = w"
| "monitor_ready c ready acc (x # xs) w =
     monitor_ready c ready acc xs
       (if 0 \<le> x \<and> ready x then sys_close (acc x) (monitor_client c (acc x) w) else w)"

text \<open>One round of \<^verbatim>\<open>do_monitor\<close>; \<open>None\<close> is the end of the process by \<^verbatim>\<open>pgr_abort\<close>.\<close>

definition monitor_round :: "CONTEXT \<Rightarrow> select_result \<Rightarrow> (int \<Rightarrow> int) \<Rightarrow> world \<Rightarrow> world option" where
  "monitor_round c sel acc w =
     (case sel of
        SelectError \<Rightarrow> None
      | Interrupted \<Rightarrow> Some w
      | Readable ready \<Rightarrow> Some (monitor_ready c ready acc [cx_monitor4 c, cx_monitor6 c] w))"

end
