(* ===== verification/Net_Laws.thy ===== *)
theory Net_Laws
  imports Monitor Msg_Stream
begin

text \<open>
  Full writes and reads as transfers of octets, the report of the monitor as the text its client
  gets, and the sockets that listening leaves behind.
\<close>

section \<open>Full writes\<close>

lemma pgr_sendn_prefix:
  "pgr_sendn fd b w = (rc, w1) \<Longrightarrow> files w fd = None \<Longrightarrow>
   \<exists>k\<le>length b. sent w1 = (sent w)(fd := sent w fd @ take k b) \<and> rc = (if k = length b then 0 else 1) \<and> files w1 = files w"
proof (induction fd b w arbitrary: rc w1 rule: pgr_sendn.induct)
  case (1 fd b w)
  show ?case
  proof (cases "b = []")
    case True
    then show ?thesis using 1(2) by (simp add: pgr_sendn.simps)
  next
    case False
    obtain n w2 where wr: "sys_write fd b w = (n, w2)" by (metis surj_pair)
    show ?thesis
    proof (cases "n \<le> 0")
      case True
      then have "rc = 1" "w1 = w2" using 1(2) False wr by (simp_all add: pgr_sendn.simps [of fd b])
      moreover have "sent w2 = sent w" "files w2 = files w"
        using wr True 1(3) False by (auto simp: sys_write_def put_socket Let_def min_def split: list.splits wr.splits if_splits)
      ultimately show ?thesis using False by (intro exI [of _ 0]) simp
    next
      case pos: False
      have n: "0 < nat n" "nat n \<le> length b" using pos sys_write_bound [OF wr] by simp_all
      have s2: "sent w2 = (sent w)(fd := sent w fd @ take (nat n) b)" "files w2 = files w"
        using wr pos 1(3) by (auto simp: sys_write_def put_socket Let_def split: list.splits wr.splits)
      have "pgr_sendn fd (drop (nat n) b) w2 = (rc, w1)" using 1(2) False pos wr by (simp add: pgr_sendn.simps [of fd b])
      from "1.IH" [OF False wr [symmetric] pos this] s2(2) 1(3) obtain k where k: "k \<le> length b - nat n"
        "sent w1 = (sent w2)(fd := sent w2 fd @ take k (drop (nat n) b))" "rc = (if k = length b - nat n then 0 else 1)"
        "files w1 = files w" by (auto simp only: length_drop)
      have "sent w1 = (sent w)(fd := sent w fd @ take (nat n + k) b)" using k(2) s2(1) by (simp add: take_add)
      moreover have "nat n + k \<le> length b" "rc = (if nat n + k = length b then 0 else 1)" using k(1,3) n by auto
      ultimately show ?thesis using k(4) by blast
    qed
  qed
qed

lemma pgr_sendn_all:
  assumes "files w fd = None" and "writable fd w"
  shows "\<exists>w1. pgr_sendn fd b w = (0, w1) \<and> sent w1 = (sent w)(fd := sent w fd @ b) \<and> files w1 = files w \<and> writable fd w1"
  using assms
proof (induction fd b w rule: pgr_sendn.induct)
  case (1 fd b w)
  show ?case
  proof (cases "b = []")
    case True
    then show ?thesis using 1 by (simp add: pgr_sendn.simps)
  next
    case False
    obtain n w2 where wr: "sys_write fd b w = (n, w2)" by (metis surj_pair)
    have pos: "\<not> n \<le> 0" and w2: "writable fd w2"
      using wr False 1(2,3) by (cases "wrq w fd"; cases "hd (wrq w fd)"; auto simp: sys_write_def writable_def Let_def put_fields)+
    have s2: "sent w2 = (sent w)(fd := sent w fd @ take (nat n) b)" "files w2 = files w"
      using wr pos 1(2) by (auto simp: sys_write_def put_socket Let_def split: list.splits wr.splits)
    have f2: "files w2 fd = None" using s2(2) 1(2) by simp
    from "1.IH" [OF False wr [symmetric] pos f2 w2] obtain w1 where
      "pgr_sendn fd (drop (nat n) b) w2 = (0, w1)" "sent w1 = (sent w2)(fd := sent w2 fd @ drop (nat n) b)"
      "files w1 = files w2" "writable fd w1" by blast
    then show ?thesis using False wr pos s2 by (subst pgr_sendn.simps) simp
  qed
qed

section \<open>The report\<close>

definition report :: "CONTEXT \<Rightarrow> bytes" where
  "report c = ''backends '' @ fmt_d (ok_backends c) @ ''/'' @ fmt_d (int (length (backends c))) @ [CHR 0x0A] @
     ''workers '' @ fmt_d (cx_workers c) @ [CHR 0x0A] @ ''clients '' @ fmt_d (fe_conns c) @ [CHR 0x0A] @
     concat (map backend_line (backends c))"

lemma pgr_sendf_all:
  assumes "files w fd = None" and "writable fd w"
  shows "sent (snd (pgr_sendf fd b w)) = (sent w)(fd := sent w fd @ b)" "files (snd (pgr_sendf fd b w)) fd = None"
    "writable fd (snd (pgr_sendf fd b w))"
  using pgr_sendn_all [OF assms, of b] assms(1) by (auto simp: pgr_sendf_def)

lemma send_backends_all:
  "files w fd = None \<Longrightarrow> writable fd w \<Longrightarrow>
   sent (send_backends fd bs w) = (sent w)(fd := sent w fd @ concat (map backend_line bs))"
  by (induction bs arbitrary: w) (simp_all add: pgr_sendf_all)


section \<open>Full reads\<close>

lemma recvn_stream:
  "pgr_recvn fd k w = (0, bs, w1) \<Longrightarrow> files w fd = None \<Longrightarrow> length bs = k \<and> input fd w = bs @ input fd w1"
proof (induction fd k w arbitrary: bs w1 rule: pgr_recvn.induct)
  case (1 fd k w)
  obtain n cs w2 where rd: "sys_read fd k w = (n, cs, w2)" by (metis surj_pair)
  show ?case
  proof (cases "k = 0")
    case True
    then show ?thesis using 1(2) by (simp add: pgr_recvn.simps)
  next
    case False
    then obtain ds where n: "\<not> n \<le> 0" and r: "pgr_recvn fd (k - length cs) w2 = (0, ds, w1)" and bs: "bs = cs @ ds"
      using 1(2) by (subst (asm) pgr_recvn.simps) (auto simp: rd split: if_splits prod.splits)
    note s = sys_read_socket [OF rd 1(3)]
    have "files w2 fd = None" using s(5) n 1(3) by auto
    from "1.IH" [OF False rd [symmetric] refl n r this] show ?thesis using s(2,4) n bs by auto
  qed
qed

section \<open>Listening\<close>

lemma port_digits_fold:
  "(\<And>c. c \<in> set s \<Longrightarrow> isdigit c) \<Longrightarrow> port_digits i s = Some (foldl (\<lambda>i c. int32 (i * 10 + digit c)) i s)"
  by (induction s arbitrary: i) auto

lemma endpoint_parts:
  assumes "CHR '':'' \<notin> set host" and "n \<le> 0xffff"
  shows "getport (host @ CHR '':'' # dec n) = int n" "gethost (host @ CHR '':'' # dec n) = Some host"
proof -
  have d: "dropWhile (\<lambda>c. c \<noteq> CHR '':'') (host @ CHR '':'' # dec n) = CHR '':'' # dec n"
    "takeWhile (\<lambda>c. c \<noteq> CHR '':'') (host @ CHR '':'' # dec n) = host"
    using assms(1) by (induction host) auto
  have "port_digits 0 (dec n) = Some (int n)"
    using dec_digits [of _ n] assms(2) by (simp add: port_digits_fold foldl_dec_int32)
  then show "getport (host @ CHR '':'' # dec n) = int n" using assms(2) by (simp add: getport_def d)
  show "gethost (host @ CHR '':'' # dec n) = Some host" by (simp add: gethost_def d)
qed

text \<open>The host of an endpoint that is no IPv6 address is not refused: the socket is bound to all interfaces.\<close>

lemma listen6_any_host:
  assumes "CHR '':'' \<notin> set host" and "n \<le> 0xffff" and "pton AF_INET6 host = None"
    and "netq w = [fd, r1, r2, r3, 0, 0]" and "0 \<le> fd"
  shows "pgr_listen6 pton (host @ CHR '':'' # dec n) backlog w =
     Some (fd, w\<lparr>netq := [], netlog := [Listen fd backlog, Bind fd (SIN6 (of_nat n) in6addr_any), V6Only fd, ReuseAddr fd,
       NoDelay fd, Socket AF_INET6] @ netlog w\<rparr>)"
  using assms(3-5)
  by (simp add: pgr_listen6_def ipv6_endpoint_def ipv6_hostport_def endpoint_parts [OF assms(1,2)] Let_def sys_net_def
      bind_and_listen_def)

end
