(* ===== verification/Watcher.thy ===== *)
theory Watcher
  imports Context
begin

text \<open>
  The watcher (\<^verbatim>\<open>src/watcher.c\<close>): positions in the log, the cached health information, the
  probes and the update of the context. libpq is a parameter: \<open>pq i dsn\<close> is the connection that
  the probe of backend \<open>i\<close> gets.
\<close>

section \<open>Positions\<close>

text \<open>The three conditions as they are written.\<close>

definition xlog_digit :: "u64 \<Rightarrow> byte \<Rightarrow> u64 option" where
  "xlog_digit v c =
     (if schar c \<ge> schar (CHR ''0'') \<or> schar c \<le> schar (CHR ''9'') then Some (v * 0xf + of_int (schar c - schar (CHR ''0'')))
      else if schar c \<ge> schar (CHR ''a'') \<or> schar c \<le> schar (CHR ''f'') then Some (v * 0xf + of_int (schar c - schar (CHR ''a'')))
      else if schar c \<ge> schar (CHR ''A'') \<or> schar c \<le> schar (CHR ''F'') then Some (v * 0xf + of_int (schar c - schar (CHR ''A'')))
      else None)"

text \<open>A loop of \<^verbatim>\<open>xlog\<close>: the value, and the text from where the loop stops.\<close>

fun xlog_part :: "byte set \<Rightarrow> u64 \<Rightarrow> bytes \<Rightarrow> (u64 \<times> bytes) option" where
  "xlog_part ends v [] = Some (v, [])"
| "xlog_part ends v (c # s) =
     (if c \<in> ends then Some (v, c # s)
      else (case xlog_digit v c of None \<Rightarrow> None | Some v1 \<Rightarrow> xlog_part ends v1 s))"

text \<open>\<open>xlog s lag\<close>: the result, and what is behind the pointer afterwards.\<close>

definition xlog :: "bytes \<Rightarrow> u64 \<Rightarrow> int \<times> u64" where
  "xlog s lag =
     (case xlog_part {CHR ''/''} 0 s of
        None \<Rightarrow> (1, lag)
      | Some (hi, p) \<Rightarrow>
          (case p of
             [] \<Rightarrow> (1, lag)
           | _ # p1 \<Rightarrow>
               (case xlog_part {} 0 p1 of None \<Rightarrow> (1, lag) | Some (lo, _) \<Rightarrow> (0, push_bit 32 hi OR lo))))"

section \<open>The cached health information\<close>

record HEALTH =
  hl_serial   :: int
  hl_timeout  :: int
  hl_ok       :: int
  hl_role     :: int
  hl_pos      :: u64
  hl_endpoint :: bytes
  hl_userdb   :: bytes
  hl_dsn      :: bytes

definition blank_health :: HEALTH where
  "blank_health = \<lparr>hl_serial = 0, hl_timeout = 0, hl_ok = 0, hl_role = 0, hl_pos = 0, hl_endpoint = [],
     hl_userdb = [], hl_dsn = []\<rparr>"

definition cache_one :: "CONTEXT \<Rightarrow> BACKEND \<Rightarrow> HEALTH \<Rightarrow> HEALTH" where
  "cache_one c b h =
     (if be_serial b \<noteq> hl_serial h then
        h\<lparr>hl_timeout := health_timeout c,
          hl_endpoint := snprintf 256 (be_hostname b @ '':'' @ fmt_d (be_port b)),
          hl_userdb := snprintf 256 (be_username b @ ''@'' @ be_database b),
          hl_dsn := snprintf 1024 (''host='' @ be_hostname b @ '' port='' @ fmt_d (be_port b) @ '' user='' @ be_username b @
            '' password='' @ [CHR 0x27] @ be_password b @ [CHR 0x27] @ '' dbname='' @ be_database b @
            '' connect_timeout='' @ fmt_d (health_timeout c) @ '' application_name=pgrouter''),
          hl_serial := be_serial b, hl_role := be_role b\<rparr>
      else h)"

definition watch_cache :: "CONTEXT \<Rightarrow> HEALTH list \<Rightarrow> HEALTH list" where
  "watch_cache c hs =
     map2 (cache_one c) (backends c)
       (if length (backends c) \<noteq> length hs then replicate (length (backends c)) blank_health else hs)"

section \<open>The probe of a backend\<close>

text \<open>What the watcher asks libpq for; \<open>None\<close> stands for a NULL result.\<close>

datatype pg_status = CONNECTION_OK | CONNECTION_BAD | CONNECTION_OTHER

record pg_result =
  pr_tuples_ok :: bool
  pr_ntuples   :: int
  pr_nfields   :: int
  pr_value     :: bytes

record pg_conn =
  pq_status :: pg_status
  pq_exec   :: "bytes \<Rightarrow> pg_result option"

text \<open>A value, the end of the process by \<^verbatim>\<open>pgr_abort\<close>, or undefined behaviour.\<close>

datatype 'a outcome = Value 'a | Aborted | Undefined

text \<open>The checks after each query: exactly one row of one field.\<close>

definition pg_query :: "pg_conn \<Rightarrow> bytes \<Rightarrow> bytes option outcome" where
  "pg_query q sql =
     (case pq_exec q sql of
        None \<Rightarrow> Aborted
      | Some r \<Rightarrow>
          if \<not> pr_tuples_ok r then Value None
          else if pr_ntuples r \<noteq> 1 then Value None
          else if pr_nfields r \<noteq> 1 then Value None
          else Value (Some (pr_value r)))"

definition recovery_query :: bytes where "recovery_query = ''SELECT pg_is_in_recovery()''"

definition position_query :: "int \<Rightarrow> bytes" where
  "position_query role = (if role = BACKEND_ROLE_MASTER then ''SELECT pg_current_xlog_location()''
     else ''SELECT pg_last_xlog_receive_location()'')"

definition role_of :: "bytes \<Rightarrow> int" where
  "role_of val = (case val of c # _ \<Rightarrow> if c = CHR ''t'' then BACKEND_ROLE_SLAVE else BACKEND_ROLE_MASTER
     | [] \<Rightarrow> BACKEND_ROLE_MASTER)"

text \<open>The part after the role is known. \<^verbatim>\<open>master_pos\<close> is an \<^verbatim>\<open>int\<close>: it takes the lower 32 bits.\<close>

definition probe_position :: "pg_conn \<Rightarrow> HEALTH \<Rightarrow> int \<Rightarrow> (HEALTH \<times> int) outcome" where
  "probe_position q h master_pos =
     (case pg_query q (position_query (hl_role h)) of
        Aborted \<Rightarrow> Aborted | Undefined \<Rightarrow> Undefined
      | Value None \<Rightarrow> Value (h\<lparr>hl_ok := BACKEND_IS_HALFUP\<rparr>, master_pos)
      | Value (Some val) \<Rightarrow>
          (case xlog val (hl_pos h) of
             (rc, pos) \<Rightarrow>
               if rc \<noteq> 0 then Value (h, master_pos)
               else Value (h\<lparr>hl_pos := pos, hl_ok := BACKEND_IS_OK\<rparr>,
                           if hl_role h = BACKEND_ROLE_MASTER then int32 (uint pos) else master_pos)))"

text \<open>\<open>Undefined\<close>: \<^verbatim>\<open>PQclear\<close> of a result that was never set, on a status libpq does not document here.\<close>

definition probe :: "pg_conn option \<Rightarrow> HEALTH \<Rightarrow> int \<Rightarrow> (HEALTH \<times> int) outcome" where
  "probe conn h0 master_pos =
     (let h = h0\<lparr>hl_ok := BACKEND_IS_FAILED, hl_pos := 0\<rparr>
      in case conn of
           None \<Rightarrow> Aborted
         | Some q \<Rightarrow>
             (case pq_status q of
                CONNECTION_BAD \<Rightarrow> Value (h, master_pos)
              | CONNECTION_OTHER \<Rightarrow> Undefined
              | CONNECTION_OK \<Rightarrow>
                  (case pg_query q recovery_query of
                     Aborted \<Rightarrow> Aborted | Undefined \<Rightarrow> Undefined
                   | Value None \<Rightarrow> Value (h\<lparr>hl_ok := BACKEND_IS_HALFUP\<rparr>, master_pos)
                   | Value (Some val) \<Rightarrow> probe_position q (h\<lparr>hl_role := role_of val\<rparr>) master_pos)))"

fun probes :: "(nat \<Rightarrow> bytes \<Rightarrow> pg_conn option) \<Rightarrow> nat \<Rightarrow> HEALTH list \<Rightarrow> int \<Rightarrow> (HEALTH list \<times> int) outcome" where
  "probes pq i [] master_pos = Value ([], master_pos)"
| "probes pq i (h # hs) master_pos =
     (case probe (pq i (hl_dsn h)) h master_pos of
        Aborted \<Rightarrow> Aborted | Undefined \<Rightarrow> Undefined
      | Value (h1, mp1) \<Rightarrow>
          (case probes pq (Suc i) hs mp1 of
             Aborted \<Rightarrow> Aborted | Undefined \<Rightarrow> Undefined
           | Value (hs1, mp2) \<Rightarrow> Value (h1 # hs1, mp2)))"

section \<open>The update of the context\<close>

text \<open>The new backend, and what it adds to \<^verbatim>\<open>ok_backends\<close>.\<close>

definition update_one :: "int \<Rightarrow> BACKEND \<Rightarrow> HEALTH \<Rightarrow> BACKEND \<times> int" where
  "update_one master_pos b h =
     (if hl_serial h \<noteq> be_serial b then (b, 0)
      else (b\<lparr>be_status := hl_ok h, be_role := hl_role h, be_lag := of_int master_pos - hl_pos h\<rparr>,
            if hl_ok h = BACKEND_IS_OK then 1 else 0))"

text \<open>\<open>None\<close>: the number of backends has changed, the round is dropped.\<close>

definition watch_update :: "int \<Rightarrow> HEALTH list \<Rightarrow> CONTEXT \<Rightarrow> CONTEXT option" where
  "watch_update master_pos hs c =
     (if length (backends c) \<noteq> length hs then None
      else (let us = map2 (update_one master_pos) (backends c) hs
            in Some (c\<lparr>ok_backends := sum_list (map snd us), backends := map fst us\<rparr>)))"

text \<open>
  One round: the context \<open>c\<close> when the backends are read, \<open>c1\<close> when they are written (another
  thread may have reloaded it in between), and the value that \<^verbatim>\<open>master_pos\<close>, which is never set
  at the start of a round, happens to have. The result has the time to sleep; \<open>None\<close>: no sleep.
\<close>

definition watch_round ::
    "(nat \<Rightarrow> bytes \<Rightarrow> pg_conn option) \<Rightarrow> int \<Rightarrow> HEALTH list \<Rightarrow> CONTEXT \<Rightarrow> CONTEXT \<Rightarrow>
     (HEALTH list \<times> CONTEXT \<times> int option) outcome" where
  "watch_round pq stale hs c c1 =
     (case probes pq 0 (watch_cache c hs) stale of
        Aborted \<Rightarrow> Aborted | Undefined \<Rightarrow> Undefined
      | Value (hs1, master_pos) \<Rightarrow>
          (case watch_update master_pos hs1 c1 of
             None \<Rightarrow> Value (hs1, c1, None)
           | Some c2 \<Rightarrow> Value (hs1, c2, Some (health_interval c2))))"

end
