(* ===== verification/Watcher_Laws.thy ===== *)
theory Watcher_Laws
  imports Watcher Backend_Laws
begin

text \<open>
  A round of the watcher: what it writes into the context follows from what the backends answer,
  and what the worker then makes of it.
\<close>

section \<open>Positions\<close>

text \<open>Every octet is a digit of base 15, with the value of its code less that of \<^verbatim>\<open>0\<close>.\<close>

definition base15 :: "bytes \<Rightarrow> u64" where
  "base15 s = foldl (\<lambda>v c. v * 15 + of_int (schar c - 48)) 0 s"

lemma xlog_digit_eq: "xlog_digit v c = Some (v * 15 + of_int (schar c - 48))"
proof -
  have "schar (CHR ''0'') = 48" "schar (CHR ''9'') = 57" by (simp_all add: schar_def uchar_def)
  then show ?thesis by (auto simp: xlog_digit_def)
qed

lemma xlog_part_eq:
  "xlog_part ends v s = Some (foldl (\<lambda>v c. v * 15 + of_int (schar c - 48)) v (takeWhile (\<lambda>c. c \<notin> ends) s),
     dropWhile (\<lambda>c. c \<notin> ends) s)"
  by (induction s arbitrary: v) (simp_all add: xlog_digit_eq)

text \<open>Every text with a slash is a position, in base 15, its letters taken for digits.\<close>

lemma xlog_slash:
  "CHR ''/'' \<notin> set hi \<Longrightarrow> xlog (hi @ CHR ''/'' # lo) lag = (0, push_bit 32 (base15 hi) OR base15 lo)"
proof -
  assume "CHR ''/'' \<notin> set hi"
  then have "takeWhile (\<lambda>c. c \<notin> {CHR ''/''}) (hi @ CHR ''/'' # lo) = hi"
    "dropWhile (\<lambda>c. c \<notin> {CHR ''/''}) (hi @ CHR ''/'' # lo) = CHR ''/'' # lo"
    by (induction hi) auto
  moreover have "takeWhile (\<lambda>c. c \<notin> {}) lo = lo" by (simp add: takeWhile_eq_all_conv)
  ultimately show ?thesis by (simp only: xlog_def xlog_part_eq base15_def option.case prod.case list.case)
qed

lemma xlog_rc: "fst (xlog s lag) = (if CHR ''/'' \<in> set s then 0 else 1)"
proof -
  have e: "dropWhile (\<lambda>c. c \<notin> {CHR ''/''}) s = [] \<longleftrightarrow> CHR ''/'' \<notin> set s" by (auto simp: dropWhile_eq_Nil_conv)
  show ?thesis
  proof (cases "dropWhile (\<lambda>c. c \<notin> {CHR ''/''}) s")
    case Nil
    with e have "CHR ''/'' \<notin> set s" by simp
    with Nil show ?thesis by (simp only: xlog_def xlog_part_eq option.case prod.case list.case fst_conv if_False)
  next
    case (Cons x p)
    with e have "CHR ''/'' \<in> set s" by (metis list.distinct(1))
    with Cons show ?thesis by (simp only: xlog_def xlog_part_eq option.case prod.case list.case fst_conv if_True)
  qed
qed

section \<open>Probes\<close>

text \<open>The one value a query yields.\<close>

definition single :: "pg_conn \<Rightarrow> bytes \<Rightarrow> bytes option" where
  "single q sql =
     (case pq_exec q sql of
        None \<Rightarrow> None
      | Some r \<Rightarrow> if pr_tuples_ok r \<and> pr_ntuples r = 1 \<and> pr_nfields r = 1 then Some (pr_value r) else None)"

text \<open>The status and the role that the answers of a backend earn it.\<close>

definition verdict :: "pg_conn \<Rightarrow> int \<Rightarrow> int \<times> int" where
  "verdict q role =
     (if pq_status q = CONNECTION_BAD then (BACKEND_IS_FAILED, role)
      else (case single q recovery_query of
              None \<Rightarrow> (BACKEND_IS_HALFUP, role)
            | Some val \<Rightarrow>
                (case single q (position_query (role_of val)) of
                   None \<Rightarrow> (BACKEND_IS_HALFUP, role_of val)
                 | Some pos \<Rightarrow> (if CHR ''/'' \<in> set pos then BACKEND_IS_OK else BACKEND_IS_FAILED, role_of val))))"

lemma pg_query_single: "pg_query q sql = Value v \<Longrightarrow> v = single q sql"
  by (auto simp: pg_query_def single_def split: option.splits if_splits)

lemma probe_position_verdict:
  "probe_position q h mp = Value (h1, mp1) \<Longrightarrow>
   hl_role h1 = hl_role h \<and> hl_serial h1 = hl_serial h \<and>
   hl_ok h1 = (case single q (position_query (hl_role h)) of
      None \<Rightarrow> BACKEND_IS_HALFUP | Some p \<Rightarrow> if CHR ''/'' \<in> set p then BACKEND_IS_OK else hl_ok h) \<and>
   mp1 = (if hl_ok h1 = BACKEND_IS_OK \<and> hl_ok h \<noteq> BACKEND_IS_OK \<and> hl_role h1 = BACKEND_ROLE_MASTER
          then int32 (uint (hl_pos h1)) else if hl_ok h \<noteq> BACKEND_IS_OK then mp else mp1)"
  using xlog_rc [of "the (single q (position_query (hl_role h)))" "hl_pos h"]
  by (auto simp: probe_position_def backend_status_defs dest!: pg_query_single
      split: outcome.splits option.splits prod.splits if_splits)

lemma probe_verdict:
  assumes "probe conn h mp = Value (h1, mp1)"
  shows "\<exists>q. conn = Some q \<and> (hl_ok h1, hl_role h1) = verdict q (hl_role h) \<and> hl_serial h1 = hl_serial h \<and>
    mp1 = (if hl_ok h1 = BACKEND_IS_OK \<and> hl_role h1 = BACKEND_ROLE_MASTER then int32 (uint (hl_pos h1)) else mp)"
proof -
  obtain q where q: "conn = Some q" using assms by (cases conn) (simp_all add: probe_def)
  show ?thesis
  proof (cases "pq_status q")
    case CONNECTION_BAD
    then show ?thesis using assms by (auto simp: probe_def q Let_def verdict_def backend_status_defs)
  next
    case CONNECTION_OTHER
    then show ?thesis using assms by (simp add: probe_def q Let_def)
  next
    case CONNECTION_OK
    let ?h = "h\<lparr>hl_ok := BACKEND_IS_FAILED, hl_pos := 0\<rparr>"
    from assms CONNECTION_OK obtain v where v: "pg_query q recovery_query = Value v"
      by (auto simp: probe_def q Let_def split: outcome.splits)
    show ?thesis
    proof (cases v)
      case None
      then show ?thesis using assms CONNECTION_OK pg_query_single [OF v]
        by (auto simp: probe_def q v Let_def verdict_def backend_status_defs)
    next
      case (Some val)
      have sv: "single q recovery_query = Some val" using pg_query_single [OF v] Some by simp
      have "probe_position q (?h\<lparr>hl_role := role_of val\<rparr>) mp = Value (h1, mp1)"
        using assms CONNECTION_OK Some by (simp add: probe_def q v Let_def)
      from probe_position_verdict [OF this] show ?thesis
        using CONNECTION_OK sv
        by (cases "single q (position_query (role_of val))") (auto simp: q verdict_def backend_status_defs)
    qed
  qed
qed

lemma probes_each:
  "probes pq k hs mp = Value (hs1, mp1) \<Longrightarrow>
   length hs1 = length hs \<and> (\<forall>i<length hs. \<exists>a b. probe (pq (k + i) (hl_dsn (hs ! i))) (hs ! i) a = Value (hs1 ! i, b))"
proof (induction hs arbitrary: k mp hs1)
  case (Cons h hs)
  from Cons.prems obtain h1 mp2 hs2 where p: "probe (pq k (hl_dsn h)) h mp = Value (h1, mp2)"
    "probes pq (Suc k) hs mp2 = Value (hs2, mp1)" "hs1 = h1 # hs2"
    by (auto split: outcome.splits)
  from Cons.IH [OF p(2)] p(1,3) show ?case by (auto simp: nth_Cons split: nat.splits)
qed simp

section \<open>Rounds\<close>

lemma cache_serial:
  "i < length (backends c) \<Longrightarrow> hl_serial (watch_cache c hs ! i) = be_serial (backends c ! i)"
  "length (watch_cache c hs) = length (backends c)"
  by (simp_all add: watch_cache_def cache_one_def)

lemma round_parts:
  assumes "watch_round pq stale hs c c = Value (hs1, c1, zz)"
  shows "\<exists>mp. probes pq 0 (watch_cache c hs) stale = Value (hs1, mp) \<and> length hs1 = length (backends c) \<and>
    (\<forall>i<length hs1. hl_serial (hs1 ! i) = be_serial (backends c ! i)) \<and> zz = Some (health_interval c) \<and>
    c1 = c\<lparr>ok_backends := int (length (filter (\<lambda>h. hl_ok h = BACKEND_IS_OK) hs1)),
           backends := map2 (\<lambda>b h. b\<lparr>be_status := hl_ok h, be_role := hl_role h, be_lag := of_int mp - hl_pos h\<rparr>) (backends c) hs1\<rparr>"
proof -
  from assms obtain mp where p: "probes pq 0 (watch_cache c hs) stale = Value (hs1, mp)"
    by (auto simp: watch_round_def split: outcome.splits option.splits)
  have len: "length hs1 = length (backends c)" using probes_each [OF p] by (simp add: cache_serial)
  have ser: "\<forall>i<length hs1. hl_serial (hs1 ! i) = be_serial (backends c ! i)"
  proof (intro allI impI)
    fix i assume i: "i < length hs1"
    with probes_each [OF p] len obtain a b where "probe (pq i (hl_dsn (watch_cache c hs ! i))) (watch_cache c hs ! i) a = Value (hs1 ! i, b)"
      by (auto simp: cache_serial)
    from probe_verdict [OF this] show "hl_serial (hs1 ! i) = be_serial (backends c ! i)" using i len by (auto simp: cache_serial)
  qed
  have m: "map2 (update_one mp) bs hs1' =
      map2 (\<lambda>b h. (b\<lparr>be_status := hl_ok h, be_role := hl_role h, be_lag := of_int mp - hl_pos h\<rparr>, if hl_ok h = BACKEND_IS_OK then 1 else 0)) bs hs1'"
    if "length hs1' = length bs" "\<forall>i<length hs1'. hl_serial (hs1' ! i) = be_serial (bs ! i)" for bs hs1'
    using that by (intro nth_equalityI) (simp_all add: update_one_def)
  have f: "map fst (map2 (\<lambda>b h. (g b h, k h)) bs hs1') = map2 g bs hs1'" for bs hs1' and g :: "BACKEND \<Rightarrow> HEALTH \<Rightarrow> BACKEND" and k :: "HEALTH \<Rightarrow> int"
    by (induction bs hs1' rule: list_induct2') simp_all
  have s: "sum_list (map snd (map2 (\<lambda>b h. (g b h, if hl_ok h = BACKEND_IS_OK then 1 else 0)) bs hs1')) =
      int (length (filter (\<lambda>h. hl_ok h = BACKEND_IS_OK) hs1'))" if "length hs1' = length bs"
    for bs hs1' and g :: "BACKEND \<Rightarrow> HEALTH \<Rightarrow> BACKEND"
    using that by (induction hs1' bs rule: list_induct2) simp_all
  have "watch_update mp hs1 c = Some (c\<lparr>ok_backends := int (length (filter (\<lambda>h. hl_ok h = BACKEND_IS_OK) hs1)),
      backends := map2 (\<lambda>b h. b\<lparr>be_status := hl_ok h, be_role := hl_role h, be_lag := of_int mp - hl_pos h\<rparr>) (backends c) hs1\<rparr>)"
    by (simp only: watch_update_def Let_def m [OF len ser] f s [OF len] len if_False simp_thms)
  then show ?thesis using assms len ser by (auto simp: watch_round_def p)
qed

lemma round_verdict:
  assumes "watch_round pq stale hs c c = Value (hs1, c1, pause)" and "i < length (backends c)"
  shows "\<exists>q. pq i (hl_dsn (watch_cache c hs ! i)) = Some q \<and>
     (be_status (backends c1 ! i), be_role (backends c1 ! i)) = verdict q (hl_role (watch_cache c hs ! i))"
proof -
  from round_parts [OF assms(1)] obtain mp where p: "probes pq 0 (watch_cache c hs) stale = Value (hs1, mp)"
    "length hs1 = length (backends c)"
    and b: "backends c1 = map2 (\<lambda>b h. b\<lparr>be_status := hl_ok h, be_role := hl_role h, be_lag := of_int mp - hl_pos h\<rparr>) (backends c) hs1"
    by auto
  from probes_each [OF p(1)] assms(2) obtain a d where
    "probe (pq i (hl_dsn (watch_cache c hs ! i))) (watch_cache c hs ! i) a = Value (hs1 ! i, d)" by (auto simp: cache_serial)
  from probe_verdict [OF this] show ?thesis using assms(2) p(2) by (auto simp: b)
qed

lemma round_frame:
  assumes "watch_round pq stale hs c c = Value (hs1, c1, pause)"
  shows "\<exists>bs. c1 = c\<lparr>ok_backends := int (length (filter (\<lambda>b. be_status b = BACKEND_IS_OK) bs)), backends := bs\<rparr> \<and>
     length bs = length (backends c) \<and> pause = Some (health_interval c) \<and>
     (\<forall>i<length bs. \<exists>st rl lag. bs ! i = (backends c ! i)\<lparr>be_status := st, be_role := rl, be_lag := lag\<rparr>)"
proof -
  from round_parts [OF assms] obtain mp where p: "length hs1 = length (backends c)" "pause = Some (health_interval c)"
    and c1: "c1 = c\<lparr>ok_backends := int (length (filter (\<lambda>h. hl_ok h = BACKEND_IS_OK) hs1)),
      backends := map2 (\<lambda>b h. b\<lparr>be_status := hl_ok h, be_role := hl_role h, be_lag := of_int mp - hl_pos h\<rparr>) (backends c) hs1\<rparr>"
    by auto
  have n: "length (filter (\<lambda>h. hl_ok h = BACKEND_IS_OK) hs2) = length (filter (\<lambda>b. be_status b = BACKEND_IS_OK)
      (map2 (\<lambda>b h. b\<lparr>be_status := hl_ok h, be_role := hl_role h, be_lag := of_int mp - hl_pos h\<rparr>) bs hs2))"
    if "length hs2 = length bs" for hs2 and bs :: "BACKEND list"
    using that by (induction hs2 bs rule: list_induct2) simp_all
  define bs where "bs = map2 (\<lambda>b h. b\<lparr>be_status := hl_ok h, be_role := hl_role h, be_lag := of_int mp - hl_pos h\<rparr>) (backends c) hs1"
  have "c1 = c\<lparr>ok_backends := int (length (filter (\<lambda>b. be_status b = BACKEND_IS_OK) bs)), backends := bs\<rparr>"
    unfolding c1 n [OF p(1)] bs_def ..
  moreover have "\<forall>i<length bs. bs ! i = (backends c ! i)\<lparr>be_status := hl_ok (hs1 ! i), be_role := hl_role (hs1 ! i),
      be_lag := of_int mp - hl_pos (hs1 ! i)\<rparr>" using p(1) by (simp add: bs_def)
  moreover have "length bs = length (backends c)" using p(1) by (simp add: bs_def)
  ultimately show ?thesis using p(2) by blast
qed

text \<open>A backend the watcher could not connect to is not viable.\<close>

lemma bad_not_viable:
  assumes "watch_round pq stale hs c c = Value (hs1, c1, pause)" and "i < length (backends c)"
    and "\<And>q. pq i (hl_dsn (watch_cache c hs ! i)) = Some q \<Longrightarrow> pq_status q = CONNECTION_BAD"
  shows "\<not> viable (backends c1 ! i)"
  using round_verdict [OF assms(1,2)] assms(3) by (auto simp: verdict_def viable_def backend_status_defs)

section \<open>Lag\<close>

text \<open>When one backend is a working master, its position is what the others are compared with.\<close>

lemma probes_master:
  "probes pq k hs mp = Value (hs1, mp1) \<Longrightarrow> m < length hs1 \<Longrightarrow>
   hl_ok (hs1 ! m) = BACKEND_IS_OK \<Longrightarrow> hl_role (hs1 ! m) = BACKEND_ROLE_MASTER \<Longrightarrow>
   (\<And>j. j < length hs1 \<Longrightarrow> m < j \<Longrightarrow> \<not> (hl_ok (hs1 ! j) = BACKEND_IS_OK \<and> hl_role (hs1 ! j) = BACKEND_ROLE_MASTER)) \<Longrightarrow>
   mp1 = int32 (uint (hl_pos (hs1 ! m)))"
proof (induction hs arbitrary: k mp hs1 m)
  case (Cons h hs)
  from Cons.prems(1) obtain h1 mp2 hs2 where p: "probe (pq k (hl_dsn h)) h mp = Value (h1, mp2)"
    "probes pq (Suc k) hs mp2 = Value (hs2, mp1)" "hs1 = h1 # hs2" by (auto split: outcome.splits)
  have later: "\<not> (hl_ok (hs2 ! j) = BACKEND_IS_OK \<and> hl_role (hs2 ! j) = BACKEND_ROLE_MASTER)"
    if "j < length hs2" "m < Suc j" for j using Cons.prems(5) [of "Suc j"] that p(3) by simp
  have keep: "probes pq k' hs' a = Value (hs'', b) \<Longrightarrow>
      (\<And>j. j < length hs'' \<Longrightarrow> \<not> (hl_ok (hs'' ! j) = BACKEND_IS_OK \<and> hl_role (hs'' ! j) = BACKEND_ROLE_MASTER)) \<Longrightarrow> b = a"
    for k' hs' a hs'' b
  proof (induction hs' arbitrary: k' a hs'')
    case (Cons h' hs')
    from Cons.prems(1) obtain h1 mp2 hs2 where p: "probe (pq k' (hl_dsn h')) h' a = Value (h1, mp2)"
      "probes pq (Suc k') hs' mp2 = Value (hs2, b)" "hs'' = h1 # hs2" by (auto split: outcome.splits)
    have "mp2 = a" using probe_verdict [OF p(1)] Cons.prems(2) [of 0] p(3) by auto
    moreover have "b = mp2" by (rule Cons.IH [OF p(2)]) (use Cons.prems(2) [of "Suc _"] p(3) in auto)
    ultimately show ?case by simp
  qed simp
  show ?case
  proof (cases m)
    case 0
    then have "mp2 = int32 (uint (hl_pos h1))" using probe_verdict [OF p(1)] Cons.prems(3,4) p(3) by auto
    moreover have "mp1 = mp2" by (rule keep [OF p(2)]) (use later 0 in auto)
    ultimately show ?thesis using 0 p(3) by simp
  next
    case (Suc m')
    have "mp1 = int32 (uint (hl_pos (hs2 ! m')))"
      by (rule Cons.IH [OF p(2)]) (use Cons.prems(2-4) p(3) Suc later in auto)
    then show ?thesis using Suc p(3) by simp
  qed
qed simp

text \<open>Backend \<open>m\<close> is the only working master after the round.\<close>

definition sole_master :: "HEALTH list \<Rightarrow> nat \<Rightarrow> bool" where
  "sole_master hs m \<longleftrightarrow> m < length hs \<and>
     (\<forall>j<length hs. (hl_ok (hs ! j) = BACKEND_IS_OK \<and> hl_role (hs ! j) = BACKEND_ROLE_MASTER) = (j = m))"

lemma round_lag:
  assumes "watch_round pq stale hs c c = Value (hs1, c1, pause)" and "sole_master hs1 m" and "i < length (backends c)"
  shows "be_lag (backends c1 ! i) = of_int (int32 (uint (hl_pos (hs1 ! m)))) - hl_pos (hs1 ! i)"
    and "be_status (backends c1 ! i) = hl_ok (hs1 ! i)" and "be_threshold (backends c1 ! i) = be_threshold (backends c ! i)"
proof -
  from round_parts [OF assms(1)] obtain mp where p: "probes pq 0 (watch_cache c hs) stale = Value (hs1, mp)"
    "length hs1 = length (backends c)"
    and b: "backends c1 = map2 (\<lambda>b h. b\<lparr>be_status := hl_ok h, be_role := hl_role h, be_lag := of_int mp - hl_pos h\<rparr>) (backends c) hs1"
    by auto
  have "mp = int32 (uint (hl_pos (hs1 ! m)))"
    by (rule probes_master [OF p(1)]) (use assms(2) in \<open>auto simp: sole_master_def\<close>)
  then show "be_lag (backends c1 ! i) = of_int (int32 (uint (hl_pos (hs1 ! m)))) - hl_pos (hs1 ! i)"
    "be_status (backends c1 ! i) = hl_ok (hs1 ! i)" "be_threshold (backends c1 ! i) = be_threshold (backends c ! i)"
    using assms(3) p(2) by (simp_all add: b)
qed

text \<open>Below \<open>2 ^ 31\<close> the lag is the distance to the master.\<close>

lemma lag_distance:
  assumes "watch_round pq stale hs c c = Value (hs1, c1, pause)" and "sole_master hs1 m" and "i < length (backends c)"
    and "hl_pos (hs1 ! m) < 2 ^ 31"
  shows "be_lag (backends c1 ! i) = hl_pos (hs1 ! m) - hl_pos (hs1 ! i)"
proof -
  have "uint (hl_pos (hs1 ! m)) < 2 ^ 31" using assms(4) by (simp add: word_less_def)
  then have "int32 (uint (hl_pos (hs1 ! m))) = uint (hl_pos (hs1 ! m))"
    using uint_ge_0 [of "hl_pos (hs1 ! m)"] by (intro int32_id) linarith+
  then show ?thesis using round_lag(1) [OF assms(1-3)] by simp
qed

text \<open>From there on a backend that is level with the master is not viable.\<close>

text \<open>
  C39: Once the position of the only working master has reached 2 to the 31, a backend at the
  same position is not viable after the round: its lag is computed from the lower 32 bits of
  the master's position.
\<close>

lemma caught_up_not_viable:
  assumes "watch_round pq stale hs c c = Value (hs1, c1, pause)" and "sole_master hs1 m" and "i < length (backends c)"
    and "hl_pos (hs1 ! i) = hl_pos (hs1 ! m)" and "2 ^ 31 \<le> hl_pos (hs1 ! m)" and "hl_pos (hs1 ! m) < 2 ^ 63"
    and "be_threshold (backends c ! i) < 2 ^ 31"
  shows "\<not> viable (backends c1 ! i)"
proof -
  let ?p = "uint (hl_pos (hs1 ! m))"
  have p: "2 ^ 31 \<le> ?p" "?p < 2 ^ 63" using assms(5,6) by (simp_all add: word_less_def word_le_def)
  have d: "int32 ?p - ?p < 0" "- (2 ^ 63) - 2 ^ 31 \<le> int32 ?p - ?p" "(int32 ?p - ?p) mod 2 ^ 32 = 0"
  proof -
    show "int32 ?p - ?p < 0" "- (2 ^ 63) - 2 ^ 31 \<le> int32 ?p - ?p" using p int32_range [of ?p] by linarith+
    have "int32 ?p - ?p = - (2 ^ 32 * ((?p + 2 ^ 31) div 2 ^ 32))"
      unfolding int32_def using mult_div_mod_eq [of "2 ^ 32" "?p + 2 ^ 31"] by linarith
    then show "(int32 ?p - ?p) mod 2 ^ 32 = 0" by simp
  qed
  have neg: "x \<le> - (2 ^ 32)" if x: "x < 0" "x mod 2 ^ 32 = 0" for x :: int
  proof -
    from x(2) obtain k where k: "x = 2 ^ 32 * k" by (metis mod_eq_0_iff_dvd dvdE)
    with x(1) have "k < 0" by (simp add: mult_less_0_iff)
    then show ?thesis using k by simp
  qed
  have e: "int32 ?p - ?p \<le> - (2 ^ 32)" by (rule neg [OF d(1,3)])
  have "be_lag (backends c1 ! i) = of_int (int32 ?p - ?p)"
    using round_lag(1) [OF assms(1-3)] assms(4) by simp
  then have "uint (be_lag (backends c1 ! i)) = (int32 ?p - ?p) mod 2 ^ 64" by (simp only: uint_word_of_int) simp
  also have "\<dots> = int32 ?p - ?p + 2 ^ 64"
  proof -
    have "(int32 ?p - ?p) mod 2 ^ 64 = (int32 ?p - ?p + 2 ^ 64) mod 2 ^ 64" by (simp only: mod_add_self2)
    also have "\<dots> = int32 ?p - ?p + 2 ^ 64"
    proof (rule mod_pos_pos_trivial)
      show "0 \<le> int32 ?p - ?p + 2 ^ 64" using d(2) by simp
      show "int32 ?p - ?p + 2 ^ 64 < 2 ^ 64" using d(1) by simp
    qed
    finally show ?thesis .
  qed
  finally have "2 ^ 31 \<le> uint (be_lag (backends c1 ! i))" using d(2) by simp
  moreover have "uint (be_threshold (backends c1 ! i)) < 2 ^ 31"
    using assms(7) round_lag(3) [OF assms(1-3)] by (simp add: word_less_def)
  ultimately show ?thesis by (simp add: viable_def word_less_def)
qed

section \<open>The watcher and the worker\<close>



end
