(* ===== verification/Config_Lex.thy ===== *)
theory Config_Lex
  imports Lexer Context
begin

text \<open>
  The lexer of the configuration file: the lexer functions of \<^verbatim>\<open>src/config.c\<close> over the shared
  scanner of \<open>Lexer\<close>, and the keyword table of \<^verbatim>\<open>src/config.gen.c\<close>. A position may fall one
  octet before the start of a token (\<^verbatim>\<open>restart\<close> followed by \<^verbatim>\<open>backup\<close>): the parser stops before the
  scanner could read outside the text there.
\<close>

section \<open>Tokens and keywords\<close>

datatype cfg_fn = CfgAny | CfgBareword | CfgComment | CfgNumeric | CfgQstring | CfgWildcard

datatype cfg_type =
    CT_EOS | CT_RESTART | CT_ERROR | CT_OPEN | CT_CLOSE | CT_TERMX
  | K_AUTHDB | K_BACKEND | K_CERT | K_CHECK | K_CIPHERS | K_DATABASE | K_DEBUG | K_DEFAULT | K_ERROR
  | K_GROUP | K_HBA | K_HEALTH | K_INFO | K_KEY | K_LAG | K_LISTEN | K_LOG | K_MONITOR | K_OFF | K_ON
  | K_PASSWORD | K_PIDFILE | K_SKIPVERIFY | K_TIMEOUT | K_TLS | K_USER | K_USERNAME | K_WEIGHT | K_WORKERS
  | TY_BAREWORD | TY_DECIMAL | TY_INTEGER | TY_ADDRESS | TY_TIME | TY_SIZE | TY_QSTRING

type_synonym cfg_lexer = "cfg_fn LEXER"
type_synonym cfg_token = "cfg_type TOKEN"

definition KEYWORDS :: "(cfg_type \<times> bytes) list" where
  "KEYWORDS =
    [(K_AUTHDB, ''authdb''), (K_BACKEND, ''backend''), (K_CERT, ''cert''), (K_CHECK, ''check''),
     (K_CIPHERS, ''ciphers''), (K_DATABASE, ''database''), (K_DEBUG, ''debug''), (K_DEFAULT, ''default''),
     (K_ERROR, ''error''), (K_GROUP, ''group''), (K_HBA, ''hba''), (K_HEALTH, ''health''), (K_INFO, ''info''),
     (K_KEY, ''key''), (K_LAG, ''lag''), (K_LISTEN, ''listen''), (K_LOG, ''log''), (K_MONITOR, ''monitor''),
     (K_OFF, ''off''), (K_ON, ''on''), (K_PASSWORD, ''password''), (K_PIDFILE, ''pidfile''),
     (K_SKIPVERIFY, ''skipverify''), (K_TIMEOUT, ''timeout''), (K_TLS, ''tls''), (K_USER, ''user''),
     (K_USERNAME, ''username''), (K_WEIGHT, ''weight''), (K_WORKERS, ''workers'')]"

text \<open>The loop of \<^verbatim>\<open>lex_bareword\<close> over the table: \<open>value\<close> is the text from the token on.\<close>

fun find_keyword :: "bytes \<Rightarrow> nat \<Rightarrow> (cfg_type \<times> bytes) list \<Rightarrow> cfg_type option" where
  "find_keyword v n [] = None"
| "find_keyword v n ((k, w) # ks) = (if strncaseeq v w n then Some k else find_keyword v n ks)"

section \<open>The lexer functions\<close>

definition C_NUMERIC :: bytes where "C_NUMERIC = ''0123456789''"

definition C_ALPHA :: bytes where
  "C_ALPHA = ''abcdefghijklmnopqrstuvwxyz'' @ ''ABCDEFGHIJKLMNOPQRSTUVWXYZ''"

definition C_WORD :: bytes where "C_WORD = C_ALPHA @ C_NUMERIC @ ''_-+/:.,!''"

function cfg_lex_any :: "cfg_lexer \<Rightarrow> cfg_token \<times> cfg_lexer" where
  "cfg_lex_any l =
     (case lex_next l of
        (c, l1) \<Rightarrow>
          if c = NUL then (tok_none CT_EOS, l1\<lparr>lx_f := None\<rparr>)
          else if c = CHR 0x0A then cfg_lex_any ((lex_ignore l1)\<lparr>lx_line := lx_line l1 + 1, lx_col := 0\<rparr>)
          else if isspace c then cfg_lex_any (lex_ignore l1)
          else if c = CHR 0x7B then (tok_none CT_OPEN, lex_ignore l1)
          else if c = CHR 0x7D then (tok_none CT_CLOSE, lex_ignore l1)
          else if c = CHR '';'' then (tok_none CT_TERMX, lex_ignore l1)
          else if c = CHR ''#'' then (tok_none CT_RESTART, lex_ignore (l1\<lparr>lx_f := Some CfgComment\<rparr>))
          else if c = CHR 0x27 \<or> c = CHR 0x22 then (tok_none CT_RESTART, l1\<lparr>lx_f := Some CfgQstring\<rparr>)
          else if isdigit c then (tok_none CT_RESTART, l1\<lparr>lx_f := Some CfgNumeric\<rparr>)
          else if isalnum c \<or> c = CHR ''/'' then (tok_none CT_RESTART, l1\<lparr>lx_f := Some CfgBareword\<rparr>)
          else if c = CHR ''*'' then (tok_none CT_RESTART, l1\<lparr>lx_f := Some CfgWildcard\<rparr>)
          else (tok_none CT_ERROR, l1\<lparr>lx_f := None\<rparr>))"
  by pat_completeness auto
termination
proof (relation "measure lx_left", goal_cases)
  case (2 l c l1)
  from lex_next_left [OF 2(1) [symmetric] 2(2)] show ?case by simp
next
  case (3 l c l1)
  from lex_next_left [OF 3(1) [symmetric] 3(2)] show ?case by simp
qed simp

declare cfg_lex_any.simps [simp del]

definition cfg_lex_bareword :: "cfg_lexer \<Rightarrow> cfg_token \<times> cfg_lexer" where
  "cfg_lex_bareword l =
     (let l1 = snd (accept_all (l\<lparr>lx_f := Some CfgAny\<rparr>) C_WORD)
      in case find_keyword (drop (nat (lx_start l1)) (lx_src l1)) (nat (lx_pos l1 - lx_start l1)) KEYWORDS of
           Some k \<Rightarrow> (tok_none k, lex_ignore l1)
         | None \<Rightarrow> tok TY_BAREWORD l1)"

definition cfg_lex_comment :: "cfg_lexer \<Rightarrow> cfg_token \<times> cfg_lexer" where
  "cfg_lex_comment l =
     (let l1 = skip_line l
      in (tok_none CT_RESTART, (lex_ignore (l1\<lparr>lx_line := lx_line l1 + 1\<rparr>))\<lparr>lx_f := Some CfgAny\<rparr>))"

text \<open>
  The chain of \<^verbatim>\<open>&&\<close> that looks for an address: \<open>accept_groups k\<close> is \<open>k\<close> times digits and a dot,
  then digits. The first digit has already been read.
\<close>

fun accept_groups :: "nat \<Rightarrow> cfg_lexer \<Rightarrow> bool \<times> cfg_lexer" where
  "accept_groups 0 l = (case accept_all l C_NUMERIC of (n, l1) \<Rightarrow> (n \<noteq> 0, l1))"
| "accept_groups (Suc k) l =
     (case accept_all l C_NUMERIC of
        (n, l1) \<Rightarrow>
          if n = 0 then (False, l1)
          else (case accept_one l1 ''.'' of (ok, l2) \<Rightarrow> if ok then accept_groups k l2 else (False, l2)))"

text \<open>The digits of a number: \<open>step i c\<close> takes in the digit \<open>c\<close>.\<close>

function scan_digits :: "u32 \<Rightarrow> cfg_lexer \<Rightarrow> u32 \<times> cfg_lexer" where
  "scan_digits ival l =
     (case lex_next l of
        (c, l1) \<Rightarrow>
          if c = NUL then (ival, l1)
          else if c \<notin> set C_NUMERIC then (ival, lex_backup l1)
          else scan_digits (ival * 10 + of_int (digit c)) l1)"
  by pat_completeness auto
termination
proof (relation "measure (\<lambda>(i, l). lx_left l)", goal_cases)
  case (2 i l c l1)
  from lex_next_left [OF 2(1) [symmetric] 2(2)] show ?case by simp
qed simp

declare scan_digits.simps [simp del]

text \<open>\<^verbatim>\<open>strchr\<close> also finds the NUL at the end of its string.\<close>

definition strchr :: "bytes \<Rightarrow> byte \<Rightarrow> bool" where
  "strchr s c \<longleftrightarrow> c = NUL \<or> c \<in> set s"

definition size_factor :: "byte \<Rightarrow> u32" where
  "size_factor c = (if c \<in> {CHR ''g'', CHR ''G''} then 1024 * 1024 * 1024
     else if c \<in> {CHR ''m'', CHR ''M''} then 1024 * 1024
     else if c \<in> {CHR ''k'', CHR ''K''} then 1024 else 1)"

definition time_factor :: "byte \<Rightarrow> u32" where
  "time_factor c = (if c \<in> {CHR ''h'', CHR ''H''} then 60 * 60 else if c \<in> {CHR ''m'', CHR ''M''} then 60 else 1)"

definition with_i :: "u32 \<Rightarrow> cfg_token \<times> cfg_lexer \<Rightarrow> cfg_token \<times> cfg_lexer" where
  "with_i i r = (case r of (t, l) \<Rightarrow> (t\<lparr>tk_i := i\<rparr>, l))"

text \<open>
  The tests after the digits: \<open>c\<close> is the octet after them. A decimal keeps its text; its value as
  a \<^verbatim>\<open>double\<close> is a parameter of the parser.
\<close>

definition numeric_time :: "u32 \<Rightarrow> byte \<Rightarrow> cfg_lexer \<Rightarrow> cfg_token \<times> cfg_lexer" where
  "numeric_time ival c l =
     (if strchr ''sSmMhH'' c then with_i (ival * time_factor c) (tok TY_TIME l)
      else with_i ival (tok TY_INTEGER (lex_backup l)))"

definition numeric_suffix :: "u32 \<Rightarrow> cfg_lexer \<Rightarrow> cfg_token \<times> cfg_lexer" where
  "numeric_suffix ival l =
     (case lex_next l of
        (c, l1) \<Rightarrow>
          if c = CHR ''.'' then tok TY_DECIMAL (snd (scan_digits 0 l1))
          else if strchr ''kKmMgGbB'' c then
            (case (if c \<notin> {CHR ''b'', CHR ''B''} then lex_next l1 else (c, l1)) of
               (c2, l2) \<Rightarrow>
                 if c2 \<in> {CHR ''b'', CHR ''B''} then with_i (ival * size_factor c) (tok TY_SIZE l2)
                 else numeric_time ival c2 (lex_restart l2))
          else numeric_time ival c l1)"

definition cfg_lex_numeric :: "cfg_lexer \<Rightarrow> cfg_token \<times> cfg_lexer" where
  "cfg_lex_numeric l =
     (case accept_groups 3 (l\<lparr>lx_f := Some CfgAny\<rparr>) of
        (ok, l1) \<Rightarrow>
          if ok then
            (case accept_one l1 '':'' of
               (colon, l2) \<Rightarrow>
                 if colon then
                   (case accept_all l2 C_NUMERIC of
                      (n, l3) \<Rightarrow> if n = 0 then (tok_none CT_ERROR, l3) else tok TY_ADDRESS l3)
                 else tok TY_ADDRESS l2)
          else (case scan_digits 0 (lex_restart l1) of (ival, l2) \<Rightarrow> numeric_suffix ival l2))"

definition cfg_lex_qstring :: "cfg_lexer \<Rightarrow> cfg_token \<times> cfg_lexer" where
  "cfg_lex_qstring l =
     (case lex_next (lex_backup (l\<lparr>lx_f := Some CfgAny\<rparr>)) of
        (q, l1) \<Rightarrow>
          (case scan_quoted q l1 of
             (ended, l2) \<Rightarrow> if ended then tok TY_QSTRING l2 else (tok_none CT_ERROR, l2)))"

definition cfg_lex_wildcard :: "cfg_lexer \<Rightarrow> cfg_token \<times> cfg_lexer" where
  "cfg_lex_wildcard l =
     (case accept_one (l\<lparr>lx_f := Some CfgAny\<rparr>) '':'' of
        (colon, l1) \<Rightarrow>
          if colon then
            (case accept_all l1 C_NUMERIC of
               (n, l2) \<Rightarrow> if n = 0 then (tok_none CT_ERROR, l2) else tok TY_ADDRESS l2)
          else (tok_none CT_ERROR, l1))"

fun cfg_lex :: "cfg_fn \<Rightarrow> cfg_lexer \<Rightarrow> cfg_token \<times> cfg_lexer" where
  "cfg_lex CfgAny l = cfg_lex_any l"
| "cfg_lex CfgBareword l = cfg_lex_bareword l"
| "cfg_lex CfgComment l = cfg_lex_comment l"
| "cfg_lex CfgNumeric l = cfg_lex_numeric l"
| "cfg_lex CfgQstring l = cfg_lex_qstring l"
| "cfg_lex CfgWildcard l = cfg_lex_wildcard l"

end
