(* ===== verification/Log.thy ===== *)
theory Log
  imports Prelude
begin

text \<open>
  Logging (\<^verbatim>\<open>src/log.c\<close>) and aborting (\<^verbatim>\<open>src/abort.c\<close>). The level is a value that is passed on, a
  function that logs gives what it appends to its stream; the time as text and the formatted
  message are given, \<open>None\<close> where \<^verbatim>\<open>gmtime_r\<close>, \<^verbatim>\<open>strftime\<close> or \<^verbatim>\<open>vasprintf\<close> fails.
\<close>

section \<open>How a part of the program ends\<close>

text \<open>
  It goes on with a value, it exits or aborts with a code, or it is \<open>Lost\<close>: it uses memory outside
  an object, or does not return.
\<close>

datatype 'a ended = Goes_on 'a | Exits int | Aborts int | Lost

definition ABORT_UNKNOWN :: int where "ABORT_UNKNOWN = 1"
definition ABORT_MEMFAIL :: int where "ABORT_MEMFAIL = 2"
definition ABORT_LOCK :: int where "ABORT_LOCK = 3"
definition ABORT_NET :: int where "ABORT_NET = 4"
definition ABORT_SYSCALL :: int where "ABORT_SYSCALL = 5"
definition ABORT_RANDFAIL :: int where "ABORT_RANDFAIL = 6"
definition ABORT_UNIMPL :: int where "ABORT_UNIMPL = 7"
definition ABORT_ABSURD :: int where "ABORT_ABSURD = 8"

text \<open>\<open>pgr_abort code\<close>: the line on the standard error, and the exit code.\<close>

definition pgr_abort :: "int \<Rightarrow> bytes \<times> int" where
  "pgr_abort code =
     ((if code = ABORT_MEMFAIL then ''MEMORY ALLOCATION FAILURE; ABORTING.''
       else if code = ABORT_LOCK then ''THREAD (UN)LOCKING FAILURE; ABORTING.''
       else if code = ABORT_NET then ''UNRECOVERABLE NETWORK FAILURE; ABORTING.''
       else if code = ABORT_SYSCALL then ''INTERRUPTED DURING SYSCALL; ABORTING.''
       else if code = ABORT_RANDFAIL then ''RANDOMNESS/ENTROPY FAILURE; ABORTING.''
       else if code = ABORT_UNIMPL then ''UNIMPLEMENTED FEAUTRE; ABORTING.''
       else if code = ABORT_ABSURD then ''IMPOSSIBLE STATE (FILE A BUG); ABORTING.''
       else ''UNKNOWN FAILURE (FILE A BUG); ABORTING.'') @ [CHR 0x0A], code)"

section \<open>Levels and lines\<close>

text \<open>The levels of \<^verbatim>\<open>syslog.h\<close> are 0 to 7.\<close>

definition LOG_ERR :: int where "LOG_ERR = 3"
definition LOG_INFO :: int where "LOG_INFO = 6"
definition LOG_DEBUG :: int where "LOG_DEBUG = 7"

definition pgr_logger :: "int \<Rightarrow> int" where
  "pgr_logger level =
     (if level \<in> {0, 1, 2, 3} then LOG_ERR else if level \<in> {4, 5, 6} then LOG_INFO
      else if level = 7 then LOG_DEBUG else LOG_ERR)"

definition vlogf :: "bytes option \<Rightarrow> bytes option \<Rightarrow> bytes ended" where
  "vlogf tstamp msg =
     (case tstamp of
        None \<Rightarrow> Aborts ABORT_UNKNOWN
      | Some t \<Rightarrow>
          (case msg of
             None \<Rightarrow> Aborts ABORT_MEMFAIL
           | Some m \<Rightarrow> Goes_on (''['' @ t @ ''] '' @ m @ [CHR 0x0A])))"

definition vdlogf :: "bytes option \<Rightarrow> bytes \<Rightarrow> int \<Rightarrow> bytes \<Rightarrow> bytes option \<Rightarrow> bytes ended" where
  "vdlogf tstamp file_name line fn msg =
     (case tstamp of
        None \<Rightarrow> Aborts ABORT_UNKNOWN
      | Some t \<Rightarrow>
          (case msg of
             None \<Rightarrow> Aborts ABORT_MEMFAIL
           | Some m \<Rightarrow> Goes_on (''['' @ t @ ''] DEBUG '' @ file_name @ '':'' @ fmt_d line @ '' '' @ fn @ ''() - '' @ m @ [CHR 0x0A])))"

definition pgr_msgf :: "bytes option \<Rightarrow> bytes option \<Rightarrow> bytes ended" where
  "pgr_msgf tstamp msg = vlogf tstamp msg"

definition pgr_logf :: "int \<Rightarrow> int \<Rightarrow> bytes option \<Rightarrow> bytes option \<Rightarrow> bytes ended" where
  "pgr_logf loglevel level tstamp msg = (if level \<le> loglevel then vlogf tstamp msg else Goes_on [])"

definition pgr_dlogf ::
    "int \<Rightarrow> int \<Rightarrow> bytes option \<Rightarrow> bytes \<Rightarrow> int \<Rightarrow> bytes \<Rightarrow> bytes option \<Rightarrow> bytes ended" where
  "pgr_dlogf loglevel level tstamp file_name line fn msg =
     (if level \<le> loglevel then vdlogf tstamp file_name line fn msg else Goes_on [])"

text \<open>With the levels of \<^verbatim>\<open>pgr_logger\<close>: what is shown at one level is shown at every higher one.\<close>

lemma logger_monotone:
  assumes "0 \<le> a" "a \<le> b" "b \<le> 7" shows "pgr_logger a \<le> pgr_logger b"
proof -
  have "a \<in> set [0..7]" "b \<in> set [0..7]" using assms by auto
  then show ?thesis using assms(2)
    by (auto simp: pgr_logger_def LOG_ERR_def LOG_INFO_def LOG_DEBUG_def upto.simps)
qed

section \<open>Dumps\<close>

text \<open>
  \<^verbatim>\<open>pgr_hexdump_irl\<close>: a line for 16 octets has the offset, 47 columns of hexadecimal digits and 16 of
  characters; the two buffers are set to blanks and then filled from the left.
\<close>

definition xdig :: "nat \<Rightarrow> byte" where
  "xdig n = ''0123456789abcdef'' ! n"

definition isprint :: "byte \<Rightarrow> bool" where
  "isprint c \<longleftrightarrow> 32 \<le> uchar c \<and> uchar c \<le> 126"

fun fill_line :: "nat \<Rightarrow> bytes \<Rightarrow> bytes \<times> bytes \<Rightarrow> bytes \<times> bytes" where
  "fill_line x [] (hex, asc) = (hex, asc)"
| "fill_line x (c # cs) (hex, asc) =
     fill_line (Suc x) cs
       (hex[x * 3 := xdig (uchar c div 16), x * 3 + 1 := xdig (uchar c mod 16)],
        asc[x := if isprint c then c else CHR ''.''])"

definition dump_line :: "bytes \<Rightarrow> bytes \<times> bytes" where
  "dump_line data = fill_line 0 (take 16 data) (replicate 47 (CHR '' ''), replicate 16 (CHR '' ''))"

text \<open>\<^verbatim>\<open>%#08x\<close>: zero has no prefix.\<close>

fun hex_text :: "nat \<Rightarrow> bytes" where
  "hex_text n = (if n < 16 then [xdig n] else hex_text (n div 16) @ [xdig (n mod 16)])"

declare hex_text.simps [simp del]

definition fmt_08x :: "nat \<Rightarrow> bytes" where
  "fmt_08x n =
     (if n = 0 then ''00000000'' else ''0x'' @ replicate (6 - length (hex_text n)) (CHR ''0'') @ hex_text n)"

function dump_lines :: "nat \<Rightarrow> bytes \<Rightarrow> bytes list" where
  "dump_lines y data =
     (if data = [] then []
      else (case dump_line data of (hex, asc) \<Rightarrow> fmt_08x y @ '' | '' @ hex @ '' | '' @ asc)
           # dump_lines (y + 16) (drop 16 data))"
  by pat_completeness auto
termination by (relation "measure (\<lambda>(y, data). length data)") auto

declare dump_lines.simps [simp del]

text \<open>The guard returns for a level above \<^verbatim>\<open>LOG_DEBUG\<close>, which \<^verbatim>\<open>pgr_logger\<close> never sets.\<close>

definition pgr_hexdump :: "int \<Rightarrow> bytes \<Rightarrow> bytes list" where
  "pgr_hexdump loglevel data = (if LOG_DEBUG < loglevel then [] else dump_lines 0 data)"

section \<open>Reading a dump back\<close>

definition hex_value :: "byte \<Rightarrow> nat" where
  "hex_value c = (if isdigit c then uchar c - 48 else uchar c - 87)"

lemma hex_value_xdig: "n < 16 \<Longrightarrow> hex_value (xdig n) = n"
proof -
  have "list_all (\<lambda>n. hex_value (xdig n) = n) [0..<16]" by code_simp
  then show "n < 16 \<Longrightarrow> hex_value (xdig n) = n" by (auto simp: list_all_iff)
qed

definition read_hex :: "bytes \<Rightarrow> nat \<Rightarrow> bytes" where
  "read_hex hex n = map (\<lambda>x. byte_of (16 * hex_value (hex ! (x * 3)) + hex_value (hex ! (x * 3 + 1)))) [0..<n]"

text \<open>Filling from column \<open>x\<close> leaves the columns before it alone.\<close>

lemma fill_line_keeps:
  "fill_line x cs (hex, asc) = (h, a) \<Longrightarrow> i < x * 3 \<Longrightarrow> h ! i = hex ! i"
proof (induction cs arbitrary: x hex asc)
  case (Cons c cs)
  have "fill_line (Suc x) cs (hex[x * 3 := xdig (uchar c div 16), x * 3 + 1 := xdig (uchar c mod 16)],
      asc[x := if isprint c then c else CHR ''.'']) = (h, a)" using Cons.prems(1) by simp
  from Cons.IH [OF this] Cons.prems(2)
  have "h ! i = hex[x * 3 := xdig (uchar c div 16), x * 3 + 1 := xdig (uchar c mod 16)] ! i" by simp
  with Cons.prems(2) show ?case by simp
qed simp

lemma fill_line_columns:
  assumes "fill_line x cs (hex, asc) = (h, a)" "i < length cs" "(x + length cs) * 3 \<le> length hex + 1"
  shows "h ! ((x + i) * 3) = xdig (uchar (cs ! i) div 16) \<and> h ! ((x + i) * 3 + 1) = xdig (uchar (cs ! i) mod 16)"
  using assms
proof (induction cs arbitrary: x hex asc i)
  case (Cons c cs)
  let ?hex = "hex[x * 3 := xdig (uchar c div 16), x * 3 + 1 := xdig (uchar c mod 16)]"
  have rest: "fill_line (Suc x) cs (?hex, asc[x := if isprint c then c else CHR ''.'']) = (h, a)"
    using Cons.prems(1) by simp
  show ?case
  proof (cases i)
    case 0
    have "h ! (x * 3) = ?hex ! (x * 3)" "h ! (x * 3 + 1) = ?hex ! (x * 3 + 1)"
      by (rule fill_line_keeps [OF rest], simp)+
    then show ?thesis using 0 Cons.prems(3) by simp
  next
    case (Suc j)
    then show ?thesis using Cons.IH [OF rest, of j] Cons.prems(2,3) by simp
  qed
qed simp

lemma dump_line_reads:
  assumes "dump_line data = (hex, asc)"
  shows "read_hex hex (length (take 16 data)) = take 16 data"
proof (rule nth_equalityI)
  show "length (read_hex hex (length (take 16 data))) = length (take 16 data)" by (simp add: read_hex_def)
next
  fix i assume i: "i < length (read_hex hex (length (take 16 data)))"
  then have il: "i < length (take 16 data)" by (simp add: read_hex_def)
  note d = fill_line_columns [OF assms [unfolded dump_line_def] il, simplified add_0]
  have "16 * (uchar c div 16) + uchar c mod 16 = uchar c" for c by simp
  moreover have "uchar c div 16 < 16" for c using uchar_bound [of c] by (simp add: less_mult_imp_div_less)
  ultimately show "read_hex hex (length (take 16 data)) ! i = take 16 data ! i"
    using d il by (simp add: read_hex_def hex_value_xdig)
qed

text \<open>The parts of a line, and the whole dump.\<close>

fun read_dump :: "nat \<Rightarrow> bytes list \<Rightarrow> bytes" where
  "read_dump n [] = []"
| "read_dump n (t # ts) =
     (let hex = take 47 (drop 3 (dropWhile (\<lambda>c. c \<noteq> CHR '' '') t)) in read_hex hex (min 16 n) @ read_dump (n - 16) ts)"

lemma fmt_08x_no_blank: "CHR '' '' \<notin> set (fmt_08x n)"
proof -
  have "list_all (\<lambda>k. xdig k \<noteq> CHR '' '') [0..<16]" by code_simp
  then have x: "xdig k \<noteq> CHR '' ''" if "k < 16" for k using that by (auto simp: list_all_iff)
  have "CHR '' '' \<notin> set (hex_text n)" for n
  proof (induction n rule: hex_text.induct)
    case (1 n)
    then show ?case using x [of n] x [of "n mod 16"] by (subst hex_text.simps) auto
  qed
  then show ?thesis by (auto simp: fmt_08x_def)
qed

lemma fill_line_length: "fill_line x cs (hex, asc) = (h, a) \<Longrightarrow> length h = length hex"
proof (induction cs arbitrary: x hex asc)
  case (Cons c cs)
  from Cons.prems show ?case by (auto dest: Cons.IH)
qed simp

text \<open>Reading the hexadecimal columns of a dump back gives the octets of the data in order.\<close>

lemma dump_reads_back: "read_dump (length data) (dump_lines y data) = data"
proof (induction y data rule: dump_lines.induct)
  case (1 y data)
  show ?case
  proof (cases "data = []")
    case True
    then show ?thesis by (simp add: dump_lines.simps)
  next
    case False
    obtain hex asc where d: "dump_line data = (hex, asc)" by (metis surj_pair)
    have l: "length hex = 47" using fill_line_length d by (fastforce simp: dump_line_def)
    have "takeWhile (\<lambda>c. c \<noteq> CHR '' '') (fmt_08x y @ '' | '' @ hex @ '' | '' @ asc) = fmt_08x y"
      using fmt_08x_no_blank [of y] by (subst takeWhile_append2) auto
    then have "dropWhile (\<lambda>c. c \<noteq> CHR '' '') (fmt_08x y @ '' | '' @ hex @ '' | '' @ asc) = '' | '' @ hex @ '' | '' @ asc"
      by (simp add: dropWhile_eq_drop)
    then have "read_dump (length data) (dump_lines y data) =
        read_hex hex (min 16 (length data)) @ read_dump (length data - 16) (dump_lines (y + 16) (drop 16 data))"
      using False l by (simp add: dump_lines.simps [of y] d)
    also have "read_hex hex (min 16 (length data)) = take 16 data"
      using dump_line_reads [OF d] by (simp add: min.commute)
    also have "read_dump (length data - 16) (dump_lines (y + 16) (drop 16 data)) = drop 16 data"
      using 1 False by simp
    finally show ?thesis by simp
  qed
qed

end
