(* ===== verification/Config.thy ===== *)
theory Config
  imports Config_Lex Log
begin

text \<open>
  The parser of the configuration file and \<^verbatim>\<open>pgr_configure\<close> (\<^verbatim>\<open>src/config.c\<close>). Memory allocation
  always succeeds. \<open>cents\<close> is a parameter: what \<^verbatim>\<open>(int)(t2.semval.f * 100)\<close> gives on the platform
  for the text of a decimal.
\<close>

section \<open>The loop of \<^verbatim>\<open>emit\<close>\<close>

definition cfg_rank :: "cfg_lexer \<Rightarrow> nat" where
  "cfg_rank l = 2 * lx_left l + (if lx_f l = Some CfgAny then 0 else 1)"

lemma cfg_lex_any_restart:
  "cfg_lex_any l = (t, l1) \<Longrightarrow> tk_type t = CT_RESTART \<Longrightarrow> lx_left l1 < lx_left l"
proof (induction l rule: cfg_lex_any.induct)
  case (1 l)
  obtain c l2 where n: "lex_next l = (c, l2)" by (metis surj_pair)
  show ?case
  proof (cases "c = NUL")
    case True
    then show ?thesis using 1(3,4) by (subst (asm) cfg_lex_any.simps) (auto simp: n tok_none_def)
  next
    case c: False
    then have less: "lx_left l2 < lx_left l" using lex_next_left [OF n] by simp
    let ?nl = "(lex_ignore l2)\<lparr>lx_line := lx_line l2 + 1, lx_col := 0\<rparr>"
    consider "c = CHR 0x0A" | "c \<noteq> CHR 0x0A" "isspace c" | "c \<noteq> CHR 0x0A" "\<not> isspace c" by blast
    then show ?thesis
    proof cases
      case 1
      then have eq: "cfg_lex_any ?nl = (t, l1)"
        using "1.prems"(1) c by (subst (asm) cfg_lex_any.simps) (simp add: n)
      from "1.IH"(1) [OF n [symmetric] c 1 eq "1.prems"(2)] less show ?thesis by simp
    next
      case 2
      then have eq: "cfg_lex_any (lex_ignore l2) = (t, l1)"
        using "1.prems"(1) c by (subst (asm) cfg_lex_any.simps) (simp add: n)
      from "1.IH"(2) [OF n [symmetric] c 2 eq "1.prems"(2)] less show ?thesis by simp
    next
      case 3
      have "lx_left l1 = lx_left l2 \<or> tk_type t \<noteq> CT_RESTART"
        using "1.prems"(1) 3 c
        by (simp only: cfg_lex_any.simps [of l] n prod.case if_False)
           (simp add: tok_none_def split: if_split_asm; clarsimp)
      then show ?thesis using "1.prems"(2) less by simp
    qed
  qed
qed

lemma tok_type [simp]:
  "tk_type (fst (tok k l)) = k" "tk_type (tok_none k) = k" "fst (with_i i r) = (fst r)\<lparr>tk_i := i\<rparr>"
  by (simp_all add: tok_def tok_none_def with_i_def split: prod.splits)

lemma numeric_type: "tk_type (fst (cfg_lex_numeric l)) \<noteq> CT_RESTART"
  by (auto simp: cfg_lex_numeric_def numeric_suffix_def numeric_time_def split: prod.splits if_splits)

lemma keyword_type: "find_keyword v n KEYWORDS = Some k \<Longrightarrow> k \<noteq> CT_RESTART"
  by (auto simp: KEYWORDS_def split: if_splits)

lemma bareword_type: "tk_type (fst (cfg_lex_bareword l)) \<noteq> CT_RESTART"
  using keyword_type by (auto simp: cfg_lex_bareword_def Let_def split: option.splits)

text \<open>\<open>None\<close> is a call without a lexer function, on which the source returns an indeterminate token.\<close>

function cfg_emit :: "cfg_lexer \<Rightarrow> (cfg_token \<times> cfg_lexer) option" where
  "cfg_emit l =
     (case lx_f l of
        None \<Rightarrow> None
      | Some f \<Rightarrow> (case cfg_lex f l of
                    (t, l1) \<Rightarrow> if tk_type t = CT_RESTART then cfg_emit l1 else Some (t, l1)))"
  by pat_completeness auto
termination
proof (relation "measure cfg_rank", goal_cases)
  case (2 l f t l1)
  have fst: "fst (cfg_lex f l) = t" using 2(2) by (metis fst_conv)
  show ?case
  proof (cases f)
    case CfgAny
    with 2 have "lx_left l1 < lx_left l" using cfg_lex_any_restart by force
    then show ?thesis by (auto simp: cfg_rank_def)
  next
    case CfgComment
    with 2 have "l1 = (lex_ignore ((skip_line l)\<lparr>lx_line := lx_line (skip_line l) + 1\<rparr>))\<lparr>lx_f := Some CfgAny\<rparr>"
      by (simp add: cfg_lex_comment_def Let_def)
    then show ?thesis using 2(1) CfgComment skip_line_left [of l] by (simp add: cfg_rank_def)
  next
    case CfgQstring
    then show ?thesis
      using 2 by (simp add: cfg_lex_qstring_def tok_def tok_none_def split: prod.splits if_splits)
  next
    case CfgWildcard
    then show ?thesis
      using 2 by (simp add: cfg_lex_wildcard_def tok_def tok_none_def split: prod.splits if_splits)
  next
    case CfgNumeric
    then show ?thesis using 2(3) fst numeric_type [of l] by simp
  next
    case CfgBareword
    then show ?thesis using 2(3) fst bareword_type [of l] by simp
  qed
qed simp

declare cfg_emit.simps [simp del]

definition cfg_as_string :: "cfg_token \<Rightarrow> bytes option" where
  "cfg_as_string t = (case tk_type t of
     TY_BAREWORD \<Rightarrow> Some (word_string t) | TY_ADDRESS \<Rightarrow> Some (word_string t)
   | TY_QSTRING \<Rightarrow> Some (quoted_string t) | _ \<Rightarrow> None)"

text \<open>\<^verbatim>\<open>unsigned int\<close> to \<^verbatim>\<open>int\<close>; \<^verbatim>\<open>as_int\<close> has no caller.\<close>

definition tok_int :: "cfg_token \<Rightarrow> int" where
  "tok_int t = sint (tk_i t)"

definition cfg_as_int :: "cfg_token \<Rightarrow> int" where
  "cfg_as_int t = (if tk_type t \<in> {TY_INTEGER, TY_TIME, TY_SIZE} then tok_int t else -77)"

section \<open>The parser\<close>

text \<open>
  \<^verbatim>\<open>intval_t\<close> and \<^verbatim>\<open>strval_t\<close> are options: the value is only read when \<^verbatim>\<open>set\<close>. The list of backends
  starts with the defaults, which have no \<^verbatim>\<open>id\<close>; \<open>pc_current\<close> is the index of \<^verbatim>\<open>current\<close> in it.
\<close>

record cfg_backend =
  cb_id     :: "bytes option"
  cb_tls    :: "int option"
  cb_weight :: "int option"
  cb_lag    :: "int option"

datatype cfg_state = ParseTop | ParseBackend | ParseHealth | ParseTls

record cfg_parser =
  pc_backends :: "cfg_backend list"
  pc_current  :: nat
  pc_workers  :: "int option"
  pc_loglevel :: "int option"
  pc_interval :: "int option"
  pc_timeout  :: "int option"
  pc_database :: "bytes option"
  pc_username :: "bytes option"
  pc_password :: "bytes option"
  pc_listen   :: "bytes option"
  pc_monitor  :: "bytes option"
  pc_hbafile  :: "bytes option"
  pc_pidfile  :: "bytes option"
  pc_ciphers  :: "bytes option"
  pc_certfile :: "bytes option"
  pc_keyfile  :: "bytes option"
  pc_user     :: "bytes option"
  pc_group    :: "bytes option"
  pc_authdb   :: "bytes option"
  pc_l        :: cfg_lexer
  pc_f        :: "cfg_state option"

definition make_backend :: "bytes option \<Rightarrow> cfg_backend" where
  "make_backend ident =
     (case ident of
        Some _ \<Rightarrow> \<lparr>cb_id = ident, cb_tls = None, cb_weight = None, cb_lag = None\<rparr>
      | None \<Rightarrow> \<lparr>cb_id = None, cb_tls = Some BACKEND_TLS_OFF, cb_weight = Some 1, cb_lag = Some 100\<rparr>)"

text \<open>\<^verbatim>\<open>backend\<close>: the index of the backend \<open>ident\<close>, which is appended when there is none yet.\<close>

fun backend_index :: "bytes \<Rightarrow> nat \<Rightarrow> cfg_backend list \<Rightarrow> nat option" where
  "backend_index ident i [] = None"
| "backend_index ident i (b # bs) = (if cb_id b = Some ident then Some i else backend_index ident (Suc i) bs)"

definition cfg_backend_of :: "cfg_parser \<Rightarrow> bytes option \<Rightarrow> cfg_parser" where
  "cfg_backend_of p ident =
     (case ident of
        None \<Rightarrow> p\<lparr>pc_current := 0\<rparr>
      | Some s \<Rightarrow>
          (case backend_index s 1 (tl (pc_backends p)) of
             Some i \<Rightarrow> p\<lparr>pc_current := i\<rparr>
           | None \<Rightarrow> p\<lparr>pc_backends := pc_backends p @ [make_backend (Some s)],
                       pc_current := length (pc_backends p)\<rparr>))"

definition on_current :: "(cfg_backend \<Rightarrow> cfg_backend) \<Rightarrow> cfg_parser \<Rightarrow> cfg_parser" where
  "on_current f p = p\<lparr>pc_backends := (pc_backends p)[pc_current p := f (pc_backends p ! pc_current p)]\<rparr>"

text \<open>The next token; \<open>None\<close> when there is no lexer function left.\<close>

definition next_tok :: "cfg_parser \<Rightarrow> (cfg_token \<times> cfg_parser) option" where
  "next_tok p = (case cfg_emit (pc_l p) of None \<Rightarrow> None | Some (t, l) \<Rightarrow> Some (t, p\<lparr>pc_l := l\<rparr>))"

definition with_string ::
    "cfg_parser \<Rightarrow> (bytes \<Rightarrow> cfg_parser \<Rightarrow> cfg_parser) \<Rightarrow> (int \<times> cfg_parser) option" where
  "with_string p store =
     (case next_tok p of
        None \<Rightarrow> None
      | Some (t2, p2) \<Rightarrow>
          (case cfg_as_string t2 of None \<Rightarrow> Some (-1, p2) | Some s \<Rightarrow> Some (0, store s p2)))"

definition with_int ::
    "cfg_parser \<Rightarrow> cfg_type set \<Rightarrow> int \<Rightarrow> (int \<Rightarrow> cfg_parser \<Rightarrow> cfg_parser) \<Rightarrow> (int \<times> cfg_parser) option" where
  "with_int p types least store =
     (case next_tok p of
        None \<Rightarrow> None
      | Some (t2, p2) \<Rightarrow>
          if tk_type t2 \<notin> types then Some (1, p2)
          else if tok_int t2 < least then Some (1, p2)
          else Some (0, store (tok_int t2) p2))"

definition with_open :: "cfg_parser \<Rightarrow> cfg_state \<Rightarrow> (int \<times> cfg_parser) option" where
  "with_open p f =
     (case next_tok p of
        None \<Rightarrow> None
      | Some (t2, p2) \<Rightarrow> if tk_type t2 \<noteq> CT_OPEN then Some (-1, p2) else Some (0, p2\<lparr>pc_f := Some f\<rparr>))"

definition parse_scope :: "cfg_parser \<Rightarrow> (int \<times> cfg_parser) option" where
  "parse_scope p =
     (case next_tok p of
        None \<Rightarrow> None
      | Some (t2, p2) \<Rightarrow>
          if tk_type t2 = K_DEFAULT then with_open (cfg_backend_of p2 None) ParseBackend
          else (case cfg_as_string t2 of
                  None \<Rightarrow> Some (-1, p2)
                | Some s \<Rightarrow> with_open (cfg_backend_of p2 (Some s)) ParseBackend))"

definition parse_loglevel :: "cfg_parser \<Rightarrow> (int \<times> cfg_parser) option" where
  "parse_loglevel p =
     (case next_tok p of
        None \<Rightarrow> None
      | Some (t2, p2) \<Rightarrow>
          (case tk_type t2 of
             K_ERROR \<Rightarrow> Some (0, p2\<lparr>pc_loglevel := Some LOG_ERR\<rparr>)
           | K_INFO \<Rightarrow> Some (0, p2\<lparr>pc_loglevel := Some LOG_INFO\<rparr>)
           | K_DEBUG \<Rightarrow> Some (0, p2\<lparr>pc_loglevel := Some LOG_DEBUG\<rparr>)
           | _ \<Rightarrow> Some (1, p2)))"

definition parse_top :: "cfg_parser \<Rightarrow> (int \<times> cfg_parser) option" where
  "parse_top p =
     (case next_tok p of
        None \<Rightarrow> None
      | Some (t1, p1) \<Rightarrow>
          (case tk_type t1 of
             K_LISTEN \<Rightarrow> with_string p1 (\<lambda>s p. p\<lparr>pc_listen := Some s\<rparr>)
           | K_MONITOR \<Rightarrow> with_string p1 (\<lambda>s p. p\<lparr>pc_monitor := Some s\<rparr>)
           | K_HBA \<Rightarrow> with_string p1 (\<lambda>s p. p\<lparr>pc_hbafile := Some s\<rparr>)
           | K_USER \<Rightarrow> with_string p1 (\<lambda>s p. p\<lparr>pc_user := Some s\<rparr>)
           | K_GROUP \<Rightarrow> with_string p1 (\<lambda>s p. p\<lparr>pc_group := Some s\<rparr>)
           | K_PIDFILE \<Rightarrow> with_string p1 (\<lambda>s p. p\<lparr>pc_pidfile := Some s\<rparr>)
           | K_AUTHDB \<Rightarrow> with_string p1 (\<lambda>s p. p\<lparr>pc_authdb := Some s\<rparr>)
           | K_LOG \<Rightarrow> parse_loglevel p1
           | K_WORKERS \<Rightarrow> with_int p1 {TY_INTEGER, TY_TIME, TY_SIZE} 1 (\<lambda>i p. p\<lparr>pc_workers := Some i\<rparr>)
           | K_TLS \<Rightarrow> with_open p1 ParseTls
           | K_HEALTH \<Rightarrow> with_open p1 ParseHealth
           | K_BACKEND \<Rightarrow> parse_scope p1
           | CT_EOS \<Rightarrow> Some (0, p1\<lparr>pc_f := None\<rparr>)
           | _ \<Rightarrow> Some (1, p1\<lparr>pc_f := None\<rparr>)))"

definition parse_tls_mode :: "cfg_parser \<Rightarrow> (int \<times> cfg_parser) option" where
  "parse_tls_mode p =
     (case next_tok p of
        None \<Rightarrow> None
      | Some (t2, p2) \<Rightarrow>
          (case tk_type t2 of
             K_ON \<Rightarrow> Some (0, on_current (cb_tls_update (\<lambda>_. Some BACKEND_TLS_VERIFY)) p2)
           | K_OFF \<Rightarrow> Some (0, on_current (cb_tls_update (\<lambda>_. Some BACKEND_TLS_OFF)) p2)
           | K_SKIPVERIFY \<Rightarrow> Some (0, on_current (cb_tls_update (\<lambda>_. Some BACKEND_TLS_NOVERIFY)) p2)
           | _ \<Rightarrow> Some (1, p2)))"

definition parse_weight :: "(bytes \<Rightarrow> int) \<Rightarrow> cfg_parser \<Rightarrow> (int \<times> cfg_parser) option" where
  "parse_weight cents p =
     (case next_tok p of
        None \<Rightarrow> None
      | Some (t2, p2) \<Rightarrow>
          if tk_type t2 \<notin> {TY_INTEGER, TY_DECIMAL} then Some (1, p2)
          else (let i = (if tk_type t2 = TY_INTEGER then tok_int t2 else cents (word_string t2))
                in if i < 0 then Some (1, p2)
                   else Some (0, on_current (cb_weight_update (\<lambda>_. Some i)) p2)))"

definition parse_backend :: "(bytes \<Rightarrow> int) \<Rightarrow> cfg_parser \<Rightarrow> (int \<times> cfg_parser) option" where
  "parse_backend cents p =
     (case next_tok p of
        None \<Rightarrow> None
      | Some (t1, p1) \<Rightarrow>
          (case tk_type t1 of
             K_TLS \<Rightarrow> parse_tls_mode p1
           | K_LAG \<Rightarrow> with_int p1 {TY_INTEGER, TY_SIZE} 0 (\<lambda>i. on_current (cb_lag_update (\<lambda>_. Some i)))
           | K_WEIGHT \<Rightarrow> parse_weight cents p1
           | CT_CLOSE \<Rightarrow> Some (0, p1\<lparr>pc_f := Some ParseTop\<rparr>)
           | CT_TERMX \<Rightarrow> Some (0, p1)
           | _ \<Rightarrow> Some (1, p1)))"

definition parse_health :: "cfg_parser \<Rightarrow> (int \<times> cfg_parser) option" where
  "parse_health p =
     (case next_tok p of
        None \<Rightarrow> None
      | Some (t1, p1) \<Rightarrow>
          (case tk_type t1 of
             K_DATABASE \<Rightarrow> with_string p1 (\<lambda>s p. p\<lparr>pc_database := Some s\<rparr>)
           | K_USERNAME \<Rightarrow> with_string p1 (\<lambda>s p. p\<lparr>pc_username := Some s\<rparr>)
           | K_PASSWORD \<Rightarrow> with_string p1 (\<lambda>s p. p\<lparr>pc_password := Some s\<rparr>)
           | K_TIMEOUT \<Rightarrow> with_int p1 {TY_INTEGER, TY_TIME} 0 (\<lambda>i p. p\<lparr>pc_timeout := Some i\<rparr>)
           | K_CHECK \<Rightarrow> with_int p1 {TY_INTEGER, TY_TIME} 0 (\<lambda>i p. p\<lparr>pc_interval := Some i\<rparr>)
           | CT_CLOSE \<Rightarrow> Some (0, p1\<lparr>pc_f := Some ParseTop\<rparr>)
           | _ \<Rightarrow> Some (1, p1)))"

definition parse_tls :: "cfg_parser \<Rightarrow> (int \<times> cfg_parser) option" where
  "parse_tls p =
     (case next_tok p of
        None \<Rightarrow> None
      | Some (t1, p1) \<Rightarrow>
          (case tk_type t1 of
             K_CIPHERS \<Rightarrow> with_string p1 (\<lambda>s p. p\<lparr>pc_ciphers := Some s\<rparr>)
           | K_CERT \<Rightarrow> with_string p1 (\<lambda>s p. p\<lparr>pc_certfile := Some s\<rparr>)
           | K_KEY \<Rightarrow> with_string p1 (\<lambda>s p. p\<lparr>pc_keyfile := Some s\<rparr>)
           | CT_CLOSE \<Rightarrow> Some (0, p1\<lparr>pc_f := Some ParseTop\<rparr>)
           | _ \<Rightarrow> Some (1, p1)))"

fun parse_step :: "(bytes \<Rightarrow> int) \<Rightarrow> cfg_state \<Rightarrow> cfg_parser \<Rightarrow> (int \<times> cfg_parser) option" where
  "parse_step cents ParseTop p = parse_top p"
| "parse_step cents ParseBackend p = parse_backend cents p"
| "parse_step cents ParseHealth p = parse_health p"
| "parse_step cents ParseTls p = parse_tls p"

text \<open>\<^verbatim>\<open>parse\<close> drops the result of the parser functions: it always returns 0.\<close>

partial_function (option) cfg_parse :: "(bytes \<Rightarrow> int) \<Rightarrow> cfg_parser \<Rightarrow> (int \<times> cfg_parser) option" where
  "cfg_parse cents p =
     (case pc_f p of
        None \<Rightarrow> Some (0, p)
      | Some f \<Rightarrow> (case parse_step cents f p of
                    None \<Rightarrow> None
                  | Some (rc, p1) \<Rightarrow> if rc = 0 then cfg_parse cents p1 else Some (0, p1)))"

declare cfg_parse.simps [code]

definition cfg_parser_init :: "bytes option \<Rightarrow> cfg_parser option" where
  "cfg_parser_init io =
     (case lexer_init CfgAny io of
        None \<Rightarrow> None
      | Some l \<Rightarrow> Some \<lparr>pc_backends = [make_backend None], pc_current = 0, pc_workers = None, pc_loglevel = None,
          pc_interval = None, pc_timeout = None, pc_database = None, pc_username = None, pc_password = None,
          pc_listen = None, pc_monitor = None, pc_hbafile = None, pc_pidfile = None, pc_ciphers = None,
          pc_certfile = None, pc_keyfile = None, pc_user = None, pc_group = None, pc_authdb = None,
          pc_l = l, pc_f = Some ParseTop\<rparr>)"

section \<open>Configuring the context\<close>

text \<open>\<open>hostport s\<close>: the result, the host, and the port when it was stored.\<close>

fun hostport_digits :: "int \<Rightarrow> bytes \<Rightarrow> int option" where
  "hostport_digits i [] = Some i"
| "hostport_digits i (c # s) = (if isdigit c then hostport_digits (int32 (i * 10 + digit c)) s else None)"

definition hostport :: "bytes \<Rightarrow> int \<times> bytes \<times> int option" where
  "hostport s =
     (let host = takeWhile (\<lambda>c. c \<noteq> CHR '':'') s
      in case drop (length host) s of
           [] \<Rightarrow> (0, host, Some 5432)
         | _ # p \<Rightarrow> (case hostport_digits 0 p of None \<Rightarrow> (1, host, None) | Some i \<Rightarrow> (0, host, Some i)))"

definition get_int :: "int \<Rightarrow> int option \<Rightarrow> int option \<Rightarrow> int" where
  "get_int a b c = (case c of Some v \<Rightarrow> v | None \<Rightarrow> (case b of Some v \<Rightarrow> v | None \<Rightarrow> a))"

definition get_str :: "bytes \<Rightarrow> bytes option \<Rightarrow> bytes option \<Rightarrow> bytes" where
  "get_str a b c = (case c of Some v \<Rightarrow> v | None \<Rightarrow> (case b of Some v \<Rightarrow> v | None \<Rightarrow> a))"

text \<open>An entry of \<^verbatim>\<open>calloc\<close>: \<^verbatim>\<open>NULL\<close> strings are empty.\<close>

definition blank_backend :: BACKEND where
  "blank_backend = \<lparr>be_serial = 0, be_hostname = [], be_port = 0, be_tls = 0, be_role = 0, be_status = 0,
     be_weight = 0, be_database = [], be_username = [], be_password = [], be_lag = 0, be_threshold = 0\<rparr>"

definition fill_backend :: "cfg_parser \<Rightarrow> cfg_backend \<Rightarrow> bytes \<Rightarrow> int \<Rightarrow> BACKEND" where
  "fill_backend p b host port =
     (let d = hd (pc_backends p)
      in blank_backend\<lparr>be_hostname := host, be_port := port, be_serial := 1,
           be_tls := get_int BACKEND_TLS_OFF (cb_tls d) (cb_tls b),
           be_threshold := of_int (get_int BACKEND_TLS_OFF (cb_lag d) (cb_lag b)),
           be_weight := get_int BACKEND_TLS_OFF (cb_weight d) (cb_weight b),
           be_database := get_str ''postgres'' (pc_database p) None,
           be_username := get_str ''postgres'' (pc_username p) None,
           be_password := get_str [] (pc_password p) None\<rparr>)"

text \<open>The loop over the backends; a bad port ends it and leaves the rest blank.\<close>

fun fill_backends :: "cfg_parser \<Rightarrow> cfg_backend list \<Rightarrow> int \<times> BACKEND list" where
  "fill_backends p [] = (0, [])"
| "fill_backends p (b # bs) =
     (case hostport (case cb_id b of Some s \<Rightarrow> s | None \<Rightarrow> []) of
        (rc, host, port) \<Rightarrow>
          (case port of
             None \<Rightarrow> (1, blank_backend\<lparr>be_hostname := host\<rparr> # map (\<lambda>_. blank_backend) bs)
           | Some n \<Rightarrow> (case fill_backends p bs of (rc2, xs) \<Rightarrow> (rc2, fill_backend p b host n # xs))))"

text \<open>
  \<open>startup reload new old\<close>: a setting that only counts at the start. On a reload the source
  compares it with the old value; \<open>Crash\<close> is \<^verbatim>\<open>strcmp\<close> with a \<^verbatim>\<open>NULL\<close> old value.
\<close>

definition startup :: "bool \<Rightarrow> bytes option \<Rightarrow> bytes option \<Rightarrow> bytes option run" where
  "startup reload new old =
     (case new of
        None \<Rightarrow> Ret old
      | Some _ \<Rightarrow> if \<not> reload then Ret new else (case old of None \<Rightarrow> Crash | Some _ \<Rightarrow> Ret old))"

text \<open>The settings one after the other, until the first crash.\<close>

type_synonym setting =
  "(cfg_parser \<Rightarrow> bytes option) \<times> (CONTEXT \<Rightarrow> bytes option) \<times> (bytes option \<Rightarrow> CONTEXT \<Rightarrow> CONTEXT)"

fun startup_all :: "bool \<Rightarrow> setting list \<Rightarrow> cfg_parser \<Rightarrow> CONTEXT \<Rightarrow> CONTEXT run" where
  "startup_all reload [] p c = Ret c"
| "startup_all reload ((new, old, store) # xs) p c =
     (case startup reload (new p) (old c) of
        Crash \<Rightarrow> Crash
      | Ret v \<Rightarrow> startup_all reload xs p (store v c))"

definition startup_settings :: "setting list" where
  "startup_settings =
    [(pc_listen, st_frontend, \<lambda>v. st_frontend_update (\<lambda>_. v)), (pc_monitor, st_monitor, \<lambda>v. st_monitor_update (\<lambda>_. v)),
     (pc_hbafile, st_hbafile, \<lambda>v. st_hbafile_update (\<lambda>_. v)), (pc_pidfile, st_pidfile, \<lambda>v. st_pidfile_update (\<lambda>_. v)),
     (pc_authdb, authdb_file, \<lambda>v. authdb_file_update (\<lambda>_. v)),
     (pc_ciphers, st_tls_ciphers, \<lambda>v. st_tls_ciphers_update (\<lambda>_. v)),
     (pc_certfile, st_tls_certfile, \<lambda>v. st_tls_certfile_update (\<lambda>_. v)),
     (pc_keyfile, st_tls_keyfile, \<lambda>v. st_tls_keyfile_update (\<lambda>_. v)),
     (pc_user, st_user, \<lambda>v. st_user_update (\<lambda>_. v)), (pc_group, st_group, \<lambda>v. st_group_update (\<lambda>_. v))]"

definition set_opt :: "'a option \<Rightarrow> 'a \<Rightarrow> 'a" where
  "set_opt new old = (case new of None \<Rightarrow> old | Some v \<Rightarrow> v)"

definition update_settings :: "cfg_parser \<Rightarrow> CONTEXT \<Rightarrow> CONTEXT" where
  "update_settings p c =
     c\<lparr>cx_workers := set_opt (pc_workers p) (cx_workers c), cx_loglevel := set_opt (pc_loglevel p) (cx_loglevel c),
       health_interval := set_opt (pc_interval p) (health_interval c),
       health_timeout := set_opt (pc_timeout p) (health_timeout c),
       health_database := set_opt (map_option Some (pc_database p)) (health_database c),
       health_username := set_opt (map_option Some (pc_username p)) (health_username c),
       health_password := set_opt (map_option Some (pc_password p)) (health_password c)\<rparr>"

definition configure_backends :: "bool \<Rightarrow> cfg_parser \<Rightarrow> CONTEXT \<Rightarrow> int \<times> CONTEXT" where
  "configure_backends reload p c =
     (if reload then (0, c)
      else (case fill_backends p (tl (pc_backends p)) of
              (rc, bs) \<Rightarrow> (if rc \<noteq> 0 then 1 else 0, c\<lparr>backends := bs\<rparr>)))"

text \<open>
  \<open>fs\<close> gives the contents of the files, and of the standard input under the name \<^verbatim>\<open>-\<close>. \<open>None\<close> is
  a parse that does not return. \<open>Crash\<close> after a failed \<^verbatim>\<open>lexer_init\<close> (a pipe, which cannot be
  measured): \<^verbatim>\<open>parser_free\<close> reads through the lexer that was not set.
\<close>

definition pgr_configure ::
    "(bytes \<Rightarrow> bytes option option) \<Rightarrow> (bytes \<Rightarrow> int) \<Rightarrow> CONTEXT \<Rightarrow> bytes \<Rightarrow> bool \<Rightarrow> (int \<times> CONTEXT) run option" where
  "pgr_configure fs cents c path reload =
     (case fs path of
        None \<Rightarrow> Some (Ret (1, c))
      | Some io \<Rightarrow>
          (case cfg_parser_init io of
             None \<Rightarrow> Some Crash
           | Some p0 \<Rightarrow>
               (case cfg_parse cents p0 of
                  None \<Rightarrow> None
                | Some (rc, p) \<Rightarrow>
                    if rc \<noteq> 0 then Some (Ret (rc, c))
                    else (case startup_all reload startup_settings p (update_settings p c) of
                            Crash \<Rightarrow> Some Crash
                          | Ret c1 \<Rightarrow> Some (Ret (configure_backends reload p c1))))))"

end
