(* ===== verification/Daemon.thy ===== *)
theory Daemon
  imports Log
begin

text \<open>
  \<^verbatim>\<open>daemonize\<close>, \<^verbatim>\<open>inform_parent\<close> and \<^verbatim>\<open>do_shutdown\<close> of \<^verbatim>\<open>src/main.c\<close>: the steps that put the program
  into the background. The answers of the system calls are given; \<open>process\<close> is what they change.
\<close>

section \<open>The process and the answers of the system\<close>

record process =
  ps_uid     :: int
  ps_gid     :: int
  ps_umask   :: int
  ps_cwd     :: bytes
  ps_pidfile :: "bytes option"    \<comment> \<open>its content, \<open>None\<close> when there is no such file\<close>
  ps_piddir  :: bytes             \<comment> \<open>the directory it was opened from\<close>
  ps_owner   :: "int \<times> int"       \<comment> \<open>the owner of the file\<close>
  ps_locked  :: bool              \<comment> \<open>whether the process holds the lock on it\<close>
  ps_leader  :: bool              \<comment> \<open>whether it leads a session of its own\<close>
  ps_null    :: "bool \<times> bool \<times> bool"   \<comment> \<open>the standard streams that are on \<^verbatim>\<open>/dev/null\<close>\<close>
  ps_told    :: bytes             \<comment> \<open>what went through the pipe to the parent\<close>

record sys_answers =
  sy_open    :: bool
  sy_passwd  :: "bytes \<Rightarrow> int option"
  sy_group   :: "bytes \<Rightarrow> int option"
  sy_chdir   :: int
  sy_pipe    :: int
  sy_fork    :: int
  sy_getpid  :: int
  sy_lock    :: int
  sy_setsid  :: int
  sy_write   :: int               \<comment> \<open>to the pidfile\<close>
  sy_fchown  :: int
  sy_setgid  :: int
  sy_setuid  :: int
  sy_freopen :: "bool \<times> bool \<times> bool"
  sy_inform  :: int               \<comment> \<open>to the pipe\<close>
  sy_reads   :: "int list"        \<comment> \<open>by the parent, up to the end of the pipe\<close>
  sy_busy    :: bool              \<comment> \<open>\<^verbatim>\<open>errno\<close> is \<^verbatim>\<open>EACCES\<close> or \<^verbatim>\<open>EAGAIN\<close>\<close>
  sy_error   :: bytes             \<comment> \<open>\<^verbatim>\<open>strerror(errno)\<close>\<close>

type_synonym phase = "process \<Rightarrow> process \<times> unit ended"

fun run_phases :: "phase list \<Rightarrow> phase" where
  "run_phases [] p = (p, Goes_on ())"
| "run_phases (f # fs) p =
     (case f p of
        (p1, r) \<Rightarrow> (case r of Goes_on _ \<Rightarrow> run_phases fs p1 | _ \<Rightarrow> (p1, r)))"

text \<open>\<^verbatim>\<open>vsnprintf\<close> keeps 8191 octets; a short or failed write is only reported.\<close>

definition inform_parent :: "sys_answers \<Rightarrow> bytes \<Rightarrow> process \<Rightarrow> process" where
  "inform_parent sy text p = p\<lparr>ps_told := ps_told p @ take (nat (sy_inform sy)) (snprintf 8192 text)\<rparr>"

text \<open>A relative name is looked up in the present directory, which may not be that of the file.\<close>

definition unlink :: "bytes option \<Rightarrow> process \<Rightarrow> process" where
  "unlink pidfile p =
     (case pidfile of
        None \<Rightarrow> p
      | Some f \<Rightarrow> if take 1 f = ''/'' \<or> ps_cwd p = ps_piddir p then p\<lparr>ps_pidfile := None\<rparr> else p)"

section \<open>The phases\<close>

text \<open>\<^verbatim>\<open>open\<close> with \<^verbatim>\<open>O_CREAT\<close> and without \<^verbatim>\<open>O_TRUNC\<close>: what is in the file stays.\<close>

definition open_pidfile :: "sys_answers \<Rightarrow> bytes option \<Rightarrow> phase" where
  "open_pidfile sy pidfile p =
     (let p1 = p\<lparr>ps_umask := 0, ps_piddir := ps_cwd p\<rparr>
      in case pidfile of
           None \<Rightarrow> (p1, Goes_on ())
         | Some _ \<Rightarrow>
             if \<not> sy_open sy then (p1, Exits 2)
             else (case ps_pidfile p1 of
                     None \<Rightarrow> (p1\<lparr>ps_pidfile := Some [], ps_owner := (ps_uid p, ps_gid p)\<rparr>, Goes_on ())
                   | Some _ \<Rightarrow> (p1, Goes_on ())))"

definition enter_root :: "sys_answers \<Rightarrow> phase" where
  "enter_root sy p = (if sy_chdir sy \<noteq> 0 then (p, Exits 2) else (p\<lparr>ps_cwd := ''/''\<rparr>, Goes_on ()))"

text \<open>
  The parent copies the pipe to its standard error. \<^verbatim>\<open>n\<close> is a \<^verbatim>\<open>size_t\<close>, so a failed read is a huge
  size, and the octet after a full buffer lies outside it.
\<close>

fun parent_reads :: "int list \<Rightarrow> unit ended" where
  "parent_reads [] = Exits 0"
| "parent_reads (n # ns) = (if n = 0 then Exits 0 else if 0 < n \<and> n < 8192 then parent_reads ns else Lost)"

definition fork_child :: "sys_answers \<Rightarrow> phase" where
  "fork_child sy p =
     (if sy_pipe sy \<noteq> 0 then (p, Exits 2)
      else if sy_fork sy < 0 then (p, Exits 2)
      else if 0 < sy_fork sy then (p, parent_reads (sy_reads sy))
      else (p\<lparr>ps_locked := False, ps_leader := False\<rparr>, Goes_on ()))"

definition lock_pidfile :: "sys_answers \<Rightarrow> bytes option \<Rightarrow> phase" where
  "lock_pidfile sy pidfile p =
     (case pidfile of
        None \<Rightarrow> (p, Goes_on ())
      | Some f \<Rightarrow>
          if sy_lock sy = -1
          then (inform_parent sy (''Failed to acquire lock on '' @ f @ ''.'' @
                  (if sy_busy sy then ''  Is another copy running?'' else sy_error sy) @ [CHR 0x0A]) p, Exits 2)
          else (p\<lparr>ps_locked := True\<rparr>, Goes_on ()))"

definition new_session :: "sys_answers \<Rightarrow> phase" where
  "new_session sy p =
     (if sy_setsid sy = -1
      then (inform_parent sy (''Failed to drop controlling terminal: '' @ sy_error sy @ [CHR 0x0A]) p, Exits 2)
      else (p\<lparr>ps_leader := True\<rparr>, Goes_on ()))"

text \<open>\<^verbatim>\<open>snprintf\<close> into 8 octets; the write begins at the start of the file.\<close>

definition pid_text :: "int \<Rightarrow> bytes" where
  "pid_text pid = snprintf 8 (fmt_d pid @ [CHR 0x0A])"

definition overwrite :: "bytes \<Rightarrow> bytes \<Rightarrow> bytes" where
  "overwrite new old = new @ drop (length new) old"

text \<open>
  After a short write the message takes the length of a buffer that was never set, which is
  \<open>Lost\<close>; a failed write (-1 as a \<^verbatim>\<open>size_t\<close>) is not noticed.
\<close>

definition write_pid :: "sys_answers \<Rightarrow> bytes option \<Rightarrow> phase" where
  "write_pid sy pidfile p =
     (case pidfile of
        None \<Rightarrow> (p, Goes_on ())
      | Some _ \<Rightarrow>
          (let text = pid_text (sy_getpid sy); n = sy_write sy;
               old = (case ps_pidfile p of None \<Rightarrow> [] | Some b \<Rightarrow> b);
               p1 = p\<lparr>ps_pidfile := Some (overwrite (take (nat n) text) old)\<rparr>
           in if 0 \<le> n \<and> n < int (length text) then (p1, Lost) else (p1, Goes_on ())))"

definition give_pidfile :: "sys_answers \<Rightarrow> bytes option \<Rightarrow> int \<Rightarrow> int \<Rightarrow> phase" where
  "give_pidfile sy pidfile uid gid p =
     (case pidfile of
        None \<Rightarrow> (p, Goes_on ())
      | Some f \<Rightarrow>
          if ps_uid p \<noteq> 0 then (p, Goes_on ())
          else if sy_fchown sy \<noteq> 0
          then (unlink pidfile (inform_parent sy (''Failed to change user/groupd ownership of pidfile '' @ f @
                  '': '' @ sy_error sy @ [CHR 0x0A]) p), Exits 2)
          else (p\<lparr>ps_owner := (uid, gid)\<rparr>, Goes_on ()))"

definition switch_group :: "sys_answers \<Rightarrow> bytes option \<Rightarrow> bytes \<Rightarrow> int \<Rightarrow> phase" where
  "switch_group sy pidfile grp gid p =
     (if ps_uid p \<noteq> 0 \<or> gid = ps_gid p then (p, Goes_on ())
      else if sy_setgid sy \<noteq> 0
      then (unlink pidfile (inform_parent sy (''Failed to switch to group '' @ [CHR 0x27] @ grp @ [CHR 0x27] @
              '': '' @ sy_error sy @ [CHR 0x0A]) p), Exits 2)
      else (p\<lparr>ps_gid := gid\<rparr>, Goes_on ()))"

definition switch_user :: "sys_answers \<Rightarrow> bytes option \<Rightarrow> bytes \<Rightarrow> int \<Rightarrow> phase" where
  "switch_user sy pidfile user uid p =
     (if ps_uid p \<noteq> 0 \<or> uid = ps_uid p then (p, Goes_on ())
      else if sy_setuid sy \<noteq> 0
      then (unlink pidfile (inform_parent sy (''Failed to switch to user '' @ [CHR 0x27] @ user @ [CHR 0x27] @
              '': '' @ sy_error sy @ [CHR 0x0A]) p), Exits 2)
      else (p\<lparr>ps_uid := uid\<rparr>, Goes_on ()))"

definition redirect :: "sys_answers \<Rightarrow> phase" where
  "redirect sy p = (p\<lparr>ps_null := sy_freopen sy\<rparr>, Goes_on ())"

section \<open>The whole\<close>

definition background :: "sys_answers \<Rightarrow> bytes option \<Rightarrow> bytes \<Rightarrow> int \<Rightarrow> bytes \<Rightarrow> int \<Rightarrow> phase" where
  "background sy pidfile user uid grp gid =
     run_phases [enter_root sy, fork_child sy, lock_pidfile sy pidfile, new_session sy, write_pid sy pidfile,
       give_pidfile sy pidfile uid gid, switch_group sy pidfile grp gid, switch_user sy pidfile user uid,
       redirect sy]"

text \<open>\<open>Lost\<close> for a user or group that the configuration does not set: \<^verbatim>\<open>getpwnam\<close> of \<^verbatim>\<open>NULL\<close>.\<close>

definition find_id :: "(bytes \<Rightarrow> int option) \<Rightarrow> bytes option \<Rightarrow> (bytes \<times> int) ended" where
  "find_id table name =
     (case name of
        None \<Rightarrow> Lost
      | Some s \<Rightarrow> (case table s of None \<Rightarrow> Exits 2 | Some i \<Rightarrow> Goes_on (s, i)))"

definition daemonize :: "sys_answers \<Rightarrow> bytes option \<Rightarrow> bytes option \<Rightarrow> bytes option \<Rightarrow> phase" where
  "daemonize sy pidfile user grp p =
     (case open_pidfile sy pidfile p of
        (p1, Goes_on _) \<Rightarrow>
          (case find_id (sy_passwd sy) user of
             Goes_on (u, uid) \<Rightarrow>
               (case find_id (sy_group sy) grp of
                  Goes_on (g, gid) \<Rightarrow> background sy pidfile u uid g gid p1
                | Exits code \<Rightarrow> (p1, Exits code) | Aborts code \<Rightarrow> (p1, Aborts code) | Lost \<Rightarrow> (p1, Lost))
           | Exits code \<Rightarrow> (p1, Exits code) | Aborts code \<Rightarrow> (p1, Aborts code) | Lost \<Rightarrow> (p1, Lost))
      | (p1, r) \<Rightarrow> (p1, r))"

section \<open>Shutting down\<close>

datatype thread = Watcher_thread | Monitor_thread | Worker_thread nat
datatype thread_call = Cancel thread | Join thread

text \<open>The calls of \<^verbatim>\<open>do_shutdown\<close> with \<open>n\<close> workers, in order.\<close>

definition do_shutdown :: "nat \<Rightarrow> thread_call list" where
  "do_shutdown n =
     (let ts = [Watcher_thread, Monitor_thread] @ map Worker_thread [0..<n]
      in map Cancel ts @ map Join ts)"

end
