(* ===== verification/Supervisor.thy ===== *)
theory Supervisor
  imports Config Net Authdb Daemon
begin

text \<open>
  The main program (\<^verbatim>\<open>src/main.c\<close>) from the options to the signals.
  What \<^verbatim>\<open>getopt_long\<close> finds is given, as are the results of the system calls.
\<close>

section \<open>Options\<close>

datatype option_found = Help | Config_file bytes | Foreground | Verbose | Other_option

definition DEFAULT_CONFIG_FILE :: bytes where "DEFAULT_CONFIG_FILE = ''/etc/pgrouter.conf''"

record settings =
  opt_config     :: bytes
  opt_verbose    :: nat
  opt_foreground :: bool

text \<open>\<open>Inl\<close>: the exit code.\<close>

fun parse_options :: "option_found list \<Rightarrow> settings \<Rightarrow> int + settings" where
  "parse_options [] s = Inr s"
| "parse_options (Help # xs) s = Inl 0"
| "parse_options (Config_file f # xs) s = parse_options xs (s\<lparr>opt_config := f\<rparr>)"
| "parse_options (Foreground # xs) s = parse_options xs (s\<lparr>opt_foreground := True\<rparr>)"
| "parse_options (Verbose # xs) s = parse_options xs (s\<lparr>opt_verbose := opt_verbose s + 1\<rparr>)"
| "parse_options (Other_option # xs) s = Inl 1"

definition no_options :: settings where
  "no_options = \<lparr>opt_config = DEFAULT_CONFIG_FILE, opt_verbose = 0, opt_foreground = False\<rparr>"

definition verbosity :: "nat \<Rightarrow> int \<Rightarrow> int" where
  "verbosity n level = (case n of 0 \<Rightarrow> level | Suc 0 \<Rightarrow> pgr_logger LOG_ERR | Suc (Suc 0) \<Rightarrow> pgr_logger LOG_INFO
     | _ \<Rightarrow> pgr_logger LOG_DEBUG)"

section \<open>The start\<close>

definition FRONTEND_BACKLOG :: int where "FRONTEND_BACKLOG = 64"
definition MONITOR_BACKLOG :: int where "MONITOR_BACKLOG = 64"

definition blank_context :: CONTEXT where
  "blank_context = \<lparr>cx_frontend4 = 0, cx_frontend6 = 0, cx_monitor4 = 0, cx_monitor6 = 0, cx_workers = 0,
     cx_loglevel = 0, health_interval = 0, health_timeout = 0, health_database = None, health_username = None,
     health_password = None, authdb_file = None, authdb_usernames = [], authdb_md5hashes = [],
     st_frontend = None, st_monitor = None, st_hbafile = None, st_pidfile = None, st_tls_ciphers = None,
     st_tls_certfile = None, st_tls_keyfile = None, st_user = None, st_group = None, st_daemonize = 0,
     fe_conns = 0, be_conns = 0, ok_backends = 0, backends = []\<rparr>"

definition listen_both :: "pton \<Rightarrow> bytes option \<Rightarrow> int \<Rightarrow> world \<Rightarrow> (int \<times> int \<times> world) ended" where
  "listen_both pton ep backlog w =
     (case ep of
        None \<Rightarrow> Lost
      | Some e \<Rightarrow>
          (case pgr_listen4 pton e backlog w of
             None \<Rightarrow> Lost
           | Some (fd4, w1) \<Rightarrow>
               (case pgr_listen6 pton e backlog w1 of
                  None \<Rightarrow> Lost
                | Some (fd6, w2) \<Rightarrow> if fd4 < 0 \<and> fd6 < 0 then Aborts ABORT_NET else Goes_on (fd4, fd6, w2))))"

definition bind_all :: "pton \<Rightarrow> CONTEXT \<Rightarrow> world \<Rightarrow> (CONTEXT \<times> world) ended" where
  "bind_all pton c w =
     (case listen_both pton (st_frontend c) FRONTEND_BACKLOG w of
        Goes_on (f4, f6, w1) \<Rightarrow>
          (let c1 = c\<lparr>cx_frontend4 := f4, cx_frontend6 := f6\<rparr>
           in case listen_both pton (st_monitor c1) MONITOR_BACKLOG w1 of
                Goes_on (m4, m6, w2) \<Rightarrow> Goes_on (c1\<lparr>cx_monitor4 := m4, cx_monitor6 := m6\<rparr>, w2)
              | Aborts code \<Rightarrow> Aborts code | Exits code \<Rightarrow> Exits code | Lost \<Rightarrow> Lost)
      | Aborts code \<Rightarrow> Aborts code | Exits code \<Rightarrow> Exits code | Lost \<Rightarrow> Lost)"

text \<open>From the options to the sockets; \<open>rcs\<close> are the results of the initialisations of locks.\<close>

definition load :: "(bytes \<Rightarrow> bytes option option) \<Rightarrow> (bytes \<Rightarrow> int) \<Rightarrow> int list \<Rightarrow> bytes \<Rightarrow> CONTEXT ended" where
  "load fs cents rcs path =
     (case pgr_configure fs cents blank_context path False of
        None \<Rightarrow> Lost
      | Some Crash \<Rightarrow> Lost
      | Some (Ret (rc, c)) \<Rightarrow>
          if rc \<noteq> 0 then Exits 2
          else (case pgr_context rcs c of
                  (rc, c1) \<Rightarrow>
                    if rc \<noteq> 0 then Exits 3
                    else (case pgr_authdb fs c1 of
                            None \<Rightarrow> Lost
                          | Some (rc, c2) \<Rightarrow> if rc \<noteq> 0 then Exits 3 else Goes_on c2)))"

definition main_start ::
    "(bytes \<Rightarrow> bytes option option) \<Rightarrow> (bytes \<Rightarrow> int) \<Rightarrow> pton \<Rightarrow> int list \<Rightarrow> sys_answers \<Rightarrow>
     option_found list \<Rightarrow> process \<Rightarrow> world \<Rightarrow> process \<times> (int \<times> settings \<times> CONTEXT \<times> world) ended" where
  "main_start fs cents pton rcs sy opts p w =
     (case parse_options opts no_options of
        Inl code \<Rightarrow> (p, Exits code)
      | Inr s \<Rightarrow>
          (case load fs cents rcs (opt_config s) of
             Goes_on c \<Rightarrow>
               (case (if opt_foreground s then (p, Goes_on ())
                      else daemonize sy (st_pidfile c) (st_user c) (st_group c) p) of
                  (p1, Goes_on _) \<Rightarrow>
                    (case bind_all pton c w of
                       Goes_on (c1, w1) \<Rightarrow> (p1, Goes_on (verbosity (opt_verbose s) 0, s, c1, w1))
                     | Aborts code \<Rightarrow> (p1, Aborts code) | Exits code \<Rightarrow> (p1, Exits code) | Lost \<Rightarrow> (p1, Lost))
                | (p1, Exits code) \<Rightarrow> (p1, Exits code) | (p1, Aborts code) \<Rightarrow> (p1, Aborts code) | (p1, Lost) \<Rightarrow> (p1, Lost))
           | Aborts code \<Rightarrow> (p, Aborts code) | Exits code \<Rightarrow> (p, Exits code) | Lost \<Rightarrow> (p, Lost)))"

text \<open>
  The threads: \<open>masked\<close> is the result of \<^verbatim>\<open>pthread_sigmask\<close>, \<open>watcher\<close> and \<open>workers\<close> are the results of \<^verbatim>\<open>pthread_create\<close>, \<open>monitor\<close> is what
  \<^verbatim>\<open>pgr_monitor\<close> happens to return: it has no \<^verbatim>\<open>return\<close> with a value.
\<close>

definition start_threads :: "int \<Rightarrow> int \<Rightarrow> int \<Rightarrow> int list \<Rightarrow> CONTEXT \<Rightarrow> unit ended" where
  "start_threads masked watcher monitor workers c =
     (if masked \<noteq> 0 then Exits 4
      else if watcher \<noteq> 0 then Exits 5
      else if monitor \<noteq> 0 then Exits 6
      else if list_ex (\<lambda>rc. rc \<noteq> 0) (take (nat (cx_workers c)) workers) then Exits 7
      else Goes_on ())"

section \<open>Signals\<close>

datatype signal = SIGTERM | SIGINT | SIGQUIT | SIGHUP

text \<open>One turn of the loop of the main thread; the configuration file may have changed.\<close>

definition on_signal ::
    "(bytes \<Rightarrow> bytes option option) \<Rightarrow> (bytes \<Rightarrow> int) \<Rightarrow> bytes \<Rightarrow> signal \<Rightarrow> CONTEXT \<Rightarrow> CONTEXT ended" where
  "on_signal fs cents config sig c =
     (case sig of
        SIGTERM \<Rightarrow> Exits 1
      | SIGINT \<Rightarrow> Exits 2
      | SIGQUIT \<Rightarrow> Exits 3
      | SIGHUP \<Rightarrow>
          (case pgr_configure fs cents c config True of
             None \<Rightarrow> Lost
           | Some Crash \<Rightarrow> Lost
           | Some (Ret (rc, c1)) \<Rightarrow> Goes_on c1))"

inductive signalled ::
    "((bytes \<Rightarrow> bytes option option) \<times> signal) list \<Rightarrow> (bytes \<Rightarrow> int) \<Rightarrow> bytes \<Rightarrow> CONTEXT \<Rightarrow> CONTEXT \<Rightarrow> bool" where
  none: "signalled [] cents config c c"
| more: "on_signal fs cents config sig c = Goes_on c1 \<Longrightarrow> signalled xs cents config c1 c2 \<Longrightarrow>
         signalled ((fs, sig) # xs) cents config c c2"

end
