(* ===== verification/Config_Laws.thy ===== *)
theory Config_Laws
  imports Config Authdb_Laws
begin

text \<open>
  The lexer of the configuration on text ahead: blanks, keywords, numbers, quoted strings and
  braces, and what one octet more or less does.
\<close>

section \<open>Accepting characters\<close>

lemma accept_one_in:
  "lx_view l f pre (c # rest) \<Longrightarrow> c \<in> set valid \<Longrightarrow> c \<noteq> NUL \<Longrightarrow>
   \<exists>l1. accept_one l valid = (True, l1) \<and> lx_view l1 f (pre @ [c]) rest"
  by (auto simp: accept_one_def elim: view_next)

lemma accept_one_out:
  "lx_view l f pre (c # rest) \<Longrightarrow> c \<notin> set valid \<or> c = NUL \<Longrightarrow>
   \<exists>l1. accept_one l valid = (False, l1) \<and> lx_view l1 f pre (c # rest)"
  by (auto simp: accept_one_def elim!: view_next dest: view_backup)

lemma accept_all_view:
  "lx_view l f pre (w @ d # rest) \<Longrightarrow> (\<And>c. c \<in> set w \<Longrightarrow> c \<in> set valid \<and> c \<noteq> NUL) \<Longrightarrow>
   d \<notin> set valid \<or> d = NUL \<Longrightarrow>
   \<exists>l1. accept_all l valid = (int (length w), l1) \<and> lx_view l1 f (pre @ w) (d # rest)"
proof (induction w arbitrary: l pre)
  case Nil
  then obtain l1 where "accept_one l valid = (False, l1)" "lx_view l1 f pre (d # rest)"
    using accept_one_out [of l f pre d rest valid] by auto
  then show ?case by (subst accept_all.simps) simp
next
  case (Cons c w)
  then obtain l1 where a: "accept_one l valid = (True, l1)" and v: "lx_view l1 f (pre @ [c]) (w @ d # rest)"
    using accept_one_in [of l f pre c "w @ d # rest" valid] by auto
  have "\<exists>l2. accept_all l1 valid = (int (length w), l2) \<and> lx_view l2 f ((pre @ [c]) @ w) (d # rest)"
    by (rule Cons.IH [OF v]) (use Cons.prems in auto)
  then show ?case using a by (auto simp: accept_all.simps [of l])
qed

lemma view_restart: "lx_view l f pre rest \<Longrightarrow> lx_view (lex_restart l) f [] (pre @ rest)"
  by (simp add: lx_view_def lex_restart_def)

lemma view_start: "lx_view l f pre rest \<Longrightarrow> drop (nat (lx_start l)) (lx_src l) = pre @ rest"
  "lx_view l f pre rest \<Longrightarrow> nat (lx_pos l - lx_start l) = length pre"
  by (simp_all add: lx_view_def)

section \<open>Blanks, braces, ends\<close>

lemma cfg_emit_any:
  "lx_view l (Some CfgAny) [] rest \<Longrightarrow>
   cfg_emit l = (case cfg_lex_any l of (t, l1) \<Rightarrow> if tk_type t = CT_RESTART then cfg_emit l1 else Some (t, l1))"
  by (subst cfg_emit.simps) (simp add: lx_view_def)

lemma char_kinds:
  "isspace (CHR '' '')" "isspace (CHR 0x0A)" "\<not> isspace (CHR 0x7B)" "\<not> isspace (CHR 0x7D)" "\<not> isspace (CHR 0x22)"
  by (simp_all add: isspace_def uchar_def)

lemma cfg_blank:
  assumes v: "lx_view l (Some CfgAny) [] (c # rest)" and c: "isspace c"
  shows "\<exists>l1. cfg_emit l = cfg_emit l1 \<and> lx_view l1 (Some CfgAny) [] rest"
proof -
  from v obtain l1 where n: "lex_next l = (c, l1)" and v1: "lx_view l1 (Some CfgAny) [c] rest"
    by (auto elim: view_next)
  define l2 where "l2 = (if c = CHR 0x0A then (lex_ignore l1)\<lparr>lx_line := lx_line l1 + 1, lx_col := 0\<rparr> else lex_ignore l1)"
  have v2: "lx_view l2 (Some CfgAny) [] rest" using view_ignore [OF v1] by (simp add: l2_def lx_view_def)
  have "c \<noteq> NUL" using c by (auto simp: isspace_def)
  then have "cfg_lex_any l = cfg_lex_any l2" using c by (subst cfg_lex_any.simps) (simp add: n l2_def)
  then have "cfg_emit l = cfg_emit l2" by (simp only: cfg_emit_any [OF v] cfg_emit_any [OF v2])
  then show ?thesis using v2 by blast
qed

lemma cfg_punct:
  assumes v: "lx_view l (Some CfgAny) [] (c # rest)"
    and c: "c = CHR 0x7B \<and> k = CT_OPEN \<or> c = CHR 0x7D \<and> k = CT_CLOSE \<or> c = CHR '';'' \<and> k = CT_TERMX"
  shows "\<exists>l1. cfg_emit l = Some (tok_none k, l1) \<and> lx_view l1 (Some CfgAny) [] rest"
proof -
  from v obtain l1 where n: "lex_next l = (c, l1)" and v1: "lx_view l1 (Some CfgAny) [c] rest"
    by (auto elim: view_next)
  have "cfg_lex_any l = (tok_none k, lex_ignore l1)"
    using c by (subst cfg_lex_any.simps) (auto simp: n isspace_def uchar_def)
  moreover have "k \<noteq> CT_RESTART" using c by auto
  ultimately show ?thesis using cfg_emit_any [OF v] view_ignore [OF v1] by simp
qed

lemma cfg_eos:
  assumes "lx_view l (Some CfgAny) [] []"
  shows "\<exists>l1. cfg_emit l = Some (tok_none CT_EOS, l1)"
  using cfg_emit_any [OF assms] view_end [OF assms] by (subst (asm) cfg_lex_any.simps) simp

lemma digit_alpha:
  "isdigit c \<Longrightarrow> c \<notin> {CHR 0x7B, CHR 0x7D, CHR '';'', CHR ''#'', CHR 0x27, CHR 0x22} \<and> \<not> isalpha c"
  "isalpha c \<Longrightarrow> c \<notin> {CHR 0x7B, CHR 0x7D, CHR '';'', CHR ''#'', CHR 0x27, CHR 0x22} \<and> \<not> isdigit c"
  by (auto simp: isdigit_def isalpha_def uchar_def)

text \<open>A token that a lexer function other than \<open>lex_any\<close> takes: the octet \<open>c\<close> selects the function.\<close>

lemma cfg_emit_by:
  assumes v: "lx_view l (Some CfgAny) [] (c # rest)"
    and c: "c \<noteq> NUL" "\<not> isspace c"
    and f: "(c = CHR 0x22 \<and> f = CfgQstring) \<or> (isdigit c \<and> f = CfgNumeric) \<or> (isalpha c \<and> f = CfgBareword)"
  shows "\<exists>l1. lx_view l1 (Some f) [c] rest \<and>
    cfg_emit l = (case cfg_lex f l1 of (t, l2) \<Rightarrow> if tk_type t = CT_RESTART then cfg_emit l2 else Some (t, l2))"
proof -
  from v obtain l1 where n: "lex_next l = (c, l1)" and v1: "lx_view l1 (Some CfgAny) [c] rest"
    by (auto elim: view_next)
  have nl: "c \<noteq> CHR 0x0A" using c(2) char_kinds by auto
  have "cfg_lex_any l = (tok_none CT_RESTART, l1\<lparr>lx_f := Some f\<rparr>)"
    using f
  proof (elim disjE conjE)
    assume "c = CHR 0x22" "f = CfgQstring"
    then show ?thesis by (subst cfg_lex_any.simps) (simp add: n char_kinds)
  next
    assume d: "isdigit c" "f = CfgNumeric"
    note x = digit_alpha(1) [OF d(1), simplified]
    show ?thesis by (subst cfg_lex_any.simps) (simp add: n c nl x d)
  next
    assume d: "isalpha c" "f = CfgBareword"
    note x = digit_alpha(2) [OF d(1), simplified]
    show ?thesis by (subst cfg_lex_any.simps) (simp add: n c nl x d isalnum_def)
  qed
  then have "cfg_emit l = cfg_emit (l1\<lparr>lx_f := Some f\<rparr>)" using cfg_emit_any [OF v] by simp
  then have "cfg_emit l = (case cfg_lex f (l1\<lparr>lx_f := Some f\<rparr>) of
      (t, l2) \<Rightarrow> if tk_type t = CT_RESTART then cfg_emit l2 else Some (t, l2))"
    by (simp add: cfg_emit.simps [of "l1\<lparr>lx_f := Some f\<rparr>"])
  moreover have "lx_view (l1\<lparr>lx_f := Some f\<rparr>) (Some f) [c] rest" using v1 by (simp add: lx_view_def)
  ultimately show ?thesis by blast
qed

section \<open>Keywords\<close>

text \<open>What the lexer makes of a word: the first keyword that begins with it, in any case.\<close>

definition keyword_of :: "bytes \<Rightarrow> cfg_type option" where
  "keyword_of w = find_keyword w (length w) KEYWORDS"

lemma find_keyword_take: "find_keyword v n ks = find_keyword (take n v) n ks"
  by (induction ks) (auto simp: strncaseeq_take [of v])

lemma cfg_word:
  assumes v: "lx_view l (Some CfgAny) [] ((c # w) @ d # rest)"
    and c: "isalpha c" "\<And>x. x \<in> set w \<Longrightarrow> x \<in> set C_WORD" and d: "d \<notin> set C_WORD"
  shows "\<exists>t l1. cfg_emit l = Some (t, l1) \<and> lx_view l1 (Some CfgAny) [] (d # rest) \<and>
    (case keyword_of (c # w) of Some k \<Rightarrow> tk_type t = k
     | None \<Rightarrow> tk_type t = TY_BAREWORD \<and> word_string t = c # w)"
proof -
  have nn: "NUL \<notin> set C_WORD" by (simp add: C_WORD_def C_ALPHA_def C_NUMERIC_def)
  have c1: "c \<noteq> NUL" "\<not> isspace c" using c(1) by (auto simp: isalpha_def isspace_def)
  from v have v0: "lx_view l (Some CfgAny) [] (c # (w @ d # rest))" by simp
  from cfg_emit_by [OF v0 c1, of CfgBareword] c(1) obtain l1 where
    v1: "lx_view l1 (Some CfgBareword) [c] (w @ d # rest)"
    and e: "cfg_emit l = (case cfg_lex_bareword l1 of (t, l2) \<Rightarrow> if tk_type t = CT_RESTART then cfg_emit l2 else Some (t, l2))"
    by auto
  have "lx_view (l1\<lparr>lx_f := Some CfgAny\<rparr>) (Some CfgAny) [c] (w @ d # rest)" using v1 by (simp add: lx_view_def)
  then obtain l2 where a: "accept_all (l1\<lparr>lx_f := Some CfgAny\<rparr>) C_WORD = (int (length w), l2)"
    and v2: "lx_view l2 (Some CfgAny) (c # w) (d # rest)"
    using accept_all_view [of "l1\<lparr>lx_f := Some CfgAny\<rparr>" _ "[c]" w d rest C_WORD] c(2) d nn by fastforce
  have k: "find_keyword (drop (nat (lx_start l2)) (lx_src l2)) (nat (lx_pos l2 - lx_start l2)) KEYWORDS = keyword_of (c # w)"
    unfolding view_start [OF v2] keyword_of_def by (subst find_keyword_take) simp
  show ?thesis
  proof (cases "keyword_of (c # w)")
    case (Some x)
    then have "x \<noteq> CT_RESTART" using keyword_type by (auto simp: keyword_of_def)
    then show ?thesis using Some view_ignore [OF v2] by (simp add: e cfg_lex_bareword_def a Let_def k)
  next
    case None
    from v2 obtain t where t: "tok TY_BAREWORD l2 = (t, lex_ignore l2)" "tk_type t = TY_BAREWORD"
      "tk_value t = (c # w) @ d # rest" "tk_length t = int (length (c # w))" "lx_view (lex_ignore l2) (Some CfgAny) [] (d # rest)"
      by (rule view_tok)
    have "takeWhile (\<lambda>x. x \<noteq> NUL) (c # w) = c # w" using c(2) nn c1 by (auto simp: takeWhile_eq_all_conv)
    moreover have "take (nat (tk_length t)) (tk_value t) = c # w" unfolding t(3,4) by (simp only: nat_int take_append) simp
    ultimately have "word_string t = c # w" by (simp only: word_string_def)
    then show ?thesis using None t by (simp add: e cfg_lex_bareword_def a Let_def k)
  qed
qed

section \<open>Numbers\<close>

lemma numeric_set: "c \<in> set C_NUMERIC \<longleftrightarrow> isdigit c"
proof
  assume "isdigit c"
  then have "uchar c \<in> set [48..<58]" by (simp only: set_upt atLeastLessThan_iff) (simp add: isdigit_def)
  then have "c \<in> set (map byte_of [48..<58])" by (metis byte_of_uchar image_eqI list.set_map)
  also have "map byte_of [48..<58] = C_NUMERIC" unfolding C_NUMERIC_def by code_simp
  finally show "c \<in> set C_NUMERIC" .
next
  assume "c \<in> set C_NUMERIC"
  then show "isdigit c" by (auto simp: C_NUMERIC_def isdigit_def uchar_def)
qed

lemma isdigit_not_NUL: "isdigit c \<Longrightarrow> c \<noteq> NUL"
  by (auto simp: isdigit_def)

lemma scan_digits_view:
  "lx_view l f pre (ds @ d # rest) \<Longrightarrow> (\<And>c. c \<in> set ds \<Longrightarrow> isdigit c) \<Longrightarrow> \<not> isdigit d \<Longrightarrow> d \<noteq> NUL \<Longrightarrow>
   \<exists>l1. scan_digits i l = (foldl (\<lambda>i c. i * 10 + of_int (digit c)) i ds, l1) \<and> lx_view l1 f (pre @ ds) (d # rest)"
proof (induction ds arbitrary: l pre i)
  case Nil
  then obtain l1 where n: "lex_next l = (d, l1)" "lx_view l1 f (pre @ [d]) rest" by (auto elim: view_next)
  then show ?case using Nil view_backup by (subst scan_digits.simps) (simp add: numeric_set)
next
  case (Cons c ds)
  then obtain l1 where n: "lex_next l = (c, l1)" and v: "lx_view l1 f (pre @ [c]) (ds @ d # rest)"
    by (auto elim: view_next)
  have c: "isdigit c" "c \<noteq> NUL" using Cons.prems(2) [of c] isdigit_not_NUL by auto
  have "\<exists>l2. scan_digits (i * 10 + of_int (digit c)) l1 =
      (foldl (\<lambda>i c. i * 10 + of_int (digit c)) (i * 10 + of_int (digit c)) ds, l2) \<and>
      lx_view l2 f ((pre @ [c]) @ ds) (d # rest)"
    by (rule Cons.IH [OF v]) (use Cons.prems in auto)
  then show ?case using c by (subst scan_digits.simps) (simp add: n numeric_set)
qed

text \<open>What may follow a number: it is no digit, no dot and no unit.\<close>

definition after_number :: "byte \<Rightarrow> bool" where
  "after_number d \<longleftrightarrow> isspace d \<or> d = CHR '';'' \<or> d = CHR 0x7D"

lemma after_number_not:
  "after_number d \<Longrightarrow> \<not> isdigit d \<and> d \<noteq> NUL \<and> d \<noteq> CHR ''.'' \<and> \<not> strchr ''kKmMgGbB'' d \<and> \<not> strchr ''sSmMhH'' d"
  by (auto simp: after_number_def isspace_def isdigit_def strchr_def uchar_def)

lemma groups_fail:
  assumes v: "lx_view l f [c] (ds @ d # rest)" and c: "\<And>x. x \<in> set ds \<Longrightarrow> isdigit x" and d: "\<not> isdigit d" "d \<noteq> NUL"
    and no: "ds = [] \<or> d \<noteq> CHR ''.''"
  shows "\<exists>l1 pre rest'. accept_groups 3 l = (False, l1) \<and> lx_view l1 f pre rest' \<and> pre @ rest' = [c] @ ds @ d # rest"
proof -
  have ds: "\<And>x. x \<in> set ds \<Longrightarrow> x \<in> set C_NUMERIC \<and> x \<noteq> NUL" using c by (auto simp: numeric_set dest: isdigit_not_NUL)
  from accept_all_view [OF v, of C_NUMERIC] ds d obtain l1 where
    a: "accept_all l C_NUMERIC = (int (length ds), l1)" and v1: "lx_view l1 f ([c] @ ds) (d # rest)"
    by (auto simp: numeric_set)
  show ?thesis
  proof (cases "ds = []")
    case True
    then have "accept_groups 3 l = (False, l1)" using a by (simp add: numeral_3_eq_3)
    with v1 True show ?thesis by (intro exI [of _ l1] exI [of _ "[c]"] exI [of _ "d # rest"]) simp
  next
    case False
    with no have "d \<notin> set ''.''" by simp
    with accept_one_out [OF v1, of "''.''"] obtain l2 where "accept_one l1 ''.'' = (False, l2)"
      "lx_view l2 f ([c] @ ds) (d # rest)" by auto
    moreover from this(1) have "accept_groups 3 l = (False, l2)" using a False by (simp add: numeral_3_eq_3)
    ultimately show ?thesis by (intro exI [of _ l2] exI [of _ "[c] @ ds"] exI [of _ "d # rest"]) simp
  qed
qed

text \<open>The digits of a number, up to the octet \<open>d\<close> that decides what it is.\<close>

lemma cfg_number_digits:
  assumes v: "lx_view l (Some CfgAny) [] (dec n @ d # rest)" and d: "\<not> isdigit d" "d \<noteq> NUL" "d \<noteq> CHR ''.''"
  obtains l1 where "lx_view l1 (Some CfgAny) (dec n) (d # rest)"
    "cfg_emit l = (case numeric_suffix (of_nat n) l1 of (t, l2) \<Rightarrow> if tk_type t = CT_RESTART then cfg_emit l2 else Some (t, l2))"
proof -
  obtain c cs where n: "dec n = c # cs" using dec_Cons by blast
  have dig: "isdigit c" "\<And>x. x \<in> set cs \<Longrightarrow> isdigit x" using dec_digits [of _ n] n by auto
  have c1: "c \<noteq> NUL" "\<not> isspace c" using dig(1) by (auto simp: isdigit_def isspace_def)
  have v0: "lx_view l (Some CfgAny) [] (c # (cs @ d # rest))" using v by (simp add: n)
  from cfg_emit_by [OF v0 c1, of CfgNumeric] dig(1) obtain l1 where v1: "lx_view l1 (Some CfgNumeric) [c] (cs @ d # rest)"
    and e: "cfg_emit l = (case cfg_lex_numeric l1 of (t, l2) \<Rightarrow> if tk_type t = CT_RESTART then cfg_emit l2 else Some (t, l2))"
    by auto
  have "lx_view (l1\<lparr>lx_f := Some CfgAny\<rparr>) (Some CfgAny) [c] (cs @ d # rest)" using v1 by (simp add: lx_view_def)
  from groups_fail [OF this dig(2)] d obtain l2 pre rest' where
    g: "accept_groups 3 (l1\<lparr>lx_f := Some CfgAny\<rparr>) = (False, l2)"
    and v2: "lx_view l2 (Some CfgAny) pre rest'" "pre @ rest' = [c] @ cs @ d # rest" by blast
  have "lx_view (lex_restart l2) (Some CfgAny) [] (dec n @ d # rest)" using view_restart [OF v2(1)] v2(2) n by simp
  from scan_digits_view [OF this, of 0] dec_digits d obtain l3 where
    s: "scan_digits 0 (lex_restart l2) = (of_nat n, l3)" and v3: "lx_view l3 (Some CfgAny) (dec n) (d # rest)"
    by (auto simp: foldl_dec)
  show ?thesis by (rule that [OF v3]) (simp add: e cfg_lex_numeric_def g s)
qed

lemma cfg_number:
  assumes v: "lx_view l (Some CfgAny) [] (dec n @ d # rest)" and d: "after_number d"
  shows "\<exists>t l1. cfg_emit l = Some (t, l1) \<and> lx_view l1 (Some CfgAny) [] (d # rest) \<and>
    tk_type t = TY_INTEGER \<and> tk_i t = of_nat n"
proof -
  note dn = after_number_not [OF d]
  from cfg_number_digits [OF v] dn obtain l3 where v3: "lx_view l3 (Some CfgAny) (dec n) (d # rest)"
    and e: "cfg_emit l = (case numeric_suffix (of_nat n) l3 of (t, l2) \<Rightarrow> if tk_type t = CT_RESTART then cfg_emit l2 else Some (t, l2))"
    by blast
  from v3 obtain l4 where nx: "lex_next l3 = (d, l4)" and v4: "lx_view l4 (Some CfgAny) (dec n @ [d]) rest"
    by (auto elim: view_next)
  note v5 = view_backup [OF v4]
  from v5 obtain t where t: "tok TY_INTEGER (lex_backup l4) = (t, lex_ignore (lex_backup l4))" "tk_type t = TY_INTEGER"
    "lx_view (lex_ignore (lex_backup l4)) (Some CfgAny) [] (d # rest)" by (rule view_tok)
  have "numeric_suffix (of_nat n) l3 = (t\<lparr>tk_i := of_nat n\<rparr>, lex_ignore (lex_backup l4))"
    using dn by (simp add: numeric_suffix_def nx numeric_time_def t with_i_def)
  then show ?thesis using t by (simp add: e)
qed

text \<open>
  An address whose first group is a single digit: the digit was read before the search for an
  address begins, which then finds no digits.
\<close>

lemma cfg_short_address:
  assumes v: "lx_view l (Some CfgAny) [] (c # CHR ''.'' # ds @ d # rest)"
    and c: "isdigit c" "\<And>x. x \<in> set ds \<Longrightarrow> isdigit x" and d: "\<not> isdigit d" "d \<noteq> NUL"
  shows "\<exists>t l1. cfg_emit l = Some (t, l1) \<and> lx_view l1 (Some CfgAny) [] (d # rest) \<and> tk_type t = TY_DECIMAL"
proof -
  have c1: "c \<noteq> NUL" "\<not> isspace c" using c(1) by (auto simp: isdigit_def isspace_def)
  have dot: "\<not> isdigit (CHR ''.'')" "CHR ''.'' \<noteq> NUL" by (simp_all add: isdigit_def uchar_def)
  from cfg_emit_by [OF v c1, of CfgNumeric] c(1) obtain l1 where
    v1: "lx_view l1 (Some CfgNumeric) [c] ([] @ CHR ''.'' # ds @ d # rest)"
    and e: "cfg_emit l = (case cfg_lex_numeric l1 of (t, l2) \<Rightarrow> if tk_type t = CT_RESTART then cfg_emit l2 else Some (t, l2))"
    by auto
  have "lx_view (l1\<lparr>lx_f := Some CfgAny\<rparr>) (Some CfgAny) [c] ([] @ CHR ''.'' # ds @ d # rest)"
    using v1 by (simp add: lx_view_def)
  from groups_fail [OF this _ dot] obtain l2 pre rest' where
    g: "accept_groups 3 (l1\<lparr>lx_f := Some CfgAny\<rparr>) = (False, l2)"
    and v2: "lx_view l2 (Some CfgAny) pre rest'" "pre @ rest' = [c] @ [] @ CHR ''.'' # ds @ d # rest" by auto
  have "lx_view (lex_restart l2) (Some CfgAny) [] ([c] @ CHR ''.'' # ds @ d # rest)" using view_restart [OF v2(1)] v2(2) by simp
  from scan_digits_view [OF this _ dot, of 0] c(1) obtain i l3 where
    s: "scan_digits 0 (lex_restart l2) = (i, l3)" and v3: "lx_view l3 (Some CfgAny) [c] (CHR ''.'' # ds @ d # rest)"
    by auto
  from v3 obtain l4 where nx: "lex_next l3 = (CHR ''.'', l4)" and v4: "lx_view l4 (Some CfgAny) ([c] @ ''.'') (ds @ d # rest)"
    by (auto elim: view_next)
  from scan_digits_view [OF v4 c(2) d, of 0] obtain j l5 where s5: "scan_digits 0 l4 = (j, l5)"
    and v5: "lx_view l5 (Some CfgAny) (([c] @ ''.'') @ ds) (d # rest)" by auto
  from v5 obtain t where t: "tok TY_DECIMAL l5 = (t, lex_ignore l5)" "tk_type t = TY_DECIMAL"
    "lx_view (lex_ignore l5) (Some CfgAny) [] (d # rest)" by (rule view_tok)
  have "cfg_lex_numeric l1 = (t, lex_ignore l5)"
    by (simp add: cfg_lex_numeric_def g s numeric_suffix_def nx s5 t)
  then show ?thesis using t by (simp add: e)
qed

section \<open>Quoted strings\<close>

lemma cfg_quoted:
  assumes v: "lx_view l (Some CfgAny) [] (CHR 0x22 # quote s @ CHR 0x22 # rest)" and s: "quotable s"
  shows "\<exists>t l1. cfg_emit l = Some (t, l1) \<and> lx_view l1 (Some CfgAny) [] rest \<and> tk_type t = TY_QSTRING \<and>
    cfg_as_string t = Some s"
proof -
  have c1: "CHR 0x22 \<noteq> NUL" "\<not> isspace (CHR 0x22)" using char_kinds by simp_all
  from cfg_emit_by [OF v c1, of CfgQstring] obtain l1 where
    v1: "lx_view l1 (Some CfgQstring) [CHR 0x22] (quote s @ CHR 0x22 # rest)"
    and e: "cfg_emit l = (case cfg_lex_qstring l1 of (t, l2) \<Rightarrow> if tk_type t = CT_RESTART then cfg_emit l2 else Some (t, l2))"
    by auto
  have "lx_view (l1\<lparr>lx_f := Some CfgAny\<rparr>) (Some CfgAny) ([] @ [CHR 0x22]) (quote s @ CHR 0x22 # rest)"
    using v1 by (simp add: lx_view_def)
  from view_next [OF view_backup [OF this]]
  obtain l4 where n4: "lex_next (lex_backup (l1\<lparr>lx_f := Some CfgAny\<rparr>)) = (CHR 0x22, l4)"
    and v4: "lx_view l4 (Some CfgAny) [CHR 0x22] (quote s @ CHR 0x22 # rest)" by auto
  from scan_quoted_view [OF v4 s] obtain l5 where q: "scan_quoted (CHR 0x22) l4 = (True, l5)"
    and v5: "lx_view l5 (Some CfgAny) ([CHR 0x22] @ quote s @ [CHR 0x22]) rest" by blast
  from v5 obtain t where t: "tok TY_QSTRING l5 = (t, lex_ignore l5)" "tk_type t = TY_QSTRING"
      "tk_value t = ([CHR 0x22] @ quote s @ [CHR 0x22]) @ rest"
      "tk_length t = int (length ([CHR 0x22] @ quote s @ [CHR 0x22]))"
    and v6: "lx_view (lex_ignore l5) (Some CfgAny) [] rest"
    by (rule view_tok)
  have "unescape (tk_length t - 2) (tl (tk_value t)) = s" using s by (simp add: t unescape_quote)
  moreover have "takeWhile (\<lambda>c. c \<noteq> NUL) s = s"
    by (rule takeWhile_word) (use s in \<open>auto simp: quotable_def\<close>)
  ultimately have "cfg_as_string t = Some s" by (simp add: cfg_as_string_def t(2) quoted_string_def)
  then show ?thesis using t(2) v6 by (simp add: e cfg_lex_qstring_def n4 q t(1))
qed

section \<open>Tokens after blanks\<close>

definition blank :: "bytes \<Rightarrow> bool" where
  "blank b \<longleftrightarrow> (\<forall>c\<in>set b. isspace c)"

lemma cfg_blanks:
  "lx_view l (Some CfgAny) [] (b @ rest) \<Longrightarrow> blank b \<Longrightarrow>
   \<exists>l1. cfg_emit l = cfg_emit l1 \<and> lx_view l1 (Some CfgAny) [] rest"
proof (induction b arbitrary: l)
  case (Cons c b)
  then obtain l1 where "cfg_emit l = cfg_emit l1" "lx_view l1 (Some CfgAny) [] (b @ rest)"
    using cfg_blank [of l c "b @ rest"] by (auto simp: blank_def)
  then show ?case using Cons.IH [of l1] Cons.prems(2) by (auto simp: blank_def)
qed auto

text \<open>The next token of the parser: its type, and the text behind it.\<close>

abbreviation ahead :: "cfg_parser \<Rightarrow> bytes \<Rightarrow> bool" where
  "ahead p rest \<equiv> lx_view (pc_l p) (Some CfgAny) [] rest"

lemma alpha_word: "isalpha x \<Longrightarrow> x \<in> set C_WORD"
proof -
  assume x: "isalpha x"
  have "uchar x \<in> set ([65..<91] @ [97..<123])"
    using x by (simp only: set_append set_upt Un_iff atLeastLessThan_iff) (auto simp: isalpha_def)
  then have "x \<in> set (map byte_of ([65..<91] @ [97..<123]))" by (metis byte_of_uchar image_eqI list.set_map)
  also have "map byte_of ([65..<91] @ [97..<123]) = drop 26 C_ALPHA @ take 26 C_ALPHA"
    unfolding C_ALPHA_def by code_simp
  finally show ?thesis unfolding C_WORD_def by (auto dest: in_set_dropD in_set_takeD)
qed

lemma next_keyword:
  assumes v: "ahead p (b @ w @ d # rest)" "blank b" and w: "keyword_of w = Some k" "\<forall>x\<in>set w. isalpha x" "w \<noteq> []"
    and d: "d \<notin> set C_WORD"
  shows "\<exists>t l1. next_tok p = Some (t, p\<lparr>pc_l := l1\<rparr>) \<and> tk_type t = k \<and> lx_view l1 (Some CfgAny) [] (d # rest)"
proof -
  obtain c cs where c: "w = c # cs" using w(3) by (cases w) auto
  have cs: "\<And>x. x \<in> set cs \<Longrightarrow> x \<in> set C_WORD" and a: "isalpha c" using w(2) c alpha_word by auto
  from cfg_blanks [OF v] obtain l0 where l0: "cfg_emit (pc_l p) = cfg_emit l0"
    "lx_view l0 (Some CfgAny) [] ((c # cs) @ d # rest)" by (auto simp: c)
  from cfg_word [OF l0(2) a cs d] show ?thesis using w(1) by (auto simp: next_tok_def l0(1) c)
qed

lemma next_number:
  assumes v: "ahead p (b @ dec n @ d # rest)" "blank b" and d: "after_number d"
  shows "\<exists>t l1. next_tok p = Some (t, p\<lparr>pc_l := l1\<rparr>) \<and> tk_type t = TY_INTEGER \<and> tk_i t = of_nat n \<and>
    lx_view l1 (Some CfgAny) [] (d # rest)"
  using cfg_blanks [OF v] cfg_number [of _ n d rest] d by (fastforce simp: next_tok_def)

lemma next_string:
  assumes v: "ahead p (b @ CHR 0x22 # quote s @ CHR 0x22 # rest)" "blank b" and s: "quotable s"
  shows "\<exists>t l1. next_tok p = Some (t, p\<lparr>pc_l := l1\<rparr>) \<and> tk_type t = TY_QSTRING \<and> cfg_as_string t = Some s \<and>
    lx_view l1 (Some CfgAny) [] rest"
  using cfg_blanks [OF v] cfg_quoted [of _ s rest] s by (fastforce simp: next_tok_def)

lemma next_punct:
  assumes v: "ahead p (b @ c # rest)" "blank b"
    and c: "c = CHR 0x7B \<and> k = CT_OPEN \<or> c = CHR 0x7D \<and> k = CT_CLOSE \<or> c = CHR '';'' \<and> k = CT_TERMX"
  shows "\<exists>l1. next_tok p = Some (tok_none k, p\<lparr>pc_l := l1\<rparr>) \<and> lx_view l1 (Some CfgAny) [] rest"
  using cfg_blanks [OF v] cfg_punct [of _ c rest k] c by (fastforce simp: next_tok_def)

lemma next_eos:
  assumes v: "ahead p b" "blank b"
  shows "\<exists>l1. next_tok p = Some (tok_none CT_EOS, p\<lparr>pc_l := l1\<rparr>)"
  using cfg_blanks [of "pc_l p" b "[]"] cfg_eos v by (fastforce simp: next_tok_def)

end
