(* ===== verification/Config_Text.thy ===== *)
theory Config_Text
  imports Config_Laws
begin

text \<open>
  Configurations as data: directives, the text that states them, and what that text makes of the
  parser. A directive sets one value, opens the \<^verbatim>\<open>tls\<close> or \<^verbatim>\<open>health\<close> scope, or opens the scope of a
  backend, where \<open>None\<close> is \<^verbatim>\<open>default\<close>.
\<close>

section \<open>Directives and their text\<close>

datatype entry = Text cfg_type bytes | Number cfg_type nat | Choice cfg_type cfg_type

datatype directive = Entry entry | Scope cfg_type "entry list" | Backend "bytes option" "entry list"

definition word :: "cfg_type \<Rightarrow> bytes" where
  "word k = (case map_of KEYWORDS k of Some w \<Rightarrow> w | None \<Rightarrow> [])"

definition quoted :: "bytes \<Rightarrow> bytes" where
  "quoted s = CHR 0x22 # quote s @ [CHR 0x22]"

fun entry_text :: "entry \<Rightarrow> bytes" where
  "entry_text (Text k s) = word k @ '' '' @ quoted s @ [CHR 0x0A]"
| "entry_text (Number k n) = word k @ '' '' @ dec n @ [CHR 0x0A]"
| "entry_text (Choice k w) = word k @ '' '' @ word w @ [CHR 0x0A]"

definition entries_text :: "entry list \<Rightarrow> bytes" where
  "entries_text es = concat (map entry_text es)"

definition in_braces :: "entry list \<Rightarrow> bytes" where
  "in_braces es = '' '' @ [CHR 0x7B, CHR 0x0A] @ entries_text es @ [CHR 0x7D, CHR 0x0A]"

fun directive_text :: "directive \<Rightarrow> bytes" where
  "directive_text (Entry e) = entry_text e"
| "directive_text (Scope k es) = word k @ in_braces es"
| "directive_text (Backend None es) = word K_BACKEND @ '' '' @ word K_DEFAULT @ in_braces es"
| "directive_text (Backend (Some s) es) = word K_BACKEND @ '' '' @ quoted s @ in_braces es"

definition config_text :: "directive list \<Rightarrow> bytes" where
  "config_text ds = concat (map directive_text ds)"

text \<open>What may be set where: the bounds are those that the parser checks, and that of \<^verbatim>\<open>int\<close>.\<close>

fun allowed :: "cfg_state \<Rightarrow> entry \<Rightarrow> bool" where
  "allowed ParseTop (Text k s) \<longleftrightarrow>
     k \<in> {K_LISTEN, K_MONITOR, K_HBA, K_USER, K_GROUP, K_PIDFILE, K_AUTHDB} \<and> quotable s"
| "allowed ParseTop (Number k n) \<longleftrightarrow> k = K_WORKERS \<and> 1 \<le> n \<and> n < 2 ^ 31"
| "allowed ParseTop (Choice k w) \<longleftrightarrow> k = K_LOG \<and> w \<in> {K_ERROR, K_INFO, K_DEBUG}"
| "allowed ParseHealth (Text k s) \<longleftrightarrow> k \<in> {K_DATABASE, K_USERNAME, K_PASSWORD} \<and> quotable s"
| "allowed ParseHealth (Number k n) \<longleftrightarrow> k \<in> {K_TIMEOUT, K_CHECK} \<and> n < 2 ^ 31"
| "allowed ParseTls (Text k s) \<longleftrightarrow> k \<in> {K_CIPHERS, K_CERT, K_KEY} \<and> quotable s"
| "allowed ParseBackend (Number k n) \<longleftrightarrow> k \<in> {K_WEIGHT, K_LAG} \<and> n < 2 ^ 31"
| "allowed ParseBackend (Choice k w) \<longleftrightarrow> k = K_TLS \<and> w \<in> {K_ON, K_OFF, K_SKIPVERIFY}"
| "allowed _ _ \<longleftrightarrow> False"

fun directive_ok :: "directive \<Rightarrow> bool" where
  "directive_ok (Entry e) \<longleftrightarrow> allowed ParseTop e"
| "directive_ok (Scope k es) \<longleftrightarrow>
     k = K_HEALTH \<and> list_all (allowed ParseHealth) es \<or> k = K_TLS \<and> list_all (allowed ParseTls) es"
| "directive_ok (Backend ident es) \<longleftrightarrow>
     list_all (allowed ParseBackend) es \<and> (case ident of None \<Rightarrow> True | Some s \<Rightarrow> quotable s)"

section \<open>What an entry sets\<close>

definition level_of :: "cfg_type \<Rightarrow> int" where
  "level_of w = (if w = K_ERROR then LOG_ERR else if w = K_INFO then LOG_INFO else LOG_DEBUG)"

definition tls_of :: "cfg_type \<Rightarrow> int" where
  "tls_of w = (if w = K_ON then BACKEND_TLS_VERIFY else if w = K_OFF then BACKEND_TLS_OFF else BACKEND_TLS_NOVERIFY)"

fun put :: "entry \<Rightarrow> cfg_parser \<Rightarrow> cfg_parser" where
  "put (Text k s) p =
     (case k of
        K_LISTEN \<Rightarrow> p\<lparr>pc_listen := Some s\<rparr> | K_MONITOR \<Rightarrow> p\<lparr>pc_monitor := Some s\<rparr>
      | K_HBA \<Rightarrow> p\<lparr>pc_hbafile := Some s\<rparr> | K_USER \<Rightarrow> p\<lparr>pc_user := Some s\<rparr>
      | K_GROUP \<Rightarrow> p\<lparr>pc_group := Some s\<rparr> | K_PIDFILE \<Rightarrow> p\<lparr>pc_pidfile := Some s\<rparr>
      | K_AUTHDB \<Rightarrow> p\<lparr>pc_authdb := Some s\<rparr> | K_DATABASE \<Rightarrow> p\<lparr>pc_database := Some s\<rparr>
      | K_USERNAME \<Rightarrow> p\<lparr>pc_username := Some s\<rparr> | K_PASSWORD \<Rightarrow> p\<lparr>pc_password := Some s\<rparr>
      | K_CIPHERS \<Rightarrow> p\<lparr>pc_ciphers := Some s\<rparr> | K_CERT \<Rightarrow> p\<lparr>pc_certfile := Some s\<rparr>
      | K_KEY \<Rightarrow> p\<lparr>pc_keyfile := Some s\<rparr> | _ \<Rightarrow> p)"
| "put (Number k n) p =
     (case k of
        K_WORKERS \<Rightarrow> p\<lparr>pc_workers := Some (int n)\<rparr> | K_TIMEOUT \<Rightarrow> p\<lparr>pc_timeout := Some (int n)\<rparr>
      | K_CHECK \<Rightarrow> p\<lparr>pc_interval := Some (int n)\<rparr> | _ \<Rightarrow> p)"
| "put (Choice k w) p = p\<lparr>pc_loglevel := Some (level_of w)\<rparr>"

fun put_backend :: "entry \<Rightarrow> cfg_backend \<Rightarrow> cfg_backend" where
  "put_backend (Text k s) b = b"
| "put_backend (Number k n) b =
     (if k = K_WEIGHT then b\<lparr>cb_weight := Some (int n)\<rparr> else b\<lparr>cb_lag := Some (int n)\<rparr>)"
| "put_backend (Choice k w) b = b\<lparr>cb_tls := Some (tls_of w)\<rparr>"

definition put_in :: "cfg_state \<Rightarrow> entry \<Rightarrow> cfg_parser \<Rightarrow> cfg_parser" where
  "put_in f e = (if f = ParseBackend then on_current (put_backend e) else put e)"

fun put_directive :: "directive \<Rightarrow> cfg_parser \<Rightarrow> cfg_parser" where
  "put_directive (Entry e) p = put e p"
| "put_directive (Scope k es) p = fold put es p"
| "put_directive (Backend ident es) p = fold (\<lambda>e. on_current (put_backend e)) es (cfg_backend_of p ident)"

section \<open>One entry\<close>

lemma keyword_table:
  "\<forall>(k, w)\<in>set KEYWORDS. keyword_of w = Some k \<and> w \<noteq> [] \<and> (\<forall>c\<in>set w. isalpha c) \<and> map_of KEYWORDS k = Some w"
  unfolding keyword_of_def KEYWORDS_def by code_simp

lemma word_ok:
  "map_of KEYWORDS k \<noteq> None \<Longrightarrow> keyword_of (word k) = Some k \<and> (\<forall>x\<in>set (word k). isalpha x) \<and> word k \<noteq> []"
proof -
  assume "map_of KEYWORDS k \<noteq> None"
  then obtain w where w: "map_of KEYWORDS k = Some w" by blast
  from bspec [OF keyword_table map_of_SomeD [OF w]] show ?thesis by (simp add: word_def w)
qed

lemma outside_words: "CHR '' '' \<notin> set C_WORD" "CHR 0x0A \<notin> set C_WORD"
  by (simp_all add: C_WORD_def C_ALPHA_def C_NUMERIC_def)

lemma blanks: "blank '' ''" "blank [CHR 0x0A]" "blank []" "after_number (CHR 0x0A)"
  by (simp_all add: blank_def char_kinds after_number_def)

text \<open>\<open>p\<close> in the state \<open>f\<close> with the text \<open>rest\<close> behind some blanks.\<close>

definition at :: "cfg_state \<Rightarrow> cfg_parser \<Rightarrow> bytes \<Rightarrow> bool" where
  "at f p rest \<longleftrightarrow> pc_f p = Some f \<and> (\<exists>b. blank b \<and> ahead p (b @ rest))"

lemma at_keyword:
  assumes "at f p (word k @ CHR '' '' # rest)" and "map_of KEYWORDS k \<noteq> None"
  shows "\<exists>t l1. next_tok p = Some (t, p\<lparr>pc_l := l1\<rparr>) \<and> tk_type t = k \<and> lx_view l1 (Some CfgAny) [] ('' '' @ rest)"
  using assms next_keyword [of p _ "word k" "CHR '' ''" rest k] word_ok [OF assms(2)] outside_words
  by (auto simp: at_def)

lemma with_string_text:
  assumes "ahead p ('' '' @ quoted s @ rest)" and "quotable s"
  shows "\<exists>l1. with_string p store = Some (0, store s (p\<lparr>pc_l := l1\<rparr>)) \<and> lx_view l1 (Some CfgAny) [] rest"
  using next_string [of p "'' ''" s rest] assms blanks by (auto simp: with_string_def quoted_def)

lemma tok_int_nat: "tk_i t = of_nat n \<Longrightarrow> n < 2 ^ 31 \<Longrightarrow> tok_int t = int n"
proof -
  assume "tk_i t = of_nat n" "n < 2 ^ 31"
  then have "tok_int t = signed_take_bit 31 (int n)" by (simp add: tok_int_def signed_of_nat)
  also have "\<dots> = int n" using \<open>n < 2 ^ 31\<close> by (intro signed_take_bit_int_eq_self) simp_all
  finally show ?thesis .
qed

lemma with_int_number:
  assumes "ahead p ('' '' @ dec n @ CHR 0x0A # rest)" and "TY_INTEGER \<in> types" and "n < 2 ^ 31" and "least \<le> int n"
  shows "\<exists>l1. with_int p types least store = Some (0, store (int n) (p\<lparr>pc_l := l1\<rparr>)) \<and>
    lx_view l1 (Some CfgAny) [] (CHR 0x0A # rest)"
proof -
  from next_number [OF assms(1) blanks(1) blanks(4)] obtain t l1 where
    t: "next_tok p = Some (t, p\<lparr>pc_l := l1\<rparr>)" "tk_type t = TY_INTEGER" "tk_i t = of_nat n"
      "lx_view l1 (Some CfgAny) [] (CHR 0x0A # rest)" by blast
  have "tok_int t = int n" by (rule tok_int_nat [OF t(3) assms(3)])
  then show ?thesis using t(1,2,4) assms(2,4) by (auto simp: with_int_def)
qed

lemma in_table:
  "allowed f (Text k s) \<Longrightarrow> map_of KEYWORDS k \<noteq> None" "allowed f (Number k n) \<Longrightarrow> map_of KEYWORDS k \<noteq> None"
  "allowed f (Choice k w) \<Longrightarrow> map_of KEYWORDS k \<noteq> None \<and> map_of KEYWORDS w \<noteq> None"
  by (cases f; auto simp: KEYWORDS_def)+

lemma on_current_frame:
  "on_current h (p\<lparr>pc_l := l\<rparr>) = (on_current h p)\<lparr>pc_l := l\<rparr>"
  "on_current h (p\<lparr>pc_f := g\<rparr>) = (on_current h p)\<lparr>pc_f := g\<rparr>"
  by (simp_all add: on_current_def)

text \<open>\<open>does r q rest\<close>: the step \<open>r\<close> ends well in \<open>q\<close>, but for the lexer, which is ahead of \<open>rest\<close>.\<close>

definition does :: "(int \<times> cfg_parser) option \<Rightarrow> cfg_parser \<Rightarrow> bytes \<Rightarrow> bool" where
  "does r q rest \<longleftrightarrow> (\<exists>l1. r = Some (0, q\<lparr>pc_l := l1\<rparr>) \<and> lx_view l1 (Some CfgAny) [] rest)"

lemma does_ret: "lx_view l1 (Some CfgAny) [] rest \<Longrightarrow> r = q\<lparr>pc_l := l1\<rparr> \<Longrightarrow> does (Some (0, r)) q rest"
  by (auto simp: does_def)

lemma put_backend_fun:
  "put_backend (Number K_WEIGHT n) = cb_weight_update (\<lambda>_. Some (int n))"
  "put_backend (Number K_LAG n) = cb_lag_update (\<lambda>_. Some (int n))"
  "put_backend (Choice k w) = cb_tls_update (\<lambda>_. Some (tls_of w))"
  by (rule ext, simp)+

lemma does_string:
  assumes "ahead p ('' '' @ quoted s @ rest)" and "quotable s" and "\<And>l1. store s (p\<lparr>pc_l := l1\<rparr>) = q\<lparr>pc_l := l1\<rparr>"
  shows "does (with_string p store) q rest"
  using with_string_text [OF assms(1,2), of store] by (auto simp: does_def assms(3))

lemma does_number:
  assumes "ahead p ('' '' @ dec n @ CHR 0x0A # rest)" and "TY_INTEGER \<in> types" and "n < 2 ^ 31" and "least \<le> int n"
    and "\<And>l1. store (int n) (p\<lparr>pc_l := l1\<rparr>) = q\<lparr>pc_l := l1\<rparr>"
  shows "does (with_int p types least store) q (CHR 0x0A # rest)"
  using with_int_number [OF assms(1-4), of store] by (auto simp: does_def assms(5))

lemma parse_text:
  assumes a: "at f p (entry_text (Text k s) @ rest)" and k: "allowed f (Text k s)"
  shows "does (parse_step cents f p) (put_in f (Text k s) p) (CHR 0x0A # rest)"
proof -
  from a in_table(1) [OF k] at_keyword [of f p k "quoted s @ CHR 0x0A # rest"] obtain t l1 where
    t: "next_tok p = Some (t, p\<lparr>pc_l := l1\<rparr>)" "tk_type t = k" and l1: "lx_view l1 (Some CfgAny) [] ('' '' @ quoted s @ CHR 0x0A # rest)"
    by auto
  have s: "quotable s" using k by (cases f) auto
  note d = does_string [of "p\<lparr>pc_l := l1\<rparr>", simplified, OF l1 [simplified] s]
  show ?thesis
    using k by (cases f; auto simp: parse_top_def parse_health_def parse_tls_def t put_in_def intro!: d)
qed

lemma parse_number:
  assumes a: "at f p (entry_text (Number k n) @ rest)" and k: "allowed f (Number k n)"
  shows "does (parse_step cents f p) (put_in f (Number k n) p) (CHR 0x0A # rest)"
proof -
  from a in_table(2) [OF k] at_keyword [of f p k "dec n @ CHR 0x0A # rest"] obtain t l1 where
    t: "next_tok p = Some (t, p\<lparr>pc_l := l1\<rparr>)" "tk_type t = k" and l1: "lx_view l1 (Some CfgAny) [] ('' '' @ dec n @ CHR 0x0A # rest)"
    by auto
  have n: "n < 2 ^ 31" using k by (cases f) auto
  note d = does_number [of "p\<lparr>pc_l := l1\<rparr>", simplified, OF l1 [simplified] _ n [simplified]]
  have w: "does (parse_weight cents (p\<lparr>pc_l := l1\<rparr>)) (on_current (cb_weight_update (\<lambda>_. Some (int n))) p) (CHR 0x0A # rest)"
  proof -
    have "ahead (p\<lparr>pc_l := l1\<rparr>) ('' '' @ dec n @ CHR 0x0A # rest)" using l1 by simp
    from next_number [OF this blanks(1) blanks(4)] obtain t2 l2 where
      t: "next_tok (p\<lparr>pc_l := l1\<rparr>) = Some (t2, p\<lparr>pc_l := l2\<rparr>)" "tk_type t2 = TY_INTEGER" "tk_i t2 = of_nat n"
        "lx_view l2 (Some CfgAny) [] (CHR 0x0A # rest)" by auto
    show ?thesis using t(1,2,4) tok_int_nat [OF t(3) n] by (simp add: parse_weight_def does_def on_current_frame) blast
  qed
  show ?thesis
    using k by (cases f; auto simp: parse_top_def parse_health_def parse_backend_def t put_in_def on_current_frame put_backend_fun w intro!: d)
qed

lemma parse_choice:
  assumes a: "at f p (entry_text (Choice k w) @ rest)" and k: "allowed f (Choice k w)"
  shows "does (parse_step cents f p) (put_in f (Choice k w) p) (CHR 0x0A # rest)"
proof -
  from a conjunct1 [OF in_table(3) [OF k]] at_keyword [of f p k "word w @ CHR 0x0A # rest"] obtain t l1 where
    t: "next_tok p = Some (t, p\<lparr>pc_l := l1\<rparr>)" "tk_type t = k" and l1: "lx_view l1 (Some CfgAny) [] ('' '' @ word w @ CHR 0x0A # rest)"
    by auto
  note w = word_ok [OF conjunct2 [OF in_table(3) [OF k]]]
  from next_keyword [of "p\<lparr>pc_l := l1\<rparr>" "'' ''" "word w" "CHR 0x0A" rest w] l1 w blanks outside_words obtain t2 l2 where
    t2: "next_tok (p\<lparr>pc_l := l1\<rparr>) = Some (t2, p\<lparr>pc_l := l2\<rparr>)" "tk_type t2 = w" and l2: "lx_view l2 (Some CfgAny) [] (CHR 0x0A # rest)"
    by auto
  show ?thesis
    using k by (cases f; auto simp: parse_top_def parse_backend_def parse_loglevel_def parse_tls_mode_def t t2 put_in_def
        on_current_frame put_backend_fun level_of_def tls_of_def intro!: does_ret [OF l2])
qed

lemma parse_entry:
  assumes "at f p (entry_text e @ rest)" and "allowed f e"
  shows "does (parse_step cents f p) (put_in f e p) (CHR 0x0A # rest)"
  using assms parse_text parse_number parse_choice by (cases e) blast+

section \<open>Entries in braces\<close>

text \<open>\<open>leads cents p q rest\<close>: the parse of \<open>p\<close> is that of \<open>q\<close> with \<open>rest\<close> ahead, in the state \<open>f\<close>.\<close>

definition leads :: "(bytes \<Rightarrow> int) \<Rightarrow> cfg_parser \<Rightarrow> cfg_state \<Rightarrow> cfg_parser \<Rightarrow> bytes \<Rightarrow> bool" where
  "leads cents p f q rest \<longleftrightarrow> (\<exists>l1. cfg_parse cents p = cfg_parse cents (q\<lparr>pc_f := Some f, pc_l := l1\<rparr>) \<and>
     (\<exists>b. blank b \<and> lx_view l1 (Some CfgAny) [] (b @ rest)))"

lemma does_leads:
  assumes "does (parse_step cents f p) (q\<lparr>pc_f := Some g\<rparr>) (b @ rest)" and "pc_f p = Some f" and "blank b"
  shows "leads cents p g q rest"
proof -
  from assms(1) obtain l1 where l1: "parse_step cents f p = Some (0, q\<lparr>pc_f := Some g, pc_l := l1\<rparr>)"
    and v: "lx_view l1 (Some CfgAny) [] (b @ rest)" by (auto simp: does_def)
  have "cfg_parse cents p = cfg_parse cents (q\<lparr>pc_f := Some g, pc_l := l1\<rparr>)"
    using assms(2) by (subst cfg_parse.simps) (simp add: l1)
  then show ?thesis using v assms(3) unfolding leads_def by blast
qed

lemma put_pc_f [simp]: "pc_f (put e p) = pc_f p" "pc_f (on_current h p) = pc_f p" "pc_f (put_in f e p) = pc_f p"
  by (cases e; auto simp: on_current_def put_in_def split: cfg_type.split)+

lemma put_frame:
  "put e (p\<lparr>pc_l := l\<rparr>) = (put e p)\<lparr>pc_l := l\<rparr>" "put e (p\<lparr>pc_f := g\<rparr>) = (put e p)\<lparr>pc_f := g\<rparr>"
  by (cases e; auto split: cfg_type.split)+

lemma put_in_frame:
  "put_in f e (p\<lparr>pc_l := l\<rparr>) = (put_in f e p)\<lparr>pc_l := l\<rparr>"
  "put_in f e (p\<lparr>pc_f := g\<rparr>) = (put_in f e p)\<lparr>pc_f := g\<rparr>"
  by (simp_all add: put_in_def put_frame on_current_frame)

lemma entry_leads:
  assumes "at f p (entry_text e @ rest)" and "allowed f e"
  shows "leads cents p f (put_in f e p) rest"
proof -
  have f: "pc_f p = Some f" using assms(1) by (simp add: at_def)
  have "does (parse_step cents f p) (put_in f e p) ([CHR 0x0A] @ rest)" using parse_entry [OF assms] by simp
  moreover have "(put_in f e p)\<lparr>pc_f := Some f\<rparr> = put_in f e p" using f by simp
  ultimately show ?thesis using does_leads [OF _ f blanks(2)] by simp
qed

lemma leads_trans:
  assumes "leads cents p f q mid"
    and "\<And>l1. at f (q\<lparr>pc_f := Some f, pc_l := l1\<rparr>) mid \<Longrightarrow> leads cents (q\<lparr>pc_f := Some f, pc_l := l1\<rparr>) g r rest"
  shows "leads cents p g r rest"
proof -
  from assms(1) obtain l1 where l1: "cfg_parse cents p = cfg_parse cents (q\<lparr>pc_f := Some f, pc_l := l1\<rparr>)"
    "at f (q\<lparr>pc_f := Some f, pc_l := l1\<rparr>) mid" by (auto simp: leads_def at_def)
  from assms(2) [OF l1(2)] show ?thesis by (simp add: leads_def l1(1))
qed

lemma leads_frame [simp]:
  "leads cents p f (q\<lparr>pc_f := g\<rparr>) rest = leads cents p f q rest" "leads cents p f (q\<lparr>pc_l := l\<rparr>) rest = leads cents p f q rest"
  by (simp_all add: leads_def)

lemma leads_refl: "at f p rest \<Longrightarrow> leads cents p f p rest"
  by (cases p) (auto simp: leads_def at_def)

lemma fold_frame:
  "fold (put_in f) es (p\<lparr>pc_l := l\<rparr>) = (fold (put_in f) es p)\<lparr>pc_l := l\<rparr>"
  "fold (put_in f) es (p\<lparr>pc_f := g\<rparr>) = (fold (put_in f) es p)\<lparr>pc_f := g\<rparr>"
  by (induction es arbitrary: p) (simp_all add: put_in_frame)

lemma entries_leads:
  "at f p (entries_text es @ rest) \<Longrightarrow> list_all (allowed f) es \<Longrightarrow> leads cents p f (fold (put_in f) es p) rest"
proof (induction es arbitrary: p)
  case Nil
  then show ?case by (simp add: entries_text_def leads_refl)
next
  case (Cons e es)
  have "leads cents p f (put_in f e p) (entries_text es @ rest)"
    using Cons.prems by (intro entry_leads) (simp_all add: entries_text_def)
  then show ?case
  proof (rule leads_trans)
    fix l1 assume "at f ((put_in f e p)\<lparr>pc_f := Some f, pc_l := l1\<rparr>) (entries_text es @ rest)"
    from Cons.IH [OF this] Cons.prems(2)
    show "leads cents ((put_in f e p)\<lparr>pc_f := Some f, pc_l := l1\<rparr>) f (fold (put_in f) (e # es) p) rest"
      by (simp add: fold_frame)
  qed
qed

lemma close_leads:
  assumes "at f p (CHR 0x7D # CHR 0x0A # rest)" and "f \<noteq> ParseTop"
  shows "leads cents p ParseTop p rest"
proof -
  from assms(1) obtain b where f: "pc_f p = Some f" and a: "ahead p (b @ CHR 0x7D # CHR 0x0A # rest)" "blank b"
    by (auto simp: at_def)
  from next_punct [OF a, of CT_CLOSE] obtain l1 where
    t: "next_tok p = Some (tok_none CT_CLOSE, p\<lparr>pc_l := l1\<rparr>)" and v: "lx_view l1 (Some CfgAny) [] (CHR 0x0A # rest)" by auto
  have "does (parse_step cents f p) (p\<lparr>pc_f := Some ParseTop\<rparr>) ([CHR 0x0A] @ rest)"
    using assms(2) v by (cases f; auto simp: parse_backend_def parse_health_def parse_tls_def t intro!: does_ret)
  from does_leads [OF this f blanks(2)] show ?thesis .
qed

lemma open_scope:
  assumes "ahead p ('' '' @ CHR 0x7B # CHR 0x0A # rest)"
  shows "does (with_open p f) (p\<lparr>pc_f := Some f\<rparr>) ([CHR 0x0A] @ rest)"
  using next_punct [of p "'' ''" "CHR 0x7B" "CHR 0x0A # rest" CT_OPEN] assms blanks
  by (auto simp: with_open_def intro!: does_ret)

text \<open>From the opening of a scope on.\<close>

lemma braces_lead:
  assumes "does (parse_step cents ParseTop p) (q\<lparr>pc_f := Some f\<rparr>) ([CHR 0x0A] @ entries_text es @ [CHR 0x7D, CHR 0x0A] @ rest)"
    and "pc_f p = Some ParseTop" and "f \<noteq> ParseTop" and "list_all (allowed f) es"
  shows "leads cents p ParseTop (fold (put_in f) es q) rest"
proof (rule leads_trans [OF does_leads [OF assms(1,2) blanks(2)]])
  fix l1 assume "at f (q\<lparr>pc_f := Some f, pc_l := l1\<rparr>) (entries_text es @ [CHR 0x7D, CHR 0x0A] @ rest)"
  then have "leads cents (q\<lparr>pc_f := Some f, pc_l := l1\<rparr>) f (fold (put_in f) es (q\<lparr>pc_f := Some f, pc_l := l1\<rparr>))
      ([CHR 0x7D, CHR 0x0A] @ rest)" using assms(4) by (intro entries_leads) simp_all
  then show "leads cents (q\<lparr>pc_f := Some f, pc_l := l1\<rparr>) ParseTop (fold (put_in f) es q) rest"
  proof (rule leads_trans)
    fix l2
    let ?q = "(fold (put_in f) es (q\<lparr>pc_f := Some f, pc_l := l1\<rparr>))\<lparr>pc_f := Some f, pc_l := l2\<rparr>"
    assume a: "at f ?q ([CHR 0x7D, CHR 0x0A] @ rest)"
    have "leads cents ?q ParseTop ?q rest" by (rule close_leads [OF _ assms(3)]) (use a in simp)
    then show "leads cents ?q ParseTop (fold (put_in f) es q) rest" by (simp add: fold_frame)
  qed
qed

section \<open>Directives and configurations\<close>

lemma put_in_other: "f \<noteq> ParseBackend \<Longrightarrow> put_in f e = put e" "put_in ParseBackend e = on_current (put_backend e)"
  by (auto simp: put_in_def)

lemma backend_of_frame:
  "cfg_backend_of (p\<lparr>pc_l := l\<rparr>) ident = (cfg_backend_of p ident)\<lparr>pc_l := l\<rparr>"
  "cfg_backend_of (p\<lparr>pc_f := g\<rparr>) ident = (cfg_backend_of p ident)\<lparr>pc_f := g\<rparr>"
  by (simp_all add: cfg_backend_of_def split: option.splits)

lemma scope_leads:
  assumes "at ParseTop p (word k @ in_braces es @ rest)" and "k = K_HEALTH \<and> f = ParseHealth \<or> k = K_TLS \<and> f = ParseTls"
    and "list_all (allowed f) es"
  shows "leads cents p ParseTop (fold put es p) rest"
proof -
  let ?rest = "entries_text es @ [CHR 0x7D, CHR 0x0A] @ rest"
  have k: "map_of KEYWORDS k \<noteq> None" using assms(2) by (auto simp: KEYWORDS_def)
  from at_keyword [OF _ k, of ParseTop p "[CHR 0x7B, CHR 0x0A] @ ?rest"] assms(1) obtain t l1 where
    t: "next_tok p = Some (t, p\<lparr>pc_l := l1\<rparr>)" "tk_type t = k"
    and v: "lx_view l1 (Some CfgAny) [] ('' '' @ CHR 0x7B # CHR 0x0A # ?rest)" by (auto simp: in_braces_def)
  have "does (with_open (p\<lparr>pc_l := l1\<rparr>) f) (p\<lparr>pc_l := l1, pc_f := Some f\<rparr>) ([CHR 0x0A] @ ?rest)"
    by (rule open_scope) (use v in simp)
  then have "does (parse_step cents ParseTop p) ((p\<lparr>pc_l := l1\<rparr>)\<lparr>pc_f := Some f\<rparr>) ([CHR 0x0A] @ ?rest)"
    using assms(2) t by (auto simp: parse_top_def)
  from braces_lead [OF this _ _ assms(3)] assms(1,2) have "leads cents p ParseTop (fold (put_in f) es (p\<lparr>pc_l := l1\<rparr>)) rest"
    by (auto simp: at_def)
  moreover have "put_in f = put" using assms(2) by (intro ext) (auto simp: put_in_other)
  ultimately show ?thesis by (metis fold_frame(1) leads_frame(2))
qed

lemma backend_leads:
  assumes "at ParseTop p (directive_text (Backend ident es) @ rest)" and "directive_ok (Backend ident es)"
  shows "leads cents p ParseTop (put_directive (Backend ident es) p) rest"
proof -
  let ?rest = "entries_text es @ [CHR 0x7D, CHR 0x0A] @ rest"
  have k: "map_of KEYWORDS K_BACKEND \<noteq> None" "map_of KEYWORDS K_DEFAULT \<noteq> None" by (simp_all add: KEYWORDS_def)
  obtain more where more: "directive_text (Backend ident es) @ rest = word K_BACKEND @ CHR '' '' # more" 
    "more = (case ident of None \<Rightarrow> word K_DEFAULT | Some s \<Rightarrow> quoted s) @ '' '' @ CHR 0x7B # CHR 0x0A # ?rest"
    by (cases ident) (auto simp: in_braces_def)
  from at_keyword [OF _ k(1), of ParseTop p more] assms(1) more(1) obtain t l1 where
    t: "next_tok p = Some (t, p\<lparr>pc_l := l1\<rparr>)" "tk_type t = K_BACKEND"
    and v: "ahead (p\<lparr>pc_l := l1\<rparr>) ('' '' @ more)" by auto
  have "\<exists>l2. parse_scope (p\<lparr>pc_l := l1\<rparr>) = with_open (cfg_backend_of (p\<lparr>pc_l := l2\<rparr>) ident) ParseBackend \<and>
      lx_view l2 (Some CfgAny) [] ('' '' @ CHR 0x7B # CHR 0x0A # ?rest)"
  proof (cases ident)
    case None
    from next_keyword [of "p\<lparr>pc_l := l1\<rparr>" "'' ''" "word K_DEFAULT" "CHR '' ''" "CHR 0x7B # CHR 0x0A # ?rest" K_DEFAULT]
      v word_ok [OF k(2)] blanks outside_words None more(2) show ?thesis by (auto simp: parse_scope_def)
  next
    case (Some s)
    have s: "quotable s" using assms(2) Some by simp
    have "ahead (p\<lparr>pc_l := l1\<rparr>) ('' '' @ CHR 0x22 # quote s @ CHR 0x22 # '' '' @ CHR 0x7B # CHR 0x0A # ?rest)"
      using v more(2) Some by (simp add: quoted_def)
    from next_string [OF this blanks(1) s] show ?thesis by (auto simp: parse_scope_def Some)
  qed
  then obtain l2 where sc: "parse_scope (p\<lparr>pc_l := l1\<rparr>) = with_open ((cfg_backend_of p ident)\<lparr>pc_l := l2\<rparr>) ParseBackend"
    and v2: "lx_view l2 (Some CfgAny) [] ('' '' @ CHR 0x7B # CHR 0x0A # ?rest)" by (auto simp: backend_of_frame)
  let ?q = "(cfg_backend_of p ident)\<lparr>pc_l := l2\<rparr>"
  have "does (with_open ?q ParseBackend) (?q\<lparr>pc_f := Some ParseBackend\<rparr>) ([CHR 0x0A] @ ?rest)"
    by (rule open_scope) (use v2 in simp)
  then have "does (parse_step cents ParseTop p) (?q\<lparr>pc_f := Some ParseBackend\<rparr>) ([CHR 0x0A] @ ?rest)"
    by (simp add: parse_top_def t sc)
  moreover have "pc_f p = Some ParseTop" using assms(1) by (simp add: at_def)
  moreover have "list_all (allowed ParseBackend) es" using assms(2) by simp
  ultimately have "leads cents p ParseTop (fold (put_in ParseBackend) es ?q) rest" by (intro braces_lead) simp_all
  moreover have "(\<lambda>e. on_current (put_backend e)) = put_in ParseBackend" by (intro ext) (simp add: put_in_other)
  ultimately show ?thesis by (simp add: fold_frame)
qed

lemma directive_leads:
  assumes "at ParseTop p (directive_text d @ rest)" and "directive_ok d"
  shows "leads cents p ParseTop (put_directive d p) rest"
proof (cases d)
  case (Entry e)
  with assms entry_leads [of ParseTop p e rest cents] show ?thesis by (simp add: put_in_other)
next
  case (Scope k es)
  with assms scope_leads [of p k es rest _ cents] show ?thesis by auto
next
  case (Backend ident es)
  with assms backend_leads show ?thesis by simp
qed

lemma directive_frame:
  "put_directive d (p\<lparr>pc_l := l\<rparr>) = (put_directive d p)\<lparr>pc_l := l\<rparr>"
  "put_directive d (p\<lparr>pc_f := g\<rparr>) = (put_directive d p)\<lparr>pc_f := g\<rparr>"
proof -
  have f: "put = put_in ParseTop" "(\<lambda>e. on_current (put_backend e)) = put_in ParseBackend"
    by (intro ext; simp add: put_in_def)+
  show "put_directive d (p\<lparr>pc_l := l\<rparr>) = (put_directive d p)\<lparr>pc_l := l\<rparr>"
    "put_directive d (p\<lparr>pc_f := g\<rparr>) = (put_directive d p)\<lparr>pc_f := g\<rparr>"
    by (cases d; simp add: f fold_frame put_in_frame backend_of_frame)+
qed

lemma fold_directive_frame:
  "fold put_directive ds (p\<lparr>pc_l := l\<rparr>) = (fold put_directive ds p)\<lparr>pc_l := l\<rparr>"
  "fold put_directive ds (p\<lparr>pc_f := g\<rparr>) = (fold put_directive ds p)\<lparr>pc_f := g\<rparr>"
  by (induction ds arbitrary: p) (simp_all add: directive_frame)

lemma config_leads:
  "at ParseTop p (config_text ds @ rest) \<Longrightarrow> list_all directive_ok ds \<Longrightarrow> leads cents p ParseTop (fold put_directive ds p) rest"
proof (induction ds arbitrary: p)
  case Nil
  then show ?case by (simp add: config_text_def leads_refl)
next
  case (Cons d ds)
  have "leads cents p ParseTop (put_directive d p) (config_text ds @ rest)"
    using Cons.prems by (intro directive_leads) (simp_all add: config_text_def)
  then show ?case
  proof (rule leads_trans)
    fix l1 assume "at ParseTop ((put_directive d p)\<lparr>pc_f := Some ParseTop, pc_l := l1\<rparr>) (config_text ds @ rest)"
    from Cons.IH [OF this] Cons.prems(2)
    show "leads cents ((put_directive d p)\<lparr>pc_f := Some ParseTop, pc_l := l1\<rparr>) ParseTop (fold put_directive (d # ds) p) rest"
      by (simp add: fold_directive_frame)
  qed
qed

text \<open>
  The whole text: the parse ends at its end, and also at a brace that closes nothing, whatever
  follows it.
\<close>

definition stops :: "bytes \<Rightarrow> bool" where
  "stops rest \<longleftrightarrow> rest = [] \<or> hd rest = CHR 0x7D"

lemma parse_config:
  assumes "at ParseTop p (config_text ds @ rest)" and "list_all directive_ok ds" and rest: "stops rest"
  shows "\<exists>l1. cfg_parse cents p = Some (0, (fold put_directive ds p)\<lparr>pc_f := None, pc_l := l1\<rparr>)"
proof -
  from config_leads [OF assms(1,2), of cents] obtain l1 b where
    e: "cfg_parse cents p = cfg_parse cents ((fold put_directive ds p)\<lparr>pc_f := Some ParseTop, pc_l := l1\<rparr>)"
    and b: "blank b" "lx_view l1 (Some CfgAny) [] (b @ rest)" by (auto simp: leads_def)
  let ?q = "(fold put_directive ds p)\<lparr>pc_f := Some ParseTop, pc_l := l1\<rparr>"
  have "\<exists>l2 rc. parse_step cents ParseTop ?q = Some (rc, (fold put_directive ds p)\<lparr>pc_f := None, pc_l := l2\<rparr>)"
  proof (cases rest)
    case Nil
    from next_eos [of ?q b] b Nil obtain l2 where "next_tok ?q = Some (tok_none CT_EOS, ?q\<lparr>pc_l := l2\<rparr>)" by auto
    then show ?thesis by (auto simp: parse_top_def intro!: exI [of _ l2])
  next
    case (Cons x more)
    then have "ahead ?q (b @ CHR 0x7D # more)" using b rest by (simp add: stops_def)
    from next_punct [OF this b(1), of CT_CLOSE] obtain l2 where "next_tok ?q = Some (tok_none CT_CLOSE, ?q\<lparr>pc_l := l2\<rparr>)" by auto
    then show ?thesis by (auto simp: parse_top_def intro!: exI [of _ l2])
  qed
  then obtain l2 rc where "parse_step cents ParseTop ?q = Some (rc, (fold put_directive ds p)\<lparr>pc_f := None, pc_l := l2\<rparr>)" by blast
  then show ?thesis unfolding e by (auto simp: cfg_parse.simps intro!: exI [of _ l2])
qed

end
