(* ===== verification/Config_Apply.thy ===== *)
theory Config_Apply
  imports Config_Text
begin

text \<open>
  What a configuration means, directive by directive: the last value of a setting counts, a
  backend is listed where its scope is opened first, and takes what it does not set from the
  \<^verbatim>\<open>default\<close> scopes. The context that \<^verbatim>\<open>pgr_configure\<close> makes is this one.
\<close>

section \<open>The meaning of a configuration\<close>

text \<open>The last value that the entries give, \<open>r\<close> when there is none.\<close>

definition latest :: "(entry \<Rightarrow> 'a option) \<Rightarrow> entry list \<Rightarrow> 'a option \<Rightarrow> 'a option" where
  "latest f es r = fold (\<lambda>e r. case f e of None \<Rightarrow> r | Some v \<Rightarrow> Some v) es r"

fun text_of :: "cfg_type \<Rightarrow> entry \<Rightarrow> bytes option" where
  "text_of k (Text k' s) = (if k' = k then Some s else None)"
| "text_of k _ = None"

fun number_of :: "cfg_type \<Rightarrow> entry \<Rightarrow> int option" where
  "number_of k (Number k' n) = (if k' = k then Some (int n) else None)"
| "number_of k _ = None"

fun choice_of :: "(cfg_type \<Rightarrow> int) \<Rightarrow> entry \<Rightarrow> int option" where
  "choice_of h (Choice k w) = Some (h w)"
| "choice_of h _ = None"

fun settings_of :: "directive \<Rightarrow> entry list" where
  "settings_of (Entry e) = [e]"
| "settings_of (Scope k es) = es"
| "settings_of (Backend ident es) = []"

definition settings :: "directive list \<Rightarrow> entry list" where
  "settings ds = concat (map settings_of ds)"

fun options_of :: "bytes option \<Rightarrow> directive \<Rightarrow> entry list" where
  "options_of i (Backend ident es) = (if ident = i then es else [])"
| "options_of i _ = []"

definition options :: "bytes option \<Rightarrow> directive list \<Rightarrow> entry list" where
  "options i ds = concat (map (options_of i) ds)"

fun ids_of :: "directive \<Rightarrow> bytes list" where
  "ids_of (Backend (Some s) es) = [s]"
| "ids_of _ = []"

text \<open>Each once, in the order of the first scopes.\<close>

definition backend_ids :: "directive list \<Rightarrow> bytes list" where
  "backend_ids ds = rev (remdups (rev (concat (map ids_of ds))))"

text \<open>The entries that count for a backend, the stronger ones later.\<close>

definition effective :: "directive list \<Rightarrow> bytes \<Rightarrow> entry list" where
  "effective ds s = options None ds @ options (Some s) ds"

definition configured_backend :: "directive list \<Rightarrow> bytes \<Rightarrow> BACKEND" where
  "configured_backend ds s =
     (case hostport s of
        (rc, host, port) \<Rightarrow>
          blank_backend\<lparr>be_hostname := host, be_port := the port, be_serial := 1,
            be_tls := the (latest (choice_of tls_of) (effective ds s) (Some BACKEND_TLS_OFF)),
            be_weight := the (latest (number_of K_WEIGHT) (effective ds s) (Some 1)),
            be_threshold := of_int (the (latest (number_of K_LAG) (effective ds s) (Some 100))),
            be_database := the (latest (text_of K_DATABASE) (settings ds) (Some ''postgres'')),
            be_username := the (latest (text_of K_USERNAME) (settings ds) (Some ''postgres'')),
            be_password := the (latest (text_of K_PASSWORD) (settings ds) (Some []))\<rparr>)"

section \<open>The last value\<close>

lemma latest_simps [simp]:
  "latest f [] r = r"
  "latest f (e # es) r = latest f es (case f e of None \<Rightarrow> r | Some v \<Rightarrow> Some v)"
  "latest f (xs @ ys) r = latest f ys (latest f xs r)"
  by (simp_all add: latest_def)

lemma latest_default: "latest f es r = (case latest f es None of None \<Rightarrow> r | Some v \<Rightarrow> Some v)"
  by (induction es rule: rev_induct) (simp_all split: option.splits)

lemma settings_simps [simp]:
  "settings [] = []" "settings (d # ds) = settings_of d @ settings ds"
  by (simp_all add: settings_def)

text \<open>The value of a setting in the parser.\<close>

fun text_at :: "cfg_type \<Rightarrow> cfg_parser \<Rightarrow> bytes option" where
  "text_at K_LISTEN p = pc_listen p" | "text_at K_MONITOR p = pc_monitor p" | "text_at K_HBA p = pc_hbafile p"
| "text_at K_USER p = pc_user p" | "text_at K_GROUP p = pc_group p" | "text_at K_PIDFILE p = pc_pidfile p"
| "text_at K_AUTHDB p = pc_authdb p" | "text_at K_DATABASE p = pc_database p" | "text_at K_USERNAME p = pc_username p"
| "text_at K_PASSWORD p = pc_password p" | "text_at K_CIPHERS p = pc_ciphers p" | "text_at K_CERT p = pc_certfile p"
| "text_at K_KEY p = pc_keyfile p" | "text_at _ p = None"

fun number_at :: "cfg_type \<Rightarrow> cfg_parser \<Rightarrow> int option" where
  "number_at K_WORKERS p = pc_workers p" | "number_at K_TIMEOUT p = pc_timeout p"
| "number_at K_CHECK p = pc_interval p" | "number_at _ p = None"

definition text_keys :: "cfg_type set" where
  "text_keys = {K_LISTEN, K_MONITOR, K_HBA, K_USER, K_GROUP, K_PIDFILE, K_AUTHDB, K_DATABASE, K_USERNAME,
     K_PASSWORD, K_CIPHERS, K_CERT, K_KEY}"

lemma text_at_put: "k \<in> text_keys \<Longrightarrow> text_at k (put e p) = latest (text_of k) [e] (text_at k p)"
proof (cases e)
  case (Text k' s)
  assume "k \<in> text_keys"
  then show ?thesis unfolding Text text_keys_def by (elim insertE) (cases k'; simp)+
next
  case (Number k' n)
  assume "k \<in> text_keys"
  then show ?thesis unfolding Number text_keys_def by (elim insertE) (cases k'; simp)+
next
  case (Choice k' w)
  assume "k \<in> text_keys"
  then show ?thesis unfolding Choice text_keys_def by (elim insertE) simp_all
qed

lemma number_at_put: "k \<in> {K_WORKERS, K_TIMEOUT, K_CHECK} \<Longrightarrow> number_at k (put e p) = latest (number_of k) [e] (number_at k p)"
proof (cases e)
  case (Text k' s)
  assume "k \<in> {K_WORKERS, K_TIMEOUT, K_CHECK}"
  then show ?thesis unfolding Text by (elim insertE) (cases k'; simp)+
next
  case (Number k' n)
  assume "k \<in> {K_WORKERS, K_TIMEOUT, K_CHECK}"
  then show ?thesis unfolding Number by (elim insertE) (cases k'; simp)+
next
  case (Choice k' w)
  assume "k \<in> {K_WORKERS, K_TIMEOUT, K_CHECK}"
  then show ?thesis unfolding Choice by (elim insertE) simp_all
qed

lemma level_at_put: "pc_loglevel (put e p) = latest (choice_of level_of) [e] (pc_loglevel p)"
  by (cases e) (simp_all split: cfg_type.split)

section \<open>The parser after the text\<close>

lemma put_directive_values:
  "k \<in> text_keys \<Longrightarrow> text_at k (put_directive d p) = latest (text_of k) (settings_of d) (text_at k p)"
  "k \<in> {K_WORKERS, K_TIMEOUT, K_CHECK} \<Longrightarrow>
     number_at k (put_directive d p) = latest (number_of k) (settings_of d) (number_at k p)"
  "pc_loglevel (put_directive d p) = latest (choice_of level_of) (settings_of d) (pc_loglevel p)"
proof -
  have on: "text_at k (on_current h q) = text_at k q" "number_at k (on_current h q) = number_at k q"
    "pc_loglevel (on_current h q) = pc_loglevel q" for h q k
    by (cases k; simp add: on_current_def)+
  have of: "text_at k (cfg_backend_of q i) = text_at k q" "number_at k (cfg_backend_of q i) = number_at k q"
    "pc_loglevel (cfg_backend_of q i) = pc_loglevel q" for i q k
    by (cases k; simp add: cfg_backend_of_def split: option.splits)+
  have fo: "text_at k (fold (\<lambda>e. on_current (put_backend e)) es q) = text_at k q"
    "number_at k (fold (\<lambda>e. on_current (put_backend e)) es q) = number_at k q"
    "pc_loglevel (fold (\<lambda>e. on_current (put_backend e)) es q) = pc_loglevel q" for es q k
    by (induction es arbitrary: q) (simp_all add: on)
  have t: "text_at k (fold put es q) = latest (text_of k) es (text_at k q)" if "k \<in> text_keys" for es q k
    by (induction es arbitrary: q) (simp_all add: text_at_put [OF that])
  have n: "number_at k (fold put es q) = latest (number_of k) es (number_at k q)" if "k \<in> {K_WORKERS, K_TIMEOUT, K_CHECK}" for es q k
    by (induction es arbitrary: q) (simp_all add: number_at_put [OF that])
  have l: "pc_loglevel (fold put es q) = latest (choice_of level_of) es (pc_loglevel q)" for es q
    by (induction es arbitrary: q) (simp_all add: level_at_put)
  show "k \<in> text_keys \<Longrightarrow> text_at k (put_directive d p) = latest (text_of k) (settings_of d) (text_at k p)"
    by (cases d) (simp_all add: text_at_put t fo of)
  show "k \<in> {K_WORKERS, K_TIMEOUT, K_CHECK} \<Longrightarrow>
     number_at k (put_directive d p) = latest (number_of k) (settings_of d) (number_at k p)"
    by (cases d) (simp_all only: put_directive.simps settings_of.simps number_at_put n fo of latest_simps)
  show "pc_loglevel (put_directive d p) = latest (choice_of level_of) (settings_of d) (pc_loglevel p)"
    by (cases d) (simp_all add: level_at_put l fo of)
qed

lemma parsed_values:
  "k \<in> text_keys \<Longrightarrow> text_at k (fold put_directive ds p) = latest (text_of k) (settings ds) (text_at k p)"
  "k \<in> {K_WORKERS, K_TIMEOUT, K_CHECK} \<Longrightarrow>
     number_at k (fold put_directive ds p) = latest (number_of k) (settings ds) (number_at k p)"
  "pc_loglevel (fold put_directive ds p) = latest (choice_of level_of) (settings ds) (pc_loglevel p)"
  by (induction ds arbitrary: p) (simp_all add: put_directive_values)

section \<open>The list of backends\<close>

definition built :: "directive list \<Rightarrow> bytes option \<Rightarrow> cfg_backend" where
  "built ds i = fold put_backend (options i ds) (make_backend i)"

lemma options_snoc: "options i (ds @ [d]) = options i ds @ options_of i d"
  by (simp add: options_def)

lemma ids_snoc:
  "backend_ids (ds @ [d]) = (case d of
     Backend (Some s) es \<Rightarrow> if s \<in> set (backend_ids ds) then backend_ids ds else backend_ids ds @ [s]
   | _ \<Rightarrow> backend_ids ds)"
  by (cases d rule: ids_of.cases) (simp_all add: backend_ids_def)

lemma ids_distinct: "distinct (backend_ids ds)"
  by (simp add: backend_ids_def)

lemma options_none: "s \<notin> set (backend_ids ds) \<Longrightarrow> options (Some s) ds = []"
proof (induction ds)
  case (Cons d ds)
  then show ?case by (cases d rule: ids_of.cases) (auto simp: backend_ids_def options_def)
qed (simp add: options_def)

lemma put_backend_id [simp]: "cb_id (fold put_backend es b) = cb_id b"
proof (induction es arbitrary: b)
  case (Cons e es)
  then show ?case by (cases e) simp_all
qed simp

lemma built_id [simp]: "cb_id (built ds i) = i"
  by (simp add: built_def make_backend_def split: option.splits)

lemma fold_on_current:
  "pc_current p < length (pc_backends p) \<Longrightarrow>
   fold (\<lambda>e. on_current (put_backend e)) es p = on_current (fold put_backend es) p"
proof (induction es arbitrary: p)
  case (Cons e es)
  then show ?case by (simp add: on_current_def)
qed (simp add: on_current_def)

lemma backend_index_map:
  "distinct ids \<Longrightarrow> (\<And>x. cb_id (g x) = Some x) \<Longrightarrow>
   (case backend_index s i (map g ids) of
      None \<Rightarrow> s \<notin> set ids
    | Some j \<Rightarrow> i \<le> j \<and> j < i + length ids \<and> ids ! (j - i) = s)"
proof (induction ids arbitrary: i)
  case (Cons x ids)
  from Cons.IH [of "Suc i"] Cons.prems show ?case
    by (auto split: option.splits simp: nth_Cons' Suc_diff_Suc)
qed simp

lemma parsed_backends:
  assumes "pc_backends p = [make_backend None]"
  shows "pc_backends (fold put_directive ds p) = built ds None # map (\<lambda>s. built ds (Some s)) (backend_ids ds)"
proof (induction ds rule: rev_induct)
  case Nil
  then show ?case using assms by (simp add: built_def options_def backend_ids_def)
next
  case (snoc d ds)
  let ?p = "fold put_directive ds p"
  show ?case
  proof (cases d)
    case (Entry e)
    then have "pc_backends (put e ?p) = pc_backends ?p" by (cases e) (simp_all split: cfg_type.split)
    then show ?thesis using snoc Entry by (simp add: built_def options_snoc ids_snoc)
  next
    case (Scope k es)
    have "pc_backends (fold put es q) = pc_backends q" for q
    proof (induction es arbitrary: q)
      case (Cons e es)
      have "pc_backends (put e q) = pc_backends q" by (cases e) (simp_all split: cfg_type.split)
      then show ?case using Cons by simp
    qed simp
    then show ?thesis using snoc Scope by (simp add: built_def options_snoc ids_snoc)
  next
    case (Backend ident es)
    show ?thesis
    proof (cases ident)
      case None
      then show ?thesis using snoc
        by (simp add: Backend cfg_backend_of_def fold_on_current on_current_def built_def options_snoc ids_snoc)
    next
      case (Some s)
      note ix = backend_index_map [OF ids_distinct [of ds], of "\<lambda>x. built ds (Some x)" s 1, simplified built_id, OF refl]
      have other: "built (ds @ [d]) i = built ds i" if "i \<noteq> Some s" for i
        using that by (simp add: built_def options_snoc Backend Some)
      have own: "built (ds @ [d]) (Some s) = fold put_backend es (built ds (Some s))"
        by (simp add: built_def options_snoc Backend Some)
      show ?thesis
      proof (cases "backend_index s 1 (tl (pc_backends ?p))")
        case bi: None
        then have new: "s \<notin> set (backend_ids ds)" using ix snoc by simp
        have "built ds (Some s) = make_backend (Some s)" by (simp add: built_def options_none [OF new])
        moreover have "map (\<lambda>x. built (ds @ [d]) (Some x)) (backend_ids ds) = map (\<lambda>x. built ds (Some x)) (backend_ids ds)"
          using new by (auto intro: other)
        ultimately show ?thesis using bi snoc new other [of None] own
          by (simp add: Backend Some cfg_backend_of_def fold_on_current on_current_def ids_snoc nth_append list_update_append)
      next
        case bi: (Some j)
        with ix snoc have j: "1 \<le> j" "j < 1 + length (backend_ids ds)" "backend_ids ds ! (j - 1) = s" by simp_all
        then have s: "s \<in> set (backend_ids ds)" by (metis One_nat_def Suc_pred add.commute less_Suc_eq_le nth_mem plus_1_eq_Suc less_diff_conv2 not_less_eq)
        obtain i where i: "j = Suc i" using j(1) by (cases j) auto
        have "map (\<lambda>x. built (ds @ [d]) (Some x)) (backend_ids ds) =
            (map (\<lambda>x. built ds (Some x)) (backend_ids ds))[i := built (ds @ [d]) (Some s)]"
        proof (rule nth_equalityI)
          fix n assume n: "n < length (map (\<lambda>x. built (ds @ [d]) (Some x)) (backend_ids ds))"
          show "map (\<lambda>x. built (ds @ [d]) (Some x)) (backend_ids ds) ! n =
            (map (\<lambda>x. built ds (Some x)) (backend_ids ds))[i := built (ds @ [d]) (Some s)] ! n"
            using n i j ids_distinct [of ds] other by (auto simp: nth_list_update nth_eq_iff_index_eq)
        qed simp
        then show ?thesis using bi snoc s j i other [of None] own
          by (simp add: Backend Some cfg_backend_of_def fold_on_current on_current_def ids_snoc)
      qed
    qed
  qed
qed

section \<open>The context\<close>

lemma allowed_options:
  "list_all directive_ok ds \<Longrightarrow> list_all (allowed ParseBackend) (options i ds)"
proof (induction ds)
  case (Cons d ds)
  have "list_all (allowed ParseBackend) (options_of i d)" using Cons.prems by (cases d) auto
  then show ?case using Cons by (simp add: options_def)
qed (simp add: options_def)

lemma built_values:
  "list_all (allowed ParseBackend) es \<Longrightarrow> cb_weight (fold put_backend es b) = latest (number_of K_WEIGHT) es (cb_weight b)"
  "list_all (allowed ParseBackend) es \<Longrightarrow> cb_lag (fold put_backend es b) = latest (number_of K_LAG) es (cb_lag b)"
  "list_all (allowed ParseBackend) es \<Longrightarrow> cb_tls (fold put_backend es b) = latest (choice_of tls_of) es (cb_tls b)"
proof (induction es arbitrary: b)
  case (Cons e es)
  { case 1 then show ?case using Cons(1) by (cases e) auto }
  { case 2 then show ?case using Cons(2) by (cases e) auto }
  { case 3 then show ?case using Cons(3) by (cases e) auto }
qed simp_all

lemma get_int_latest:
  "get_int a (latest f xs (Some v)) (latest f ys None) = the (latest f (xs @ ys) (Some v))"
proof -
  have "latest f xs (Some v) \<noteq> None" by (induction xs rule: rev_induct) (auto split: option.splits)
  then obtain u where u: "latest f xs (Some v) = Some u" by blast
  show ?thesis by (simp add: u get_int_def latest_default [of f ys "Some u"] split: option.splits)
qed

lemma get_str_latest: "get_str a (latest f xs None) None = the (latest f xs (Some a))"
  by (simp add: get_str_def latest_default [of f xs "Some a"] split: option.splits)

lemma fill_built:
  assumes "list_all directive_ok ds" and "hostport s = (0, host, Some n)"
    and "hd (pc_backends p) = built ds None"
    and "\<And>k. k \<in> text_keys \<Longrightarrow> text_at k p = latest (text_of k) (settings ds) None"
  shows "fill_backend p (built ds (Some s)) host n = configured_backend ds s"
proof -
  note b = built_values [OF allowed_options [OF assms(1)]]
  have "pc_database p = latest (text_of K_DATABASE) (settings ds) None"
    "pc_username p = latest (text_of K_USERNAME) (settings ds) None"
    "pc_password p = latest (text_of K_PASSWORD) (settings ds) None"
    using assms(4) [of K_DATABASE] assms(4) [of K_USERNAME] assms(4) [of K_PASSWORD] by (simp_all add: text_keys_def)
  then show ?thesis
    by (simp add: fill_backend_def Let_def configured_backend_def assms(2,3) built_def b make_backend_def
        get_int_latest get_str_latest effective_def del: latest_simps(3))
qed

lemma fill_all_built:
  assumes "list_all directive_ok ds" and "\<And>s. s \<in> set ids \<Longrightarrow> \<exists>host n. hostport s = (0, host, Some n)"
    and "hd (pc_backends p) = built ds None"
    and "\<And>k. k \<in> text_keys \<Longrightarrow> text_at k p = latest (text_of k) (settings ds) None"
  shows "fill_backends p (map (\<lambda>s. built ds (Some s)) ids) = (0, map (configured_backend ds) ids)"
  using assms(2)
proof (induction ids)
  case (Cons s ids)
  from Cons.prems [of s] obtain host n where h: "hostport s = (0, host, Some n)" by auto
  show ?case using Cons fill_built [OF assms(1) h assms(3,4)] by (simp add: h)
qed simp

lemma startup_first: "startup False new old = Ret (case new of None \<Rightarrow> old | Some v \<Rightarrow> Some v)"
  by (simp add: startup_def split: option.splits)

text \<open>The context after the start: the settings, and the backends.\<close>

definition configured :: "directive list \<Rightarrow> CONTEXT \<Rightarrow> CONTEXT" where
  "configured ds c =
     (let text = (\<lambda>k. latest (text_of k) (settings ds)); number = (\<lambda>k old. the (latest (number_of k) (settings ds) (Some old)))
      in c\<lparr>cx_workers := number K_WORKERS (cx_workers c),
           cx_loglevel := the (latest (choice_of level_of) (settings ds) (Some (cx_loglevel c))),
           health_interval := number K_CHECK (health_interval c), health_timeout := number K_TIMEOUT (health_timeout c),
           health_database := text K_DATABASE (health_database c), health_username := text K_USERNAME (health_username c),
           health_password := text K_PASSWORD (health_password c),
           st_frontend := text K_LISTEN (st_frontend c), st_monitor := text K_MONITOR (st_monitor c),
           st_hbafile := text K_HBA (st_hbafile c), st_pidfile := text K_PIDFILE (st_pidfile c),
           authdb_file := text K_AUTHDB (authdb_file c),
           st_tls_ciphers := text K_CIPHERS (st_tls_ciphers c), st_tls_certfile := text K_CERT (st_tls_certfile c),
           st_tls_keyfile := text K_KEY (st_tls_keyfile c), st_user := text K_USER (st_user c),
           st_group := text K_GROUP (st_group c), backends := map (configured_backend ds) (backend_ids ds)\<rparr>)"

lemma set_opt_latest:
  "set_opt (latest f es None) old = the (latest f es (Some old))"
  "set_opt (map_option Some (latest f es None)) old' = latest f es old'"
  by (simp_all add: set_opt_def latest_default [of f es "Some old"] latest_default [of f es old'] split: option.splits)

lemma latest_or: "(case latest f es None of None \<Rightarrow> old | Some v \<Rightarrow> Some v) = latest f es old"
  by (simp add: latest_default [of f es old])

lemma configured_by:
  assumes ok: "list_all directive_ok ds" and rest: "stops rest" and ids: "\<And>s. s \<in> set (backend_ids ds) \<Longrightarrow> \<exists>host n. hostport s = (0, host, Some n)"
    and size: "length (config_text ds @ rest) \<le> 2147483647" and here: "fs path = Some (Some (config_text ds @ rest))"
  shows "pgr_configure fs cents c path False = Some (Ret (0, configured ds c))"
proof -
  from view_init [OF size, of CfgAny] obtain l where l: "lexer_init CfgAny (Some (config_text ds @ rest)) = Some l"
    and v: "lx_view l (Some CfgAny) [] (config_text ds @ rest)" by blast
  define p0 where "p0 = the (cfg_parser_init (Some (config_text ds @ rest)))"
  have i: "cfg_parser_init (Some (config_text ds @ rest)) = Some p0" by (simp add: p0_def cfg_parser_init_def l)
  have p0: "pc_l p0 = l" "pc_f p0 = Some ParseTop" "pc_backends p0 = [make_backend None]" "pc_loglevel p0 = None"
    by (simp_all add: p0_def cfg_parser_init_def l)
  have none: "text_at k p0 = None" "number_at k p0 = None" for k
    by (cases k; simp add: p0_def cfg_parser_init_def l)+
  have "at ParseTop p0 (config_text ds @ rest)" using v p0 blanks(3) by (auto simp: at_def intro: exI [of _ "[]"])
  from parse_config [OF this ok rest] obtain l1 where
    parse: "cfg_parse cents p0 = Some (0, (fold put_directive ds p0)\<lparr>pc_f := None, pc_l := l1\<rparr>)" by blast
  define p where "p = (fold put_directive ds p0)\<lparr>pc_f := None, pc_l := l1\<rparr>"
  have frame: "text_at k p = text_at k (fold put_directive ds p0)" "number_at k p = number_at k (fold put_directive ds p0)" for k
    by (cases k; simp add: p_def)+
  have t: "text_at k p = latest (text_of k) (settings ds) None" if "k \<in> text_keys" for k
    using that by (simp add: frame parsed_values none)
  have n: "number_at k p = latest (number_of k) (settings ds) None" if "k \<in> {K_WORKERS, K_TIMEOUT, K_CHECK}" for k
    using that by (simp only: frame parsed_values none)
  have lv: "pc_loglevel p = latest (choice_of level_of) (settings ds) None" by (simp add: p_def parsed_values p0)
  note t' = t [unfolded text_keys_def]
  note vals = t' [of K_LISTEN, simplified] t' [of K_MONITOR, simplified] t' [of K_HBA, simplified]
    t' [of K_USER, simplified] t' [of K_GROUP, simplified] t' [of K_PIDFILE, simplified]
    t' [of K_AUTHDB, simplified] t' [of K_DATABASE, simplified] t' [of K_USERNAME, simplified]
    t' [of K_PASSWORD, simplified] t' [of K_CIPHERS, simplified] t' [of K_CERT, simplified]
    t' [of K_KEY, simplified] n [of K_WORKERS, simplified] n [of K_TIMEOUT, simplified] n [of K_CHECK, simplified] lv
  have bs: "pc_backends p = built ds None # map (\<lambda>s. built ds (Some s)) (backend_ids ds)"
    using parsed_backends [OF p0(3), of ds] by (simp add: p_def)
  have "startup_all False startup_settings p (update_settings p c) = Ret (configured ds c\<lparr>backends := backends c\<rparr>)"
    by (simp add: startup_settings_def startup_first vals latest_or update_settings_def set_opt_latest configured_def Let_def)
  moreover have "configure_backends False p c1 = (0, c1\<lparr>backends := map (configured_backend ds) (backend_ids ds)\<rparr>)" for c1
    using fill_all_built [OF ok ids, of "backend_ids ds" p] t by (simp add: configure_backends_def bs)
  moreover have "configured ds c\<lparr>backends := backends c, backends := map (configured_backend ds) (backend_ids ds)\<rparr> = configured ds c"
    by (simp add: configured_def)
  ultimately show ?thesis by (simp add: pgr_configure_def here i parse flip: p_def)
qed

section \<open>Addresses of backends\<close>

lemma hostport_digits_fold:
  "(\<And>c. c \<in> set s \<Longrightarrow> isdigit c) \<Longrightarrow> hostport_digits i s = Some (foldl (\<lambda>i c. int32 (i * 10 + digit c)) i s)"
  by (induction s arbitrary: i) auto

lemma hostport_dec: "n < 2 ^ 31 \<Longrightarrow> hostport_digits 0 (dec n) = Some (int n)"
  using dec_digits [of _ n] by (simp add: hostport_digits_fold foldl_dec_int32)

lemma hostport_parts:
  assumes "CHR '':'' \<notin> set host" and "n < 2 ^ 31"
  shows "hostport (host @ CHR '':'' # dec n) = (0, host, Some (int n))" "hostport host = (0, host, Some 5432)"
proof -
  have "takeWhile (\<lambda>c. c \<noteq> CHR '':'') (host @ CHR '':'' # dec n) = host"
    using assms(1) by (induction host) auto
  then show "hostport (host @ CHR '':'' # dec n) = (0, host, Some (int n))"
    by (simp add: hostport_def Let_def hostport_dec [OF assms(2)])
  have "takeWhile (\<lambda>c. c \<noteq> CHR '':'') host = host" using assms(1) by (induction host) auto
  then show "hostport host = (0, host, Some 5432)" by (simp only: hostport_def Let_def) simp
qed

lemma hostport_some: "fst (hostport s) = 0 \<Longrightarrow> \<exists>host n. hostport s = (0, host, Some n)"
  by (auto simp: hostport_def Let_def split: list.splits option.splits)

section \<open>A reload\<close>

lemma startup_reload: "startup True new old = Ret v \<Longrightarrow> v = old"
  by (auto simp: startup_def split: option.splits)

lemma reload_all:
  "startup_all True xs p c = Ret c1 \<Longrightarrow> (\<And>new old store d. (new, old, store) \<in> set xs \<Longrightarrow> store (old d) d = d) \<Longrightarrow> c1 = c"
proof (induction xs arbitrary: c)
  case (Cons x xs)
  obtain new old store where x: "x = (new, old, store)" by (metis surj_pair)
  from Cons.prems(1) obtain v where v: "startup True (new p) (old c) = Ret v"
    and c: "startup_all True xs p (store v c) = Ret c1" by (auto simp: x split: run.splits)
  have "store v c = c" using startup_reload [OF v] Cons.prems(2) [of new old store] x by simp
  with c Cons.IH [of c] Cons.prems(2) show ?case by auto
qed simp

lemma reload_settings: "startup_all True startup_settings p c = Ret c1 \<Longrightarrow> c1 = c"
  by (erule reload_all) (auto simp: startup_settings_def)

section \<open>Properties\<close>

lemma strncaseeq_prefix:
  "NUL \<notin> set w \<Longrightarrow> strncaseeq w kw (length w) \<longleftrightarrow> map tolower w = take (length w) (map tolower kw)"
proof (induction w arbitrary: kw)
  case (Cons c w)
  have "0 < uchar c" using Cons.prems uchar_eq_0 [of c] by (metis gr0I list.set_intros(1))
  then have "0 < uchar (tolower c)" by (auto simp: tolower_def uchar_byte_of)
  then have "tolower c \<noteq> NUL" by auto
  moreover have "tolower NUL = NUL" by (simp add: tolower_def)
  ultimately show ?case using Cons by (cases kw) (auto simp: Let_def)
qed simp

lemma keywords_lower: "\<forall>(k, kw)\<in>set KEYWORDS. map tolower kw = kw"
  unfolding KEYWORDS_def by code_simp

lemma find_keyword_filter:
  "NUL \<notin> set w \<Longrightarrow> \<forall>(k, kw)\<in>set ks. map tolower kw = kw \<Longrightarrow>
   find_keyword w (length w) ks =
     (case filter (\<lambda>(k, kw). map tolower w = take (length w) kw) ks of [] \<Rightarrow> None | (k, _) # _ \<Rightarrow> Some k)"
  by (induction ks) (auto simp: strncaseeq_prefix)

text \<open>A word is taken for the first keyword of the table that begins with it.\<close>

lemma keyword_prefix:
  assumes v: "lx_view l (Some CfgAny) [] (w @ d # rest)" and w: "w \<noteq> []" "list_all isalpha w" and d: "d \<notin> set C_WORD"
    and k: "filter (\<lambda>(k, kw). map tolower w = take (length w) kw) KEYWORDS = (k, kw) # others"
  shows "\<exists>t l1. cfg_emit l = Some (t, l1) \<and> tk_type t = k \<and> lx_view l1 (Some CfgAny) [] (d # rest)"
proof -
  obtain c cs where c: "w = c # cs" using w(1) by (cases w) auto
  have "NUL \<notin> set w" using w(2) by (auto simp: list_all_iff isalpha_def)
  then have "keyword_of w = Some k" using k by (simp add: keyword_of_def find_keyword_filter [OF _ keywords_lower])
  moreover have "isalpha c" "\<And>x. x \<in> set cs \<Longrightarrow> x \<in> set C_WORD" using w(2) c alpha_word by (auto simp: list_all_iff)
  ultimately show ?thesis using cfg_word [of l c cs d rest] v d c by auto
qed

text \<open>
  C8: pgr_configure refines the meaning of a configuration as data: of the text of a list of
  directives it makes the context in which the last value of every setting counts and every
  backend, in the order of the first scopes, takes what it does not set from the default
  scopes; a brace that closes nothing ends the configuration without an error, whatever
  follows it.
\<close>

lemma configure_text:
  assumes ok: "list_all directive_ok ds" and ids: "list_all (\<lambda>s. fst (hostport s) = 0) (backend_ids ds)" and rest: "stops rest"
    and size: "length (config_text ds @ rest) \<le> 2147483647" and here: "fs path = Some (Some (config_text ds @ rest))"
  shows "pgr_configure fs cents c path False = Some (Ret (0, configured ds c))"
proof (rule configured_by [OF ok rest])
  show "\<exists>host n. hostport s = (0, host, Some n)" if "s \<in> set (backend_ids ds)" for s
    using that ids hostport_some by (auto simp: list_all_iff)
qed (fact size here)+

lemma reload_only:
  assumes "pgr_configure fs cents c path True = Some (Ret (rc, c1))"
  shows "\<exists>w l i t db u pw. c1 = c\<lparr>cx_workers := w, cx_loglevel := l, health_interval := i, health_timeout := t,
     health_database := db, health_username := u, health_password := pw\<rparr>"
proof -
  have same: "\<exists>w l i t db u pw. c = c\<lparr>cx_workers := w, cx_loglevel := l, health_interval := i, health_timeout := t,
     health_database := db, health_username := u, health_password := pw\<rparr>"
    by (intro exI [of _ "cx_workers c"] exI [of _ "cx_loglevel c"] exI [of _ "health_interval c"] exI [of _ "health_timeout c"]
        exI [of _ "health_database c"] exI [of _ "health_username c"] exI [of _ "health_password c"]) simp
  have "c1 = c \<or> (\<exists>p. c1 = update_settings p c)"
    using assms by (auto simp: pgr_configure_def configure_backends_def split: option.splits run.splits if_splits
        dest!: reload_settings)
  then show ?thesis using same unfolding update_settings_def by blast
qed

lemma hostport_roundtrip:
  "CHR '':'' \<notin> set host \<Longrightarrow> n < 2 ^ 31 \<Longrightarrow> hostport (host @ CHR '':'' # dec n) = (0, host, Some (int n))"
  by (rule hostport_parts(1))

end
