(* ===== verification/Config_Total.thy ===== *)
theory Config_Total
  imports Config_Laws
begin

text \<open>
  \<^verbatim>\<open>pgr_configure\<close> returns on every text. Progress is not obvious: at the end of the text a word
  gives back its last octet, so the lexer can emit the keyword \<^verbatim>\<open>authdb\<close> for ever without
  advancing, and after a number the lexer can stand before the number again. The parser stops
  because neither is accepted where a directive is expected.
\<close>

section \<open>Positions\<close>

definition same_text :: "cfg_lexer \<Rightarrow> cfg_lexer \<Rightarrow> bool" where
  "same_text l l' \<longleftrightarrow> lx_src l' = lx_src l \<and> lx_max l' = lx_max l \<and> lx_start l' = lx_start l \<and> lx_f l' = lx_f l"

lemma same_text_refl [simp, intro]: "same_text l l"
  by (simp add: same_text_def)

lemma same_text_trans [trans]: "same_text l l1 \<Longrightarrow> same_text l1 l2 \<Longrightarrow> same_text l l2"
  by (simp add: same_text_def)

lemma same_text_moves [simp]:
  "same_text l (lex_backup l') = same_text l l'" "same_text l (lex_restart l') = same_text l l'"
  by (simp_all add: same_text_def lex_backup_def lex_restart_def)

lemma pos_moves [simp]:
  "lx_pos (lex_backup l) = lx_pos l - 1" "lx_pos (lex_restart l) = lx_start l"
  by (simp_all add: lex_backup_def lex_restart_def)

lemma next_pos:
  assumes "lex_next l = (c, l1)"
  shows "same_text l l1" "lx_pos l1 = (if lx_pos l < lx_max l then lx_pos l + 1 else lx_pos l)"
    "c = (if lx_pos l < lx_max l then lx_src l ! nat (lx_pos l) else NUL)"
  using assms by (auto simp: lex_next_def same_text_def split: if_splits)

lemma accept_one_pos:
  assumes "accept_one l v = (ok, l1)"
  shows "same_text l l1"
    "ok \<Longrightarrow> lx_pos l < lx_max l \<and> lx_pos l1 = lx_pos l + 1"
    "\<not> ok \<Longrightarrow> lx_pos l1 = (if lx_pos l < lx_max l then lx_pos l else lx_pos l - 1)"
    "\<not> ok \<Longrightarrow> lx_pos l < lx_max l \<Longrightarrow> lx_src l ! nat (lx_pos l) \<notin> set v - {NUL}"
  using assms next_pos [of l] by (auto simp: accept_one_def split: prod.splits if_splits)

lemma accept_all_pos:
  assumes "accept_all l v = (n, l1)" "lx_pos l \<le> lx_max l"
  shows "same_text l l1 \<and> 0 \<le> n \<and>
    (lx_pos l1 = lx_pos l + n \<and> lx_pos l1 < lx_max l \<and> lx_src l ! nat (lx_pos l1) \<notin> set v - {NUL} \<or>
     lx_pos l1 = lx_max l - 1 \<and> lx_pos l + n = lx_max l)"
  using assms
proof (induction l v arbitrary: n l1 rule: accept_all.induct)
  case (1 l v)
  obtain ok l2 where a: "accept_one l v = (ok, l2)" by (metis surj_pair)
  note p = accept_one_pos [OF a]
  show ?case
  proof (cases ok)
    case False
    then have "n = 0" "l1 = l2" using 1(2) a by (simp_all add: accept_all.simps [of l])
    then show ?thesis using p(1) p(3,4) [OF False] 1(3) by auto
  next
    case True
    obtain m l3 where b: "accept_all l2 v = (m, l3)" by (metis surj_pair)
    then have "n = m + 1" "l1 = l3" using 1(2) a True by (simp_all add: accept_all.simps [of l])
    moreover have "lx_pos l2 \<le> lx_max l2" using p(1) p(2) [OF True] by (simp add: same_text_def)
    note 1(1) [OF a [symmetric] True b this]
    ultimately show ?thesis using p(1) p(2) [OF True] by (auto simp: same_text_def)
  qed
qed

lemma accept_groups_pos:
  "accept_groups k l = (True, l1) \<Longrightarrow> lx_pos l \<le> lx_max l \<Longrightarrow>
   same_text l l1 \<and> lx_pos l + int k \<le> lx_pos l1 \<and> lx_pos l1 < lx_max l"
proof (induction k arbitrary: l)
  case 0
  then obtain n where a: "accept_all l C_NUMERIC = (n, l1)" "n \<noteq> 0" by (auto split: prod.splits)
  from accept_all_pos [OF a(1) 0(2)] a(2) show ?case by auto
next
  case (Suc k)
  then obtain n l2 l3 where a: "accept_all l C_NUMERIC = (n, l2)" "n \<noteq> 0"
    and o: "accept_one l2 ''.'' = (True, l3)" and g: "accept_groups k l3 = (True, l1)"
    by (auto split: prod.splits if_splits)
  note pa = accept_all_pos [OF a(1) Suc.prems(2)]
  note po = accept_one_pos(1,2) [OF o]
  have "lx_pos l3 \<le> lx_max l3" using po pa by (auto simp: same_text_def)
  note Suc.IH [OF g this]
  then show ?case using pa po a(2) by (auto simp: same_text_def)
qed

lemma accept_groups_same: "accept_groups k l = (ok, l1) \<Longrightarrow> lx_pos l \<le> lx_max l \<Longrightarrow> same_text l l1"
proof (induction k arbitrary: l)
  case 0
  then show ?case using accept_all_pos [of l C_NUMERIC] by (auto split: prod.splits)
next
  case (Suc k)
  obtain n l2 where a: "accept_all l C_NUMERIC = (n, l2)" by (metis surj_pair)
  obtain b l3 where o: "accept_one l2 ''.'' = (b, l3)" by (metis surj_pair)
  note pa = accept_all_pos [OF a Suc.prems(2)]
  note po = accept_one_pos [OF o]
  have s3: "same_text l l3" using pa po(1) same_text_trans by blast
  have "lx_pos l3 \<le> lx_max l3" using po pa by (cases b) (auto simp: same_text_def split: if_splits)
  note IH = Suc.IH [OF _ this]
  show ?case
  proof (cases "n \<noteq> 0 \<and> b")
    case True
    then have "accept_groups k l3 = (ok, l1)" using Suc.prems(1) a o by simp
    then show ?thesis using IH s3 same_text_trans by blast
  next
    case False
    then show ?thesis using Suc.prems(1) a o pa s3 by (auto split: if_splits)
  qed
qed

lemma scan_digits_pos:
  "scan_digits i l = (v, l1) \<Longrightarrow> lx_pos l \<le> lx_max l \<Longrightarrow>
   same_text l l1 \<and> lx_pos l \<le> lx_pos l1 \<and> lx_pos l1 \<le> lx_max l"
proof (induction i l arbitrary: v l1 rule: scan_digits.induct)
  case (1 i l)
  obtain c l2 where n: "lex_next l = (c, l2)" by (metis surj_pair)
  note p = next_pos [OF n]
  show ?case
  proof (cases "c = NUL \<or> c \<notin> set C_NUMERIC")
    case True
    then have "l1 = l2 \<or> c \<noteq> NUL \<and> l1 = lex_backup l2"
      using "1.prems"(1) by (subst (asm) scan_digits.simps) (auto simp: n split: if_splits)
    then show ?thesis using p "1.prems"(2) by (auto split: if_splits)
  next
    case False
    then have "scan_digits (i * 10 + of_int (digit c)) l2 = (v, l1)"
      using "1.prems"(1) by (subst (asm) scan_digits.simps) (simp add: n)
    moreover have "lx_pos l2 \<le> lx_max l2" using p(1,2) "1.prems"(2) by (simp add: same_text_def)
    ultimately have "same_text l2 l1 \<and> lx_pos l2 \<le> lx_pos l1 \<and> lx_pos l1 \<le> lx_max l2"
      using "1.IH" [OF n [symmetric]] False by blast
    then show ?thesis using p(1,2) by (auto simp: same_text_def split: if_splits)
  qed
qed


section \<open>Numbers\<close>

definition numbers :: "cfg_type set" where
  "numbers = {TY_INTEGER, TY_DECIMAL, TY_TIME, TY_SIZE}"

text \<open>After a token: the lexer stands at the start of the next one.\<close>

definition behind :: "cfg_lexer \<Rightarrow> cfg_lexer \<Rightarrow> bool" where
  "behind l l' \<longleftrightarrow> lx_f l' = Some CfgAny \<and> lx_start l' = lx_pos l' \<and> lx_src l' = lx_src l \<and>
     lx_max l' = lx_max l \<and> lx_pos l' \<le> lx_max l"

lemma behind_same:
  "same_text l l1 \<Longrightarrow> behind l1 l2 \<Longrightarrow> behind l l2" "behind l l1 \<Longrightarrow> behind l1 l2 \<Longrightarrow> behind l l2"
  by (auto simp: behind_def same_text_def)

lemma tok_behind:
  assumes "tok k l1 = (t, l2)" "same_text l l1" "lx_f l = Some CfgAny" "lx_pos l1 \<le> lx_max l"
  shows "tk_type t = k \<and> behind l l2 \<and> lx_pos l2 = lx_pos l1"
  using assms by (auto simp: tok_def behind_def same_text_def lex_ignore_def)

lemma with_tok_behind:
  assumes "with_i i (tok k l1) = (t, l2)" "same_text l l1" "lx_f l = Some CfgAny" "lx_pos l1 \<le> lx_max l"
  shows "tk_type t = k \<and> behind l l2 \<and> lx_pos l2 = lx_pos l1"
proof -
  obtain t0 where t0: "tok k l1 = (t0, l2)" and t: "t = t0\<lparr>tk_i := i\<rparr>"
    using assms(1) by (cases "tok k l1") (simp add: with_i_def)
  show ?thesis using tok_behind [OF t0 assms(2-4)] by (simp add: t)
qed

text \<open>\<open>s\<close> is where the number begins: \<open>INTEGER\<close> may end one octet before it.\<close>

lemma numeric_time_pos:
  assumes t: "numeric_time i c l1 = (t, l2)" and s: "same_text l l1" and f: "lx_f l = Some CfgAny"
    and p: "lx_pos l1 \<le> lx_max l"
  shows "tk_type t \<in> numbers \<and> behind l l2 \<and>
    lx_pos l2 = lx_pos l1 - (if strchr ''sSmMhH'' c then 0 else 1)"
proof (cases "strchr ''sSmMhH'' c")
  case True
  with t have "with_i (i * time_factor c) (tok TY_TIME l1) = (t, l2)" by (simp add: numeric_time_def)
  from with_tok_behind [OF this s f p] True show ?thesis by (simp add: numbers_def)
next
  case False
  with t have "with_i i (tok TY_INTEGER (lex_backup l1)) = (t, l2)" by (simp add: numeric_time_def)
  from with_tok_behind [OF this _ f] s p False show ?thesis by (simp add: numbers_def)
qed

lemma strchr_NUL [simp]: "strchr s NUL"
  by (simp add: strchr_def)

lemma numeric_suffix_pos:
  assumes n: "numeric_suffix i l1 = (t, l2)" and s: "same_text l l1" and f: "lx_f l = Some CfgAny"
    and p: "lx_start l < lx_pos l1" "lx_pos l1 \<le> lx_max l"
  shows "tk_type t \<in> numbers \<and> behind l l2 \<and> lx_start l \<le> lx_pos l2 + 1 \<and>
    (lx_start l + 1 = lx_max l \<longrightarrow> lx_start l \<le> lx_pos l2)"
proof -
  obtain c l3 where x: "lex_next l1 = (c, l3)" by (metis surj_pair)
  note q = next_pos [OF x]
  have s3: "same_text l l3" using s q(1) same_text_trans by blast
  have m: "lx_max l1 = lx_max l" "lx_src l1 = lx_src l" "lx_start l1 = lx_start l" using s by (simp_all add: same_text_def)
  have p3: "lx_pos l1 \<le> lx_pos l3" "lx_pos l3 \<le> lx_max l" using q(2) p m by auto
  consider (decimal) "c = CHR ''.''" | (size) "c \<noteq> CHR ''.''" "strchr ''kKmMgGbB'' c"
    | (plain) "c \<noteq> CHR ''.''" "\<not> strchr ''kKmMgGbB'' c" by blast
  then show ?thesis
  proof cases
    case decimal
    obtain v l4 where d: "scan_digits 0 l3 = (v, l4)" by (metis surj_pair)
    have "lx_pos l3 \<le> lx_max l3" using p3 s3 by (simp add: same_text_def)
    from scan_digits_pos [OF d this] have d4: "same_text l l4" "lx_pos l3 \<le> lx_pos l4" "lx_pos l4 \<le> lx_max l"
      using s3 by (auto simp: same_text_def)
    have "tok TY_DECIMAL l4 = (t, l2)" using n decimal d by (simp add: numeric_suffix_def x)
    from tok_behind [OF this d4(1) f d4(3)] show ?thesis using d4 p p3 by (auto simp: numbers_def)
  next
    case plain
    then have t: "numeric_time i c l3 = (t, l2)" using n by (simp add: numeric_suffix_def x)
    have "lx_pos l3 = lx_pos l1 + 1" using plain(2) q(2,3) by (cases "lx_pos l1 < lx_max l1") auto
    with numeric_time_pos [OF t s3 f p3(2)] p show ?thesis by auto
  next
    case size
    define r where "r = (if c \<notin> {CHR ''b'', CHR ''B''} then lex_next l3 else (c, l3))"
    obtain c2 l4 where r: "r = (c2, l4)" by (metis surj_pair)
    have q4: "same_text l3 l4" "lx_pos l3 \<le> lx_pos l4" "lx_pos l4 \<le> lx_max l"
      using r next_pos [of l3 c2 l4] p3 s3 by (auto simp: r_def same_text_def split: if_splits)
    have s4: "same_text l l4" using s3 q4(1) same_text_trans by blast
    show ?thesis
    proof (cases "c2 \<in> {CHR ''b'', CHR ''B''}")
      case True
      then have "with_i (i * size_factor c) (tok TY_SIZE l4) = (t, l2)"
        using n size r by (simp add: numeric_suffix_def x r_def)
      from with_tok_behind [OF this s4 f q4(3)] show ?thesis using q4 p p3 by (auto simp: numbers_def)
    next
      case False
      then have t: "numeric_time i c2 (lex_restart l4) = (t, l2)"
        using n size r by (simp add: numeric_suffix_def x r_def)
      have s5: "same_text l (lex_restart l4)" using s4 by simp
      have st: "lx_pos (lex_restart l4) = lx_start l" using s4 by (simp add: same_text_def)
      have "c2 = NUL" if "lx_start l + 1 = lx_max l"
      proof -
        have "lx_pos l1 = lx_max l1" using that p m by simp
        then have "c = NUL" "lx_pos l3 = lx_max l3" using q by (auto simp: same_text_def)
        then show ?thesis using r next_pos(3) [of l3 c2 l4] by (simp add: r_def)
      qed
      with numeric_time_pos [OF t s5 f] st p show ?thesis by auto
    qed
  qed
qed

lemma cfg_lex_numeric_pos:
  assumes n: "cfg_lex_numeric l = (t, l2)" and p: "0 \<le> lx_start l" "lx_pos l = lx_start l + 1" "lx_pos l \<le> lx_max l"
    and d: "isdigit (lx_src l ! nat (lx_start l))"
  shows "tk_type t = CT_ERROR \<or> behind l l2 \<and>
    (tk_type t = TY_ADDRESS \<and> lx_start l < lx_pos l2 \<or>
     tk_type t \<in> numbers \<and> lx_start l \<le> lx_pos l2 + 1 \<and> (lx_start l + 1 = lx_max l \<longrightarrow> lx_start l \<le> lx_pos l2))"
proof -
  define l0 where "l0 = l\<lparr>lx_f := Some CfgAny\<rparr>"
  have l0: "lx_pos l0 = lx_pos l" "lx_start l0 = lx_start l" "lx_max l0 = lx_max l" "lx_src l0 = lx_src l"
    "lx_f l0 = Some CfgAny" by (simp_all add: l0_def)
  have b: "behind l0 x \<longleftrightarrow> behind l x" for x by (simp add: behind_def l0)
  obtain ok l1 where g: "accept_groups 3 l0 = (ok, l1)" by (metis surj_pair)
  show ?thesis
  proof (cases ok)
    case False
    obtain v l3 where sd: "scan_digits 0 (lex_restart l1) = (v, l3)" by (metis surj_pair)
    have s1: "same_text l0 l1" using accept_groups_same [OF g] l0 p by simp
    then have r1: "same_text l0 (lex_restart l1)" by simp
    obtain c l4 where x: "lex_next (lex_restart l1) = (c, l4)" by (metis surj_pair)
    note q = next_pos [OF x]
    have eqs: "lx_pos (lex_restart l1) = lx_start l" "lx_max (lex_restart l1) = lx_max l" "lx_src (lex_restart l1) = lx_src l"
      using r1 s1 l0 by (simp_all add: same_text_def)
    have c: "c = lx_src l ! nat (lx_start l)" "lx_pos l4 = lx_start l + 1" using q(2,3) eqs p by auto
    have dg: "isdigit c" using d c(1) by simp
    then have "c \<in> set C_NUMERIC" "c \<noteq> NUL" by (simp_all add: numeric_set isdigit_not_NUL)
    then have "scan_digits (0 * 10 + of_int (digit c)) l4 = (v, l3)"
      using sd by (subst (asm) scan_digits.simps) (simp add: x)
    then have s3: "same_text l4 l3 \<and> lx_pos l4 \<le> lx_pos l3 \<and> lx_pos l3 \<le> lx_max l4"
      using q(1) c(2) p eqs by (intro scan_digits_pos) (simp_all add: same_text_def)
    have "same_text l0 l3" using s3 q(1) r1 same_text_trans by blast
    moreover have "numeric_suffix v l3 = (t, l2)" using n False g sd by (simp add: cfg_lex_numeric_def flip: l0_def)
    moreover have "lx_start l0 < lx_pos l3" "lx_pos l3 \<le> lx_max l0"
      using s3 c(2) l0 q(1) eqs by (auto simp: same_text_def)
    ultimately show ?thesis using numeric_suffix_pos [of v l3 t l2 l0] l0 b by auto
  next
    case True
    have ga: "same_text l0 l1" "lx_pos l + 3 \<le> lx_pos l1" "lx_pos l1 < lx_max l"
      using accept_groups_pos [of 3 l0 l1] g True l0 p by auto
    obtain colon l3 where o: "accept_one l1 '':'' = (colon, l3)" by (metis surj_pair)
    note q = accept_one_pos [OF o]
    have s3: "same_text l0 l3" using ga q(1) same_text_trans by blast
    show ?thesis
    proof (cases colon)
      case False
      then have "tok TY_ADDRESS l3 = (t, l2)" using n True g o by (simp add: cfg_lex_numeric_def flip: l0_def)
      from tok_behind [OF this s3 l0(5)] q(3) [OF False] ga l0 p show ?thesis by (auto simp: b split: if_splits)
    next
      case colon: True
      obtain k l4 where a: "accept_all l3 C_NUMERIC = (k, l4)" by (metis surj_pair)
      note q3 = q(2) [OF colon]
      have "lx_pos l3 \<le> lx_max l3" using q3 s3 ga l0 by (simp add: same_text_def)
      note qa = accept_all_pos [OF a this]
      have s4: "same_text l0 l4" using s3 qa same_text_trans by blast
      show ?thesis
      proof (cases "k = 0")
        case True
        then have "t = tok_none CT_ERROR" using n \<open>ok\<close> g o colon a by (simp add: cfg_lex_numeric_def flip: l0_def)
        then show ?thesis by simp
      next
        case False
        then have t: "tok TY_ADDRESS l4 = (t, l2)" using n \<open>ok\<close> g o colon a by (simp add: cfg_lex_numeric_def flip: l0_def)
        have "lx_pos l4 \<le> lx_max l0" "lx_pos l3 \<le> lx_pos l4" using qa False s3 by (auto simp: same_text_def)
        with tok_behind [OF t s4 l0(5)] show ?thesis using q3 ga l0 p by (auto simp: b)
      qed
    qed
  qed
qed


section \<open>What \<^verbatim>\<open>emit\<close> gives on any text\<close>

definition settled :: "cfg_lexer \<Rightarrow> bool" where
  "settled l \<longleftrightarrow> lx_f l = Some CfgAny \<and> lx_start l = lx_pos l \<and> 0 \<le> lx_pos l \<and> lx_pos l \<le> lx_max l"

text \<open>After a keyword there is no digit, unless the keyword has given back the last octet of the text.\<close>

definition edge :: "cfg_lexer \<Rightarrow> bool" where
  "edge l \<longleftrightarrow> lx_pos l + 1 < lx_max l \<longrightarrow> \<not> isdigit (lx_src l ! nat (lx_pos l))"

definition begins_word :: "byte \<Rightarrow> bool" where
  "begins_word c \<longleftrightarrow> \<not> isdigit c \<and> (isalnum c \<or> c = CHR ''/'')"

definition stuck :: "cfg_lexer \<Rightarrow> bool" where
  "stuck l \<longleftrightarrow> settled l \<and> lx_pos l + 1 = lx_max l \<and> begins_word (lx_src l ! nat (lx_pos l))"

definition emitted :: "cfg_lexer \<Rightarrow> cfg_type \<Rightarrow> cfg_lexer \<Rightarrow> bool" where
  "emitted l k l1 \<longleftrightarrow>
     k \<in> {CT_EOS, CT_ERROR} \<or>
     behind l l1 \<and>
       (if k \<in> numbers then lx_pos l \<le> lx_pos l1 + 1 \<and> (edge l \<longrightarrow> lx_pos l \<le> lx_pos l1)
        else if k \<in> {TY_BAREWORD, TY_ADDRESS, TY_QSTRING, CT_OPEN, CT_CLOSE, CT_TERMX} then lx_pos l < lx_pos l1
        else lx_pos l < lx_pos l1 \<and> edge l1 \<or> k = K_AUTHDB \<and> lx_pos l \<le> lx_pos l1 \<and> stuck l1)"

lemma emitted_later:
  assumes "emitted l' k l1" "behind l l'" "lx_pos l < lx_pos l'"
  shows "emitted l k l1"
  using assms(1,3) behind_same(2) [OF assms(2)] by (auto simp: emitted_def split: if_splits)

lemma first_keyword: "find_keyword v 0 KEYWORDS = Some K_AUTHDB"
  by (simp add: KEYWORDS_def)

lemma numerals_in_word: "set C_NUMERIC \<subseteq> set C_WORD"
  unfolding C_WORD_def set_append by blast

lemma keyword_kinds:
  "find_keyword v n KEYWORDS = Some k \<Longrightarrow> k \<notin> numbers \<union> {TY_BAREWORD, TY_ADDRESS, TY_QSTRING, CT_OPEN, CT_CLOSE, CT_TERMX}"
  by (simp add: KEYWORDS_def numbers_def split: if_splits)

lemma cfg_lex_bareword_pos:
  assumes b: "cfg_lex_bareword l = (t, l2)" and p: "0 \<le> lx_start l" "lx_pos l = lx_start l + 1" "lx_pos l \<le> lx_max l"
    and c: "begins_word (lx_src l ! nat (lx_start l))"
  shows "behind l l2 \<and>
    (tk_type t = TY_BAREWORD \<and> lx_start l < lx_pos l2 \<or>
     tk_type t \<notin> numbers \<union> {TY_BAREWORD, TY_ADDRESS, TY_QSTRING, CT_OPEN, CT_CLOSE, CT_TERMX} \<and>
       (lx_start l < lx_pos l2 \<and> edge l2 \<or> tk_type t = K_AUTHDB \<and> lx_pos l2 = lx_start l \<and> stuck l2))"
proof -
  define l0 where "l0 = l\<lparr>lx_f := Some CfgAny\<rparr>"
  have l0: "lx_pos l0 = lx_pos l" "lx_start l0 = lx_start l" "lx_max l0 = lx_max l" "lx_src l0 = lx_src l"
    "lx_f l0 = Some CfgAny" by (simp_all add: l0_def)
  have bh: "behind l0 x \<longleftrightarrow> behind l x" for x by (simp add: behind_def l0)
  obtain n l1 where a: "accept_all l0 C_WORD = (n, l1)" by (metis surj_pair)
  have s: "same_text l0 l1" and n: "0 \<le> n"
    and q: "lx_pos l1 = lx_pos l + n \<and> lx_pos l1 < lx_max l \<and> lx_src l ! nat (lx_pos l1) \<notin> set C_WORD - {NUL} \<or>
      lx_pos l1 = lx_max l - 1 \<and> lx_pos l + n = lx_max l"
    using accept_all_pos [OF a] l0 p by auto
  have lo: "lx_start l \<le> lx_pos l1" "lx_pos l1 \<le> lx_max l" using q n p by auto
  have eq: "lx_start l1 = lx_start l" "lx_max l1 = lx_max l" "lx_src l1 = lx_src l" "lx_f l1 = Some CfgAny"
    using s l0 by (simp_all add: same_text_def)
  define kw where "kw = find_keyword (drop (nat (lx_start l1)) (lx_src l1)) (nat (lx_pos l1 - lx_start l1)) KEYWORDS"
  have bw: "(t, l2) = (case kw of Some k \<Rightarrow> (tok_none k, lex_ignore l1) | None \<Rightarrow> tok TY_BAREWORD l1)"
    using b a by (simp add: cfg_lex_bareword_def Let_def kw_def flip: l0_def)
  have edge1: "edge (lex_ignore l1)"
  proof -
    have no: "\<not> isdigit x" if "x \<notin> set C_WORD - {NUL}" for x
      using that numerals_in_word numeric_set [of x] isdigit_not_NUL [of x] by blast
    from q consider "\<not> isdigit (lx_src l ! nat (lx_pos l1))" | "lx_pos l1 = lx_max l - 1"
      using no by blast
    then show ?thesis by cases (simp_all add: edge_def lex_ignore_def eq)
  qed
  show ?thesis
  proof (cases kw)
    case None
    then have "nat (lx_pos l1 - lx_start l1) \<noteq> 0"
      by (intro notI) (simp add: kw_def first_keyword del: nat_eq_iff)
    moreover have "tok TY_BAREWORD l1 = (t, l2)" using None bw by simp
    ultimately show ?thesis using tok_behind [OF _ s l0(5), of TY_BAREWORD t l2] lo l0 eq by (simp add: bh)
  next
    case (Some k)
    then have t: "t = tok_none k" "l2 = lex_ignore l1" using bw by simp_all
    have bl: "behind l l2" using lo eq by (simp add: t behind_def lex_ignore_def)
    have pos: "lx_pos l2 = lx_pos l1" by (simp add: t lex_ignore_def)
    note kinds = keyword_kinds [OF Some [unfolded kw_def]]
    show ?thesis
    proof (cases "lx_pos l1 = lx_start l")
      case False
      then show ?thesis using kinds bl pos lo edge1 t by simp
    next
      case True
      then have "k = K_AUTHDB" using Some eq first_keyword by (simp add: kw_def)
      moreover have "stuck l2" using True q n p c eq by (auto simp: stuck_def settled_def t lex_ignore_def)
      ultimately show ?thesis using kinds bl pos True t by simp
    qed
  qed
qed


lemma skip_line_pos:
  "lx_pos l \<le> lx_max l \<Longrightarrow> same_text l (skip_line l) \<and> lx_pos l \<le> lx_pos (skip_line l) \<and> lx_pos (skip_line l) \<le> lx_max l"
proof (induction l rule: skip_line.induct)
  case (1 l)
  obtain c l1 where n: "lex_next l = (c, l1)" by (metis surj_pair)
  note p = next_pos [OF n]
  have le: "lx_pos l1 \<le> lx_max l1" "lx_pos l \<le> lx_pos l1" "lx_pos l1 \<le> lx_max l"
    using p(1,2) "1.prems" by (auto simp: same_text_def)
  show ?case
  proof (cases "c \<noteq> NUL \<and> c \<noteq> CHR 0x0A")
    case True
    then have "skip_line l = skip_line l1" by (subst skip_line.simps) (simp add: n)
    with "1.IH" [OF n [symmetric] True le(1)] p(1) le show ?thesis by (auto simp: same_text_def)
  next
    case False
    then have "skip_line l = l1" by (subst skip_line.simps) (auto simp: n)
    with p(1) le show ?thesis by simp
  qed
qed

lemma scan_quoted_pos:
  "scan_quoted q l = (b, l') \<Longrightarrow> lx_pos l \<le> lx_max l \<Longrightarrow>
   same_text l l' \<and> lx_pos l \<le> lx_pos l' \<and> lx_pos l' \<le> lx_max l"
proof (induction q l rule: scan_quoted.induct)
  case (1 q l)
  obtain c l1 where n: "lex_next l = (c, l1)" by (metis surj_pair)
  obtain d l2 where n2: "lex_next l1 = (d, l2)" by (metis surj_pair)
  note p = next_pos [OF n] note p2 = next_pos [OF n2]
  have le: "lx_pos l1 \<le> lx_max l1" "lx_pos l \<le> lx_pos l1" "lx_pos l1 \<le> lx_max l"
    "lx_pos l2 \<le> lx_max l2" "lx_pos l1 \<le> lx_pos l2" "lx_pos l2 \<le> lx_max l"
    using p(1,2) p2(1,2) "1.prems"(2) by (auto simp: same_text_def)
  have st: "same_text l l1" "same_text l l2" using p(1) p2(1) same_text_trans by blast+
  consider "c = NUL \<or> c = q" | "c \<noteq> NUL" "c \<noteq> q" "c = CHR 0x5C" | "c \<noteq> NUL" "c \<noteq> q" "c \<noteq> CHR 0x5C" by blast
  then show ?case
  proof cases
    case 1
    then have "l' = l1" using "1.prems"(1) by (subst (asm) scan_quoted.simps) (auto simp: n split: if_splits)
    then show ?thesis using st le by simp
  next
    case 2
    then have "scan_quoted q l2 = (b, l')"
      using "1.prems"(1) by (subst (asm) scan_quoted.simps) (simp add: n n2)
    with "1.IH"(1) [OF n [symmetric] 2] le have "same_text l2 l'" "lx_pos l2 \<le> lx_pos l'" "lx_pos l' \<le> lx_max l2"
      by (simp_all add: n2)
    then show ?thesis using st le by (auto simp: same_text_def)
  next
    case 3
    then have "scan_quoted q l1 = (b, l')"
      using "1.prems"(1) by (subst (asm) scan_quoted.simps) (simp add: n)
    with "1.IH"(2) [OF n [symmetric] 3] le have "same_text l1 l'" "lx_pos l1 \<le> lx_pos l'" "lx_pos l' \<le> lx_max l1"
      by simp_all
    then show ?thesis using st le by (auto simp: same_text_def)
  qed
qed

lemma cfg_lex_qstring_pos:
  assumes b: "cfg_lex_qstring l = (t, l2)" and p: "lx_pos l = lx_start l + 1" "lx_pos l \<le> lx_max l"
  shows "tk_type t = CT_ERROR \<or> behind l l2 \<and> tk_type t = TY_QSTRING \<and> lx_start l < lx_pos l2"
proof -
  define l0 where "l0 = lex_backup (l\<lparr>lx_f := Some CfgAny\<rparr>)"
  have l0: "lx_pos l0 = lx_start l" "lx_start l0 = lx_start l" "lx_max l0 = lx_max l" "lx_src l0 = lx_src l"
    "lx_f l0 = Some CfgAny" using p by (simp_all add: l0_def lex_backup_def)
  have bh: "behind l0 x \<longleftrightarrow> behind l x" for x by (simp add: behind_def l0)
  obtain q l1 where n: "lex_next l0 = (q, l1)" by (metis surj_pair)
  obtain ended l3 where sq: "scan_quoted q l1 = (ended, l3)" by (metis surj_pair)
  note pn = next_pos [OF n]
  have p1: "lx_pos l1 = lx_start l + 1" using pn(2) l0 p by simp
  have p3: "same_text l1 l3 \<and> lx_pos l1 \<le> lx_pos l3 \<and> lx_pos l3 \<le> lx_max l1"
    using scan_quoted_pos [OF sq] p1 p pn(1) l0 by (simp add: same_text_def)
  have s3: "same_text l0 l3" using p3 pn(1) same_text_trans by blast
  show ?thesis
  proof (cases ended)
    case True
    then have t: "tok TY_QSTRING l3 = (t, l2)" using b n sq by (simp add: cfg_lex_qstring_def flip: l0_def)
    have "lx_pos l3 \<le> lx_max l0" using p3 pn(1) by (simp add: same_text_def)
    from tok_behind [OF t s3 l0(5) this] show ?thesis using p3 p1 by (simp add: bh)
  next
    case False
    then have "t = tok_none CT_ERROR" using b n sq by (simp add: cfg_lex_qstring_def flip: l0_def)
    then show ?thesis by simp
  qed
qed

lemma cfg_lex_wildcard_pos:
  assumes b: "cfg_lex_wildcard l = (t, l2)" and p: "lx_pos l = lx_start l + 1" "lx_pos l \<le> lx_max l"
  shows "tk_type t = CT_ERROR \<or> behind l l2 \<and> tk_type t = TY_ADDRESS \<and> lx_start l < lx_pos l2"
proof -
  define l0 where "l0 = l\<lparr>lx_f := Some CfgAny\<rparr>"
  have l0: "lx_pos l0 = lx_pos l" "lx_start l0 = lx_start l" "lx_max l0 = lx_max l" "lx_f l0 = Some CfgAny"
    by (simp_all add: l0_def)
  have bh: "behind l0 x \<longleftrightarrow> behind l x" for x by (simp add: behind_def l0_def)
  obtain colon l1 where o: "accept_one l0 '':'' = (colon, l1)" by (metis surj_pair)
  obtain n l3 where a: "accept_all l1 C_NUMERIC = (n, l3)" by (metis surj_pair)
  show ?thesis
  proof (cases "colon \<and> n \<noteq> 0")
    case True
    then have t: "tok TY_ADDRESS l3 = (t, l2)" using b o a by (simp add: cfg_lex_wildcard_def flip: l0_def)
    have q: "lx_pos l0 < lx_max l0 \<and> lx_pos l1 = lx_pos l0 + 1" "same_text l0 l1"
      using accept_one_pos(1,2) [OF o] True by auto
    then have "lx_pos l1 \<le> lx_max l1" by (simp add: same_text_def)
    from accept_all_pos [OF a this] True q
    have s: "same_text l0 l3" "lx_pos l1 \<le> lx_pos l3" "lx_pos l3 \<le> lx_max l0" by (auto simp: same_text_def)
    from tok_behind [OF t s(1) l0(4) s(3)] show ?thesis using s(2) q l0 p by (simp add: bh)
  next
    case False
    then have "t = tok_none CT_ERROR"
      using b o a by (auto simp: cfg_lex_wildcard_def split: if_splits simp flip: l0_def)
    then show ?thesis by simp
  qed
qed


text \<open>The octet that \<^verbatim>\<open>lex_any\<close> reads, and what it makes of it.\<close>

lemma emit_settled:
  assumes "settled l"
  shows "cfg_emit l =
    (case cfg_lex_any l of (t, l1) \<Rightarrow> if tk_type t = CT_RESTART then cfg_emit l1 else Some (t, l1))"
  using assms by (subst cfg_emit.simps) (simp add: settled_def)

lemma emit_token:
  assumes s: "settled l" and n: "lex_next l = (c, l1)" and c: "c \<noteq> NUL" "c \<noteq> CHR 0x0A" "\<not> isspace c"
  shows "cfg_emit l =
    (if c = CHR 0x7B then Some (tok_none CT_OPEN, lex_ignore l1)
     else if c = CHR 0x7D then Some (tok_none CT_CLOSE, lex_ignore l1)
     else if c = CHR '';'' then Some (tok_none CT_TERMX, lex_ignore l1)
     else if c = CHR ''#'' then cfg_emit (lex_ignore (l1\<lparr>lx_f := Some CfgComment\<rparr>))
     else if c = CHR 0x27 \<or> c = CHR 0x22 then cfg_emit (l1\<lparr>lx_f := Some CfgQstring\<rparr>)
     else if isdigit c then cfg_emit (l1\<lparr>lx_f := Some CfgNumeric\<rparr>)
     else if isalnum c \<or> c = CHR ''/'' then cfg_emit (l1\<lparr>lx_f := Some CfgBareword\<rparr>)
     else if c = CHR ''*'' then cfg_emit (l1\<lparr>lx_f := Some CfgWildcard\<rparr>)
     else Some (tok_none CT_ERROR, l1\<lparr>lx_f := None\<rparr>))"
  unfolding emit_settled [OF s] cfg_lex_any.simps [of l] n prod.case
  by (simp only: c if_False if_distrib [where f = "\<lambda>r. case r of (t, l1) \<Rightarrow> if tk_type t = CT_RESTART then cfg_emit l1 else Some (t, l1)"]
      prod.case tok_type cfg_type.distinct simp_thms if_True)

lemma cfg_emit_blank:
  assumes s: "settled l" and n: "lex_next l = (c, l1)" and c: "c \<noteq> NUL" "isspace c"
  shows "\<exists>l2. cfg_emit l = cfg_emit l2 \<and> settled l2 \<and> behind l l2 \<and> lx_pos l2 = lx_pos l + 1"
proof -
  define l2 where "l2 = (if c = CHR 0x0A then (lex_ignore l1)\<lparr>lx_line := lx_line l1 + 1, lx_col := 0\<rparr> else lex_ignore l1)"
  have any: "cfg_lex_any l = cfg_lex_any l2" using c by (subst cfg_lex_any.simps) (simp add: n l2_def)
  have lt: "lx_pos l < lx_max l" using next_pos(3) [OF n] c(1) by (auto split: if_splits)
  have l2: "lx_pos l2 = lx_pos l + 1" "lx_start l2 = lx_pos l + 1" "same_text l l1" "lx_f l2 = lx_f l1"
    "lx_src l2 = lx_src l1" "lx_max l2 = lx_max l1"
    using next_pos(1,2) [OF n] lt by (auto simp: l2_def lex_ignore_def)
  have "settled l2" "behind l l2" using l2 s lt by (auto simp: settled_def behind_def same_text_def)
  moreover have "cfg_emit l = cfg_emit l2" by (simp only: emit_settled [OF s] emit_settled [OF \<open>settled l2\<close>] any)
  ultimately show ?thesis using l2(1) by blast
qed

lemma emit_fn:
  assumes "lx_f l = Some f" "cfg_lex f l = (t, l1)" "tk_type t \<noteq> CT_RESTART"
  shows "cfg_emit l = Some (t, l1)"
  using assms by (subst cfg_emit.simps) simp

lemma cfg_emit_comment:
  assumes s: "settled l" and n: "lex_next l = (CHR ''#'', l1)"
  shows "\<exists>l2. cfg_emit l = cfg_emit l2 \<and> settled l2 \<and> behind l l2 \<and> lx_pos l < lx_pos l2"
proof -
  define l2 where "l2 = lex_ignore (l1\<lparr>lx_f := Some CfgComment\<rparr>)"
  define l3 where "l3 = skip_line l2"
  define l4 where "l4 = (lex_ignore (l3\<lparr>lx_line := lx_line l3 + 1\<rparr>))\<lparr>lx_f := Some CfgAny\<rparr>"
  have sp: "\<not> isspace (CHR ''#'')" by (simp add: isspace_def uchar_def)
  have e1: "cfg_emit l = cfg_emit l2" using emit_token [OF s n] sp by (simp add: l2_def)
  have "cfg_lex CfgComment l2 = (tok_none CT_RESTART, l4)" by (simp add: cfg_lex_comment_def Let_def l3_def l4_def)
  then have e2: "cfg_emit l2 = cfg_emit l4"
    by (subst cfg_emit.simps) (simp add: l2_def lex_ignore_def)
  have lt: "lx_pos l < lx_max l" using next_pos(3) [OF n] by (auto split: if_splits)
  have l2: "lx_pos l2 = lx_pos l + 1" "lx_src l2 = lx_src l" "lx_max l2 = lx_max l"
    using next_pos(1,2) [OF n] lt by (auto simp: l2_def lex_ignore_def same_text_def)
  have l3: "same_text l2 l3 \<and> lx_pos l2 \<le> lx_pos l3 \<and> lx_pos l3 \<le> lx_max l2"
    unfolding l3_def using lt l2 by (intro skip_line_pos) simp
  have l4: "lx_pos l4 = lx_pos l3" "lx_start l4 = lx_pos l3" "lx_src l4 = lx_src l" "lx_max l4 = lx_max l" "lx_f l4 = Some CfgAny"
    using l2 l3 by (simp_all add: l4_def lex_ignore_def same_text_def)
  show ?thesis
    by (rule exI [of _ l4]) (use l4 l3 l2 s in \<open>simp add: e1 e2 settled_def behind_def\<close>)
qed

lemma emit_emitted:
  "settled l \<Longrightarrow> \<exists>t l1. cfg_emit l = Some (t, l1) \<and> emitted l (tk_type t) l1"
proof (induction "nat (lx_max l - lx_pos l)" arbitrary: l rule: less_induct)
  case less
  note s = less.prems
  obtain c l1 where n: "lex_next l = (c, l1)" by (metis surj_pair)
  note p = next_pos [OF n]
  have on: "\<exists>t l1. cfg_emit l = Some (t, l1) \<and> emitted l (tk_type t) l1"
    if e: "cfg_emit l = cfg_emit l2" and b: "settled l2" "behind l l2" "lx_pos l < lx_pos l2" for l2
  proof -
    have "nat (lx_max l2 - lx_pos l2) < nat (lx_max l - lx_pos l)"
      using b by (simp add: settled_def behind_def)
    from less.hyps [OF this b(1)] show ?thesis using e emitted_later [OF _ b(2,3)] by auto
  qed
  consider (eos) "c = NUL" | (blank) "c \<noteq> NUL" "isspace c" | (comment) "c = CHR ''#''"
    | (token) "c \<noteq> NUL" "\<not> isspace c" "c \<noteq> CHR ''#''" by blast
  then show ?case
  proof cases
    case eos
    then have "cfg_lex_any l = (tok_none CT_EOS, l1\<lparr>lx_f := None\<rparr>)" by (subst cfg_lex_any.simps) (simp add: n)
    then show ?thesis by (simp add: emit_settled [OF s] emitted_def)
  next
    case blank
    from cfg_emit_blank [OF s n blank] on show ?thesis by auto
  next
    case comment
    from cfg_emit_comment [OF s] n on show ?thesis by (metis comment)
  next
    case token
    have nl: "c \<noteq> CHR 0x0A" using token(2) char_kinds by auto
    note tk = emit_token [OF s n token(1) nl token(2)]
    have lt: "lx_pos l < lx_max l" using p(3) token(1) by (auto split: if_splits)
    have l1: "lx_pos l1 = lx_pos l + 1" "lx_start l1 = lx_pos l" "lx_src l1 = lx_src l" "lx_max l1 = lx_max l"
      "lx_f l1 = Some CfgAny" and c: "lx_src l1 ! nat (lx_start l1) = c"
      using p lt s by (auto simp: same_text_def settled_def)
    have pos: "0 \<le> lx_start l1" "lx_pos l1 = lx_start l1 + 1" "lx_pos l1 \<le> lx_max l1" using l1 lt s by (auto simp: settled_def)
    have bh: "behind (l1\<lparr>lx_f := f\<rparr>) x \<longleftrightarrow> behind l x" for f x using l1 by (simp add: behind_def)
    have punct: "behind l (lex_ignore l1) \<and> lx_pos l < lx_pos (lex_ignore l1)"
      using l1 lt by (simp add: behind_def lex_ignore_def)
    consider (punct) k where "k \<in> {CT_OPEN, CT_CLOSE, CT_TERMX}" "cfg_emit l = Some (tok_none k, lex_ignore l1)"
      | (q) "cfg_emit l = cfg_emit (l1\<lparr>lx_f := Some CfgQstring\<rparr>)"
      | (num) "cfg_emit l = cfg_emit (l1\<lparr>lx_f := Some CfgNumeric\<rparr>)" "isdigit c"
      | (word) "cfg_emit l = cfg_emit (l1\<lparr>lx_f := Some CfgBareword\<rparr>)" "begins_word c"
      | (wild) "cfg_emit l = cfg_emit (l1\<lparr>lx_f := Some CfgWildcard\<rparr>)"
      | (err) "cfg_emit l = Some (tok_none CT_ERROR, l1\<lparr>lx_f := None\<rparr>)"
      using tk token(3) by (auto simp: begins_word_def split: if_split_asm)
    then show ?thesis
    proof cases
      case punct
      then show ?thesis using \<open>behind l (lex_ignore l1) \<and> lx_pos l < lx_pos (lex_ignore l1)\<close>
        by (auto simp: emitted_def numbers_def)
    next
      case q
      obtain t l2 where x: "cfg_lex_qstring (l1\<lparr>lx_f := Some CfgQstring\<rparr>) = (t, l2)" by (metis surj_pair)
      from cfg_lex_qstring_pos [OF x] pos l1 bh
      have y: "tk_type t = CT_ERROR \<or> behind l l2 \<and> tk_type t = TY_QSTRING \<and> lx_pos l < lx_pos l2" by simp
      then have "emitted l (tk_type t) l2" "tk_type t \<noteq> CT_RESTART" by (auto simp: emitted_def numbers_def)
      moreover from this(2) x have "cfg_emit l = Some (t, l2)" unfolding q by (intro emit_fn [where f = CfgQstring]) simp_all
      ultimately show ?thesis by blast
    next
      case wild
      obtain t l2 where x: "cfg_lex_wildcard (l1\<lparr>lx_f := Some CfgWildcard\<rparr>) = (t, l2)" by (metis surj_pair)
      from cfg_lex_wildcard_pos [OF x] pos l1 bh
      have y: "tk_type t = CT_ERROR \<or> behind l l2 \<and> tk_type t = TY_ADDRESS \<and> lx_pos l < lx_pos l2" by simp
      then have "emitted l (tk_type t) l2" "tk_type t \<noteq> CT_RESTART" by (auto simp: emitted_def numbers_def)
      moreover from this(2) x have "cfg_emit l = Some (t, l2)" unfolding wild by (intro emit_fn [where f = CfgWildcard]) simp_all
      ultimately show ?thesis by blast
    next
      case num
      obtain t l2 where x: "cfg_lex_numeric (l1\<lparr>lx_f := Some CfgNumeric\<rparr>) = (t, l2)" by (metis surj_pair)
      from cfg_lex_numeric_pos [OF x] pos l1 bh c num(2)
      have y: "tk_type t = CT_ERROR \<or> behind l l2 \<and> (tk_type t = TY_ADDRESS \<and> lx_pos l < lx_pos l2 \<or>
          tk_type t \<in> numbers \<and> lx_pos l \<le> lx_pos l2 + 1 \<and> (lx_pos l + 1 = lx_max l \<longrightarrow> lx_pos l \<le> lx_pos l2))"
        by simp
      have "edge l \<Longrightarrow> lx_pos l + 1 = lx_max l" using num(2) c l1 lt by (force simp: edge_def)
      with y have "emitted l (tk_type t) l2" by (auto simp: emitted_def numbers_def)
      moreover have "tk_type t \<noteq> CT_RESTART" using y by (auto simp: numbers_def)
      moreover from this x have "cfg_emit l = Some (t, l2)" unfolding num(1) by (intro emit_fn [where f = CfgNumeric]) simp_all
      ultimately show ?thesis by blast
    next
      case word
      obtain t l2 where x: "cfg_lex_bareword (l1\<lparr>lx_f := Some CfgBareword\<rparr>) = (t, l2)" by (metis surj_pair)
      from cfg_lex_bareword_pos [OF x] pos l1 bh c word(2)
      have y: "behind l l2 \<and> (tk_type t = TY_BAREWORD \<and> lx_pos l < lx_pos l2 \<or>
          tk_type t \<notin> numbers \<union> {TY_BAREWORD, TY_ADDRESS, TY_QSTRING, CT_OPEN, CT_CLOSE, CT_TERMX} \<and>
          (lx_pos l < lx_pos l2 \<and> edge l2 \<or> tk_type t = K_AUTHDB \<and> lx_pos l2 = lx_pos l \<and> stuck l2))" by simp
      then have "emitted l (tk_type t) l2" by (auto simp: emitted_def numbers_def)
      moreover have "tk_type t \<noteq> CT_RESTART" using bareword_type [of "l1\<lparr>lx_f := Some CfgBareword\<rparr>"] by (simp add: x)
      moreover from this x have "cfg_emit l = Some (t, l2)" unfolding word(1) by (intro emit_fn [where f = CfgBareword]) simp_all
      ultimately show ?thesis by blast
    next
      case err
      then show ?thesis by (simp add: emitted_def)
    qed
  qed
qed


lemma emit_stuck:
  assumes "stuck l"
  shows "\<exists>t l1. cfg_emit l = Some (t, l1) \<and> tk_type t = K_AUTHDB"
proof -
  have s: "settled l" and e: "lx_pos l + 1 = lx_max l" and b: "begins_word (lx_src l ! nat (lx_pos l))"
    using assms by (simp_all add: stuck_def)
  obtain c l1 where n: "lex_next l = (c, l1)" by (metis surj_pair)
  note p = next_pos [OF n]
  have c: "c = lx_src l ! nat (lx_pos l)" "lx_pos l1 = lx_max l" "same_text l l1" using p e by auto
  define l0 where "l0 = l1\<lparr>lx_f := Some CfgAny\<rparr>"
  obtain k l2 where a: "accept_all l0 C_WORD = (k, l2)" by (metis surj_pair)
  have "lx_pos l0 \<le> lx_max l0" using c by (simp add: l0_def same_text_def)
  from accept_all_pos [OF a this] have "lx_pos l2 - lx_start l2 = 0"
    using c e s by (auto simp: l0_def same_text_def settled_def)
  then have bw: "cfg_lex_bareword (l1\<lparr>lx_f := Some CfgBareword\<rparr>) = (tok_none K_AUTHDB, lex_ignore l2)"
    using a by (simp add: cfg_lex_bareword_def Let_def first_keyword flip: l0_def)
  have bc: "begins_word c" using b c by simp
  have nsp: "c \<noteq> NUL" "\<not> isspace c" "c \<noteq> CHR 0x0A" "c \<notin> {CHR 0x7B, CHR 0x7D, CHR '';'', CHR ''#'', CHR 0x27, CHR 0x22}"
    using bc by (auto simp: begins_word_def isalnum_def isalpha_def isspace_def uchar_def)
  have "cfg_emit l = cfg_emit (l1\<lparr>lx_f := Some CfgBareword\<rparr>)"
    using emit_token [OF s n nsp(1,3,2)] nsp(4) bc by (simp add: begins_word_def)
  also have "\<dots> = Some (tok_none K_AUTHDB, lex_ignore l2)" by (rule emit_fn [where f = CfgBareword]) (simp_all add: bw)
  finally show ?thesis by simp
qed


section \<open>The parser stops\<close>

text \<open>
  The outcome of one parser function: an error, the end, or a parser whose lexer has moved on.
\<close>

definition moves_on :: "cfg_parser \<Rightarrow> (int \<times> cfg_parser) option \<Rightarrow> bool" where
  "moves_on p r \<longleftrightarrow>
     (\<exists>rc p1. r = Some (rc, p1) \<and>
        (rc = 0 \<longrightarrow> pc_f p1 = None \<or> settled (pc_l p1) \<and> behind (pc_l p) (pc_l p1) \<and> lx_pos (pc_l p) < lx_pos (pc_l p1)))"

lemma next_tok_settled:
  assumes "settled (pc_l p)"
  shows "\<exists>t l. next_tok p = Some (t, p\<lparr>pc_l := l\<rparr>) \<and> emitted (pc_l p) (tk_type t) l"
  using emit_emitted [OF assms] by (auto simp: next_tok_def)

text \<open>After a first token that is accepted: the lexer has moved and stands at an edge, or is stuck.\<close>

definition advanced :: "cfg_lexer \<Rightarrow> cfg_lexer \<Rightarrow> bool" where
  "advanced l l1 \<longleftrightarrow> settled l1 \<and> behind l l1 \<and> (lx_pos l < lx_pos l1 \<and> edge l1 \<or> stuck l1)"

lemma emitted_keyword:
  assumes "settled l" "emitted l k l1"
    "k \<notin> numbers \<union> {CT_EOS, CT_ERROR, TY_BAREWORD, TY_ADDRESS, TY_QSTRING, CT_OPEN, CT_CLOSE, CT_TERMX}"
  shows "advanced l l1"
  using assms by (auto simp: emitted_def advanced_def settled_def behind_def)

lemma emitted_punct:
  assumes "settled l" "emitted l k l1" "k \<in> {TY_BAREWORD, TY_ADDRESS, TY_QSTRING, CT_OPEN, CT_CLOSE, CT_TERMX}"
  shows "settled l1 \<and> behind l l1 \<and> lx_pos l < lx_pos l1"
  using assms by (auto simp: emitted_def settled_def behind_def numbers_def)

text \<open>The token after an accepted keyword: \<open>authdb\<close> again when the lexer is stuck.\<close>

lemma second_tok:
  assumes a: "advanced l (pc_l p)" and l: "settled l"
  shows "\<exists>t l2. next_tok p = Some (t, p\<lparr>pc_l := l2\<rparr>) \<and>
    (tk_type t \<in> {K_AUTHDB, CT_EOS, CT_ERROR} \<or> settled l2 \<and> behind l l2 \<and> lx_pos l < lx_pos l2)"
proof (cases "stuck (pc_l p)")
  case True
  from emit_stuck [OF this] show ?thesis by (auto simp: next_tok_def)
next
  case False
  with a have s: "settled (pc_l p)" "behind l (pc_l p)" "lx_pos l < lx_pos (pc_l p)" "edge (pc_l p)"
    by (auto simp: advanced_def)
  from next_tok_settled [OF s(1)] obtain t l2
    where n: "next_tok p = Some (t, p\<lparr>pc_l := l2\<rparr>)" and e: "emitted (pc_l p) (tk_type t) l2" by blast
  have "tk_type t \<in> {K_AUTHDB, CT_EOS, CT_ERROR} \<or> settled l2 \<and> behind l l2 \<and> lx_pos l < lx_pos l2"
    using e s behind_same(2) [OF s(2)] l by (auto simp: emitted_def settled_def behind_def split: if_split_asm)
  with n show ?thesis by blast
qed

lemma with_string_moves:
  assumes "advanced (pc_l p0) (pc_l p)" "settled (pc_l p0)" "\<And>s q. pc_l (store s q) = pc_l q"
  shows "moves_on p0 (with_string p store)"
  using second_tok [OF assms(1,2)] assms(3)
  by (auto simp: with_string_def moves_on_def cfg_as_string_def split: cfg_type.splits)

lemma with_int_moves:
  assumes "advanced (pc_l p0) (pc_l p)" "settled (pc_l p0)" "\<And>s q. pc_l (store s q) = pc_l q"
    "types \<subseteq> {TY_INTEGER, TY_TIME, TY_SIZE}"
  shows "moves_on p0 (with_int p types least store)"
  using second_tok [OF assms(1,2)] assms(3,4)
  by (auto simp: with_int_def moves_on_def)

lemma with_open_moves:
  assumes "advanced (pc_l p0) (pc_l p)" "settled (pc_l p0)"
  shows "moves_on p0 (with_open p f)"
  using second_tok [OF assms] by (auto simp: with_open_def moves_on_def)


lemma with_open_settled:
  assumes "settled (pc_l p)" "behind (pc_l p0) (pc_l p)" "lx_pos (pc_l p0) \<le> lx_pos (pc_l p)"
  shows "moves_on p0 (with_open p f)"
proof -
  from next_tok_settled [OF assms(1)] obtain t l2
    where n: "next_tok p = Some (t, p\<lparr>pc_l := l2\<rparr>)" and e: "emitted (pc_l p) (tk_type t) l2" by blast
  show ?thesis
  proof (cases "tk_type t = CT_OPEN")
    case True
    then have "settled l2 \<and> behind (pc_l p) l2 \<and> lx_pos (pc_l p) < lx_pos l2"
      by (intro emitted_punct [OF assms(1) e]) (simp add: True)
    then show ?thesis using n True behind_same(2) [OF assms(2)] assms(3)
      by (auto simp: with_open_def moves_on_def)
  qed (simp add: with_open_def moves_on_def n)
qed

lemma cfg_backend_of_lexer [simp]: "pc_l (cfg_backend_of p i) = pc_l p"
  by (simp add: cfg_backend_of_def split: option.splits)

lemma on_current_lexer [simp]: "pc_l (on_current f p) = pc_l p"
  by (simp add: on_current_def)

lemma parse_scope_moves:
  assumes a: "advanced (pc_l p0) (pc_l p)" and l: "settled (pc_l p0)"
  shows "moves_on p0 (parse_scope p)"
proof -
  from second_tok [OF a l] obtain t l2 where n: "next_tok p = Some (t, p\<lparr>pc_l := l2\<rparr>)"
    and k: "tk_type t \<in> {K_AUTHDB, CT_EOS, CT_ERROR} \<or>
      settled l2 \<and> behind (pc_l p0) l2 \<and> lx_pos (pc_l p0) < lx_pos l2" by blast
  have o: "moves_on p0 (with_open (cfg_backend_of (p\<lparr>pc_l := l2\<rparr>) i) ParseBackend)"
    if "tk_type t \<notin> {K_AUTHDB, CT_EOS, CT_ERROR}" for i
    using k that by (intro with_open_settled) auto
  show ?thesis
  proof (cases "tk_type t = K_DEFAULT \<or> (\<exists>s. cfg_as_string t = Some s)")
    case False
    then have "parse_scope p = Some (-1, p\<lparr>pc_l := l2\<rparr>)"
      by (cases "cfg_as_string t") (simp_all add: parse_scope_def n)
    then show ?thesis by (simp add: moves_on_def)
  next
    case True
    then have "tk_type t \<notin> {K_AUTHDB, CT_EOS, CT_ERROR}" by (auto simp: cfg_as_string_def)
    with True o show ?thesis by (auto simp: parse_scope_def n)
  qed
qed

lemma parse_loglevel_moves:
  assumes "advanced (pc_l p0) (pc_l p)" "settled (pc_l p0)"
  shows "moves_on p0 (parse_loglevel p)"
  using second_tok [OF assms] by (auto simp: parse_loglevel_def moves_on_def split: cfg_type.splits)

lemma parse_tls_mode_moves:
  assumes "advanced (pc_l p0) (pc_l p)" "settled (pc_l p0)"
  shows "moves_on p0 (parse_tls_mode p)"
  using second_tok [OF assms] by (auto simp: parse_tls_mode_def moves_on_def split: cfg_type.splits)

lemma parse_weight_moves:
  assumes "advanced (pc_l p0) (pc_l p)" "settled (pc_l p0)"
  shows "moves_on p0 (parse_weight cents p)"
  using second_tok [OF assms] by (auto simp: parse_weight_def moves_on_def Let_def)

lemmas second_moves = with_string_moves with_int_moves with_open_moves parse_scope_moves
  parse_loglevel_moves parse_tls_mode_moves parse_weight_moves

text \<open>The first token of a directive, and what the parser functions do with it.\<close>

lemma first_tok:
  assumes "settled (pc_l p)"
  obtains t l where "next_tok p = Some (t, p\<lparr>pc_l := l\<rparr>)"
    "tk_type t \<notin> numbers \<union> {CT_EOS, CT_ERROR, TY_BAREWORD, TY_ADDRESS, TY_QSTRING, CT_OPEN, CT_CLOSE, CT_TERMX} \<Longrightarrow>
       advanced (pc_l p) (pc_l (p\<lparr>pc_l := l\<rparr>))"
    "tk_type t \<in> {CT_CLOSE, CT_TERMX} \<Longrightarrow> settled l \<and> behind (pc_l p) l \<and> lx_pos (pc_l p) < lx_pos l"
proof -
  from next_tok_settled [OF assms] obtain t l
    where n: "next_tok p = Some (t, p\<lparr>pc_l := l\<rparr>)" and e: "emitted (pc_l p) (tk_type t) l" by blast
  show ?thesis
    by (rule that [OF n]) (use emitted_keyword [OF assms e] emitted_punct [OF assms e] in auto)
qed

lemma parse_step_moves:
  assumes s: "settled (pc_l p)" shows "moves_on p (parse_step cents f p)"
proof -
  from first_tok [OF s] obtain t l where n: "next_tok p = Some (t, p\<lparr>pc_l := l\<rparr>)"
    and a: "tk_type t \<notin> numbers \<union> {CT_EOS, CT_ERROR, TY_BAREWORD, TY_ADDRESS, TY_QSTRING, CT_OPEN, CT_CLOSE, CT_TERMX} \<Longrightarrow>
       advanced (pc_l p) (pc_l (p\<lparr>pc_l := l\<rparr>))"
    and c: "tk_type t \<in> {CT_CLOSE, CT_TERMX} \<Longrightarrow> settled l \<and> behind (pc_l p) l \<and> lx_pos (pc_l p) < lx_pos l" by blast
  note m = second_moves [OF a s] and st = moves_on_def [of _ "Some _"] numbers_def
  show ?thesis
  proof (cases f)
    case ParseTop
    show ?thesis by (cases "tk_type t"; simp add: ParseTop parse_top_def n) (simp_all add: m st)
  next
    case ParseBackend
    show ?thesis by (cases "tk_type t"; simp add: ParseBackend parse_backend_def n) (simp_all add: m c st)
  next
    case ParseHealth
    show ?thesis by (cases "tk_type t"; simp add: ParseHealth parse_health_def n) (simp_all add: m c st)
  next
    case ParseTls
    show ?thesis by (cases "tk_type t"; simp add: ParseTls parse_tls_def n) (simp_all add: m c st)
  qed
qed

lemma cfg_parse_returns: "settled (pc_l p) \<Longrightarrow> \<exists>p1. cfg_parse cents p = Some (0, p1)"
proof (induction "nat (lx_max (pc_l p) - lx_pos (pc_l p))" arbitrary: p rule: less_induct)
  case less
  show ?case
  proof (cases "pc_f p")
    case None
    then show ?thesis by (subst cfg_parse.simps) simp
  next
    case (Some f)
    from parse_step_moves [OF less.prems, of cents f] obtain rc p1
      where st: "parse_step cents f p = Some (rc, p1)"
        and m: "rc = 0 \<Longrightarrow> pc_f p1 = None \<or> settled (pc_l p1) \<and> behind (pc_l p) (pc_l p1) \<and>
          lx_pos (pc_l p) < lx_pos (pc_l p1)"
      by (auto simp: moves_on_def)
    consider "rc \<noteq> 0" | "rc = 0" "pc_f p1 = None"
      | "rc = 0" "settled (pc_l p1)" "nat (lx_max (pc_l p1) - lx_pos (pc_l p1)) < nat (lx_max (pc_l p) - lx_pos (pc_l p))"
      using m by (cases "rc = 0") (auto simp: behind_def settled_def)
    then show ?thesis
    proof cases
      case 1
      then show ?thesis by (subst cfg_parse.simps) (simp add: Some st)
    next
      case 2
      then have "cfg_parse cents p1 = Some (0, p1)" by (subst cfg_parse.simps) simp
      then show ?thesis using 2(1) by (subst cfg_parse.simps) (simp add: Some st)
    next
      case 3
      from less.hyps [OF 3(3,2)] show ?thesis using 3(1) by (subst cfg_parse.simps) (simp add: Some st)
    qed
  qed
qed

lemma parser_init_settled: "cfg_parser_init io = Some p \<Longrightarrow> settled (pc_l p)"
  by (auto simp: cfg_parser_init_def lexer_init_def settled_def split: option.splits if_splits)

lemma startup_all_start: "\<exists>c1. startup_all False xs p c = Ret c1"
proof (induction xs arbitrary: c)
  case (Cons x xs)
  obtain new old store where x: "x = (new, old, store)" by (metis surj_pair)
  have "\<exists>v. startup False (new p) (old c) = Ret v" by (simp add: startup_def split: option.splits)
  then show ?case using Cons.IH by (auto simp: x)
qed simp

lemma configure_parsed:
  assumes "fs path = Some io" "cfg_parser_init io = Some p0"
  shows "\<exists>p. pgr_configure fs cents c path reload =
    (case startup_all reload startup_settings p (update_settings p c) of
       Crash \<Rightarrow> Some Crash | Ret c1 \<Rightarrow> Some (Ret (configure_backends reload p c1)))"
  using cfg_parse_returns [OF parser_init_settled [OF assms(2)], of cents] assms by (auto simp: pgr_configure_def)


end
