(* ===== verification/Daemon_Laws.thy ===== *)
theory Daemon_Laws
  imports Daemon
begin

text \<open>
  Going into the background: what holds of the process that goes on, and what a failed phase
  leaves behind.
\<close>

section \<open>Phases in sequence\<close>

lemma run_phases_Cons:
  "run_phases (f # fs) p = (p2, Goes_on ()) \<longleftrightarrow>
     (\<exists>p1. f p = (p1, Goes_on ()) \<and> run_phases fs p1 = (p2, Goes_on ()))"
  by (auto split: prod.splits ended.splits)

text \<open>What each phase has done when the next one is reached.\<close>

named_theorems phase_done

lemma enter_root_done [phase_done]:
  "enter_root sy p = (p1, Goes_on ()) \<longleftrightarrow> sy_chdir sy = 0 \<and> p1 = p\<lparr>ps_cwd := ''/''\<rparr>"
  by (auto simp: enter_root_def)

lemma parent_ends: "parent_reads ns \<noteq> Goes_on ()"
  by (induction ns) auto

lemma fork_child_done [phase_done]:
  "fork_child sy p = (p1, Goes_on ()) \<longleftrightarrow>
     sy_pipe sy = 0 \<and> sy_fork sy = 0 \<and> p1 = p\<lparr>ps_locked := False, ps_leader := False\<rparr>"
  using parent_ends by (auto simp: fork_child_def)

lemma lock_pidfile_done [phase_done]:
  "lock_pidfile sy pf p = (p1, Goes_on ()) \<longleftrightarrow>
     (pf \<noteq> None \<longrightarrow> sy_lock sy \<noteq> -1) \<and> p1 = (if pf = None then p else p\<lparr>ps_locked := True\<rparr>)"
  by (auto simp: lock_pidfile_def split: option.splits)

lemma new_session_done [phase_done]:
  "new_session sy p = (p1, Goes_on ()) \<longleftrightarrow> sy_setsid sy \<noteq> -1 \<and> p1 = p\<lparr>ps_leader := True\<rparr>"
  by (auto simp: new_session_def)

definition pid_written :: "sys_answers \<Rightarrow> process \<Rightarrow> bytes" where
  "pid_written sy p = overwrite (take (nat (sy_write sy)) (pid_text (sy_getpid sy)))
     (case ps_pidfile p of None \<Rightarrow> [] | Some b \<Rightarrow> b)"

lemma write_pid_done [phase_done]:
  "write_pid sy pf p = (p1, Goes_on ()) \<longleftrightarrow>
     (pf \<noteq> None \<longrightarrow> sy_write sy < 0 \<or> int (length (pid_text (sy_getpid sy))) \<le> sy_write sy) \<and>
     p1 = (if pf = None then p else p\<lparr>ps_pidfile := Some (pid_written sy p)\<rparr>)"
  by (auto simp: write_pid_def Let_def pid_written_def split: option.splits)

lemma give_pidfile_done [phase_done]:
  "give_pidfile sy pf uid gid p = (p1, Goes_on ()) \<longleftrightarrow>
     (pf \<noteq> None \<and> ps_uid p = 0 \<longrightarrow> sy_fchown sy = 0) \<and>
     p1 = (if pf \<noteq> None \<and> ps_uid p = 0 then p\<lparr>ps_owner := (uid, gid)\<rparr> else p)"
  by (auto simp: give_pidfile_def split: option.splits)

lemma switch_group_done [phase_done]:
  "switch_group sy pf g gid p = (p1, Goes_on ()) \<longleftrightarrow>
     (ps_uid p = 0 \<and> gid \<noteq> ps_gid p \<longrightarrow> sy_setgid sy = 0) \<and>
     p1 = (if ps_uid p = 0 then p\<lparr>ps_gid := gid\<rparr> else p)"
  by (auto simp: switch_group_def)

lemma switch_user_done [phase_done]:
  "switch_user sy pf u uid p = (p1, Goes_on ()) \<longleftrightarrow>
     (ps_uid p = 0 \<and> uid \<noteq> ps_uid p \<longrightarrow> sy_setuid sy = 0) \<and>
     p1 = (if ps_uid p = 0 then p\<lparr>ps_uid := uid\<rparr> else p)"
  by (auto simp: switch_user_def)

lemma redirect_done [phase_done]:
  "redirect sy p = (p1, Goes_on ()) \<longleftrightarrow> p1 = p\<lparr>ps_null := sy_freopen sy\<rparr>"
  by (auto simp: redirect_def)

section \<open>The process that goes on\<close>

text \<open>The file after \<open>open_pidfile\<close>.\<close>

definition old_pidfile :: "process \<Rightarrow> bytes" where
  "old_pidfile p = (case ps_pidfile p of None \<Rightarrow> [] | Some b \<Rightarrow> b)"

definition daemon_of :: "sys_answers \<Rightarrow> bytes option \<Rightarrow> int \<Rightarrow> int \<Rightarrow> process \<Rightarrow> process \<Rightarrow> bool" where
  "daemon_of sy pidfile uid gid p p1 \<longleftrightarrow>
     ps_cwd p1 = ''/'' \<and> ps_umask p1 = 0 \<and> ps_leader p1 \<and> ps_null p1 = sy_freopen sy \<and>
     (ps_uid p = 0 \<longrightarrow> ps_uid p1 = uid \<and> ps_gid p1 = gid) \<and>
     (ps_uid p \<noteq> 0 \<longrightarrow> ps_uid p1 = ps_uid p \<and> ps_gid p1 = ps_gid p) \<and>
     (pidfile \<noteq> None \<longrightarrow> ps_locked p1 \<and> (ps_uid p = 0 \<longrightarrow> ps_owner p1 = (uid, gid)) \<and>
        (0 \<le> sy_write sy \<longrightarrow> ps_pidfile p1 = Some (overwrite (pid_text (sy_getpid sy)) (old_pidfile p))))"

lemma open_pidfile_done:
  "open_pidfile sy pf p = (p1, Goes_on ()) \<Longrightarrow>
     ps_uid p1 = ps_uid p \<and> ps_gid p1 = ps_gid p \<and> ps_umask p1 = 0 \<and> old_pidfile p1 = old_pidfile p"
  by (auto simp: open_pidfile_def Let_def old_pidfile_def split: option.splits if_splits)

lemma background_done:
  assumes "background sy pf u uid g gid p = (p1, Goes_on ())" "ps_umask p = 0"
  shows "daemon_of sy pf uid gid p p1"
proof -
  have eq: "daemon_of sy pf uid gid p p1 \<longleftrightarrow>
      (pf \<noteq> None \<longrightarrow> 0 \<le> sy_write sy \<longrightarrow>
         pid_written sy p = overwrite (pid_text (sy_getpid sy)) (old_pidfile p))" and
    w: "pf \<noteq> None \<Longrightarrow> sy_write sy < 0 \<or> int (length (pid_text (sy_getpid sy))) \<le> sy_write sy"
    using assms unfolding background_def run_phases_Cons phase_done run_phases.simps(1)
    by (cases pf; cases "ps_uid p = 0"; clarsimp simp: daemon_of_def pid_written_def)+
  show ?thesis using w unfolding eq by (auto simp: pid_written_def old_pidfile_def)
qed

lemma daemonize_done:
  assumes "daemonize sy pf user grp p = (p1, Goes_on ())"
  shows "\<exists>u uid g gid. user = Some u \<and> sy_passwd sy u = Some uid \<and> grp = Some g \<and> sy_group sy g = Some gid \<and>
    daemon_of sy pf uid gid p p1"
proof -
  obtain p0 r where o: "open_pidfile sy pf p = (p0, r)" by (metis surj_pair)
  with assms obtain u uid g gid where ids: "r = Goes_on ()" "find_id (sy_passwd sy) user = Goes_on (u, uid)"
      "find_id (sy_group sy) grp = Goes_on (g, gid)" and b: "background sy pf u uid g gid p0 = (p1, Goes_on ())"
    by (auto simp: daemonize_def split: ended.splits)
  note od = open_pidfile_done [OF o [unfolded ids(1)]]
  have "daemon_of sy pf uid gid p p1"
    using background_done [OF b] od by (simp add: daemon_of_def)
  moreover have "user = Some u \<and> sy_passwd sy u = Some uid" "grp = Some g \<and> sy_group sy g = Some gid"
    using ids(2,3) by (auto simp: find_id_def split: option.splits)
  ultimately show ?thesis by blast
qed


section \<open>The pidfile\<close>

lemma length_dec: "n < 10 ^ Suc k \<Longrightarrow> length (dec n) \<le> Suc k"
proof (induction k arbitrary: n)
  case 0
  then show ?case by (simp add: dec.simps [of n])
next
  case (Suc k)
  then have "n div 10 < 10 ^ Suc k" by (simp add: less_mult_imp_div_less mult.commute)
  from Suc.IH [OF this] show ?case by (subst dec.simps) simp
qed

lemma pid_text_short:
  assumes "0 \<le> pid" "pid < 1000000" shows "pid_text pid = dec (nat pid) @ [CHR 0x0A]"
proof -
  have "length (dec (nat pid)) \<le> Suc 5" using assms by (intro length_dec) (simp add: nat_less_iff)
  then show ?thesis using assms by (simp add: pid_text_def fmt_d_def snprintf_def)
qed

text \<open>Whatever an older copy has left in the file, the number in it is read as the new one.\<close>

lemma pidfile_number:
  assumes "0 \<le> pid" "pid < 1000000"
  shows "takeWhile isdigit (overwrite (pid_text pid) old) = dec (nat pid)"
proof -
  have "\<not> isdigit (CHR 0x0A)" by (simp add: isdigit_def uchar_def)
  then show ?thesis using dec_digits [of _ "nat pid"]
    by (simp add: overwrite_def pid_text_short [OF assms] takeWhile_append)
qed

text \<open>A number with seven digits fills the buffer: the end of the line is lost.\<close>

lemma long_pid: "0 \<le> pid \<Longrightarrow> length (dec (nat pid)) = 7 \<Longrightarrow> pid_text pid = dec (nat pid)"
  by (simp add: pid_text_def fmt_d_def snprintf_def)

section \<open>A second copy\<close>

lemma run_phases_stop:
  assumes "f p = (p1, r)" "r \<noteq> Goes_on ()"
  shows "run_phases (f # fs) p = (p1, r)"
  using assms by (cases r) auto

lemma run_phases_step:
  assumes "f p = (p1, Goes_on ())" shows "run_phases (f # fs) p = run_phases fs p1"
  using assms by simp

text \<open>Nothing of the process that counts has changed.\<close>

definition harmless :: "process \<Rightarrow> process \<Rightarrow> bool" where
  "harmless p p1 \<longleftrightarrow> ps_uid p1 = ps_uid p \<and> ps_gid p1 = ps_gid p \<and>
     (ps_pidfile p \<noteq> None \<longrightarrow> ps_pidfile p1 = ps_pidfile p \<and> ps_owner p1 = ps_owner p)"

lemma locked_background:
  assumes "sy_lock sy = -1" "background sy (Some f) u uid g gid p = (p1, r)"
  shows "r \<noteq> Goes_on () \<and> harmless p p1"
proof -
  obtain p2 r2 where e: "enter_root sy p = (p2, r2)" by (metis surj_pair)
  obtain p3 r3 where k: "fork_child sy p2 = (p3, r3)" by (metis surj_pair)
  obtain p4 r4 where l: "lock_pidfile sy (Some f) p3 = (p4, r4)" by (metis surj_pair)
  have h2: "harmless p p2" using e by (auto simp: enter_root_def harmless_def split: if_splits)
  have h3: "harmless p p3" using k h2 by (auto simp: fork_child_def harmless_def split: if_splits)
  have h4: "harmless p p4" "r4 \<noteq> Goes_on ()"
    using l h3 assms(1) by (auto simp: lock_pidfile_def harmless_def inform_parent_def)
  consider "r2 \<noteq> Goes_on ()" | "r2 = Goes_on ()" "r3 \<noteq> Goes_on ()" | "r2 = Goes_on ()" "r3 = Goes_on ()" by blast
  then show ?thesis
  proof cases
    case 1
    with assms(2) have "(p2, r2) = (p1, r)" unfolding background_def run_phases_stop [of "enter_root sy", OF e 1] by simp
    then show ?thesis using 1 h2 by simp
  next
    case 2
    with assms(2) have "(p3, r3) = (p1, r)"
      unfolding background_def run_phases_step [of "enter_root sy", OF e [unfolded 2(1)]] run_phases_stop [of "fork_child sy", OF k 2(2)] by simp
    then show ?thesis using 2 h3 by simp
  next
    case 3
    with assms(2) have "(p4, r4) = (p1, r)"
      unfolding background_def run_phases_step [of "enter_root sy", OF e [unfolded 3(1)]] run_phases_step [of "fork_child sy", OF k [unfolded 3(2)]]
        run_phases_stop [of "lock_pidfile sy (Some f)", OF l h4(2)] by simp
    then show ?thesis using h4 by simp
  qed
qed

text \<open>
  C21: While another process holds the lock on the pidfile, daemonize does not go on and
  changes neither the content and the owner of the file nor the user and the group of the
  process.
\<close>

lemma locked_out:
  assumes "sy_lock sy = -1" "daemonize sy (Some f) user grp p = (p1, r)"
  shows "r \<noteq> Goes_on () \<and> ps_uid p1 = ps_uid p \<and> ps_gid p1 = ps_gid p \<and>
    (ps_pidfile p \<noteq> None \<longrightarrow> ps_pidfile p1 = ps_pidfile p \<and> ps_owner p1 = ps_owner p)"
proof -
  obtain p0 r0 where o: "open_pidfile sy (Some f) p = (p0, r0)" by (metis surj_pair)
  have h0: "harmless p p0"
    using o by (auto simp: open_pidfile_def Let_def harmless_def split: if_splits option.splits)
  have "r \<noteq> Goes_on () \<and> harmless p p1"
  proof (cases "\<exists>u uid g gid. r0 = Goes_on () \<and> find_id (sy_passwd sy) user = Goes_on (u, uid) \<and>
      find_id (sy_group sy) grp = Goes_on (g, gid)")
    case True
    then obtain u uid g gid where "background sy (Some f) u uid g gid p0 = (p1, r)"
      using assms(2) by (auto simp: daemonize_def o)
    from locked_background [OF assms(1) this] show ?thesis using h0 by (auto simp: harmless_def)
  next
    case False
    then have "p1 = p0 \<and> r \<noteq> Goes_on ()" using assms(2)
      by (auto simp: daemonize_def o split: ended.splits)
    then show ?thesis using h0 by simp
  qed
  then show ?thesis by (simp add: harmless_def)
qed

section \<open>Shutting down\<close>

text \<open>Every thread is told to end before any of them is waited for.\<close>

lemma shutdown_order:
  assumes "do_shutdown n ! i = Join t" "i < length (do_shutdown n)" "do_shutdown n ! j = Cancel t'" "j < length (do_shutdown n)"
  shows "j < i"
proof -
  define ts where "ts = [Watcher_thread, Monitor_thread] @ map Worker_thread [0..<n]"
  have s: "do_shutdown n = map Cancel ts @ map Join ts" by (simp add: do_shutdown_def ts_def Let_def)
  show ?thesis using assms unfolding s by (auto simp: nth_append split: if_splits)
qed

end
