(* ===== verification/Supervisor_Laws.thy ===== *)
theory Supervisor_Laws
  imports Supervisor Config_Apply Config_Total Daemon_Laws
begin

text \<open>
  The start of the program and its signals: what the text of a configuration and of a password
  file make of the context, and what no reload changes.
\<close>

section \<open>The start\<close>

text \<open>The context after the start.\<close>

definition started_context :: "directive list \<Rightarrow> (bytes \<times> bytes) list \<Rightarrow> CONTEXT" where
  "started_context ds users =
     (let c = configured ds blank_context
      in c\<lparr>backends := map (\<lambda>b. b\<lparr>be_status := BACKEND_IS_STARTING\<rparr>) (backends c),
           st_frontend := Some (case st_frontend c of None \<Rightarrow> DEFAULT_FRONTEND_BIND | Some s \<Rightarrow> s),
           st_monitor := Some (case st_monitor c of None \<Rightarrow> DEFAULT_MONITOR_BIND | Some s \<Rightarrow> s),
           authdb_usernames := map fst users, authdb_md5hashes := map snd users\<rparr>)"

lemma context_ok:
  assumes "\<forall>r\<in>set rcs. r = 0"
  shows "pgr_context rcs c = (0, c\<lparr>backends := map (\<lambda>b. b\<lparr>be_status := BACKEND_IS_STARTING\<rparr>) (backends c),
     st_frontend := Some (case st_frontend c of None \<Rightarrow> DEFAULT_FRONTEND_BIND | Some s \<Rightarrow> s),
     st_monitor := Some (case st_monitor c of None \<Rightarrow> DEFAULT_MONITOR_BIND | Some s \<Rightarrow> s)\<rparr>)"
proof -
  have "(case rcs of [] \<Rightarrow> 0 | r # _ \<Rightarrow> r) = 0" "\<forall>r\<in>set (tl rcs). r = 0" using assms by (cases rcs; simp)+
  then show ?thesis
    by (cases "st_frontend c"; cases "st_monitor c"; simp add: pgr_context_def Let_def init_backends_ok)
qed

text \<open>
  C6: The start of the program makes of the text of a configuration and the text of a table of
  users exactly the context they describe: settings, backends with the status STARTING,
  default endpoints where none is set, names and hashes.
\<close>

lemma load_texts:
  assumes ok: "list_all directive_ok ds" "list_all (\<lambda>s. fst (hostport s) = 0) (backend_ids ds)"
    and conf: "fs path = Some (Some (config_text ds))" "length (config_text ds) \<le> 2147483647"
    and authdb: "latest (text_of K_AUTHDB) (settings ds) None = Some f"
    and users: "fs f = Some (Some (''# pgrouter authdb'' @ CHR 0x0A # concat (map adb_line users)))"
      "length (''# pgrouter authdb'' @ CHR 0x0A # concat (map adb_line users)) \<le> 2147483647" "list_all entry_ok users"
    and locks: "list_all (\<lambda>r. r = 0) rcs"
  shows "load fs cents rcs path = Goes_on (started_context ds users)"
proof -
  have c: "pgr_configure fs cents blank_context path False = Some (Ret (0, configured ds blank_context))"
    using configured_by [OF ok(1), of "[]" fs path cents blank_context] ok(2) conf hostport_some
    by (auto simp: stops_def list_all_iff)
  let ?c = "snd (pgr_context rcs (configured ds blank_context))"
  have k: "pgr_context rcs (configured ds blank_context) = (0, ?c)"
    using context_ok [of rcs] locks by (simp add: list_all_iff)
  have "authdb_file ?c = Some f" using context_ok [of rcs] locks authdb
    by (simp add: list_all_iff configured_def Let_def blank_context_def)
  from authdb_of_lines [OF this, of fs users] users
  have "pgr_authdb fs ?c = Some (0, ?c\<lparr>authdb_usernames := map fst users, authdb_md5hashes := map snd users\<rparr>)"
    by (simp add: list_all_iff)
  moreover have "?c\<lparr>authdb_usernames := map fst users, authdb_md5hashes := map snd users\<rparr> = started_context ds users"
    using context_ok [of rcs] locks by (simp add: list_all_iff started_context_def Let_def)
  ultimately show ?thesis by (simp add: load_def c) (subst k, simp)
qed

section \<open>The process that serves\<close>

text \<open>Opening the sockets changes nothing else of the context.\<close>

lemma bind_keeps:
  "bind_all pton c w = Goes_on (c1, w1) \<Longrightarrow>
     st_user c1 = st_user c \<and> st_group c1 = st_group c \<and> st_pidfile c1 = st_pidfile c"
  by (auto simp: bind_all_def Let_def split: ended.splits prod.splits)

lemma main_start_goes_on:
  assumes "main_start fs cents pton rcs sy opts p w = (p1, Goes_on (level, s, c, w1))" "\<not> opt_foreground s"
  shows "daemonize sy (st_pidfile c) (st_user c) (st_group c) p = (p1, Goes_on ())"
proof -
  from assms(1) obtain c0 where "load fs cents rcs (opt_config s) = Goes_on c0"
    and d: "(if opt_foreground s then (p, Goes_on ()) else daemonize sy (st_pidfile c0) (st_user c0) (st_group c0) p) =
        (p1, Goes_on ())" and b: "bind_all pton c0 w = Goes_on (c, w1)"
    by (auto simp: main_start_def split: sum.splits ended.splits prod.splits)
  from d bind_keeps [OF b] assms(2) show ?thesis by simp
qed


section \<open>Signals\<close>

inductive_cases signalled_Cons: "signalled (x # xs) cents config c c1"

text \<open>The part of a context that stays as it was at the start.\<close>

definition fixed :: "CONTEXT \<Rightarrow> CONTEXT" where
  "fixed c = c\<lparr>cx_workers := 0, cx_loglevel := 0, health_interval := 0, health_timeout := 0,
     health_database := None, health_username := None, health_password := None\<rparr>"


end
