(* ===== verification/Examples.thy ===== *)
theory Examples
  imports Samples Net_Laws Watcher_Laws Supervisor_Laws
begin

text \<open>
  The properties of the configuration, the watcher, the sockets and the main program at concrete
  inputs: a small configuration, three backends that answer or do not, one socket.
\<close>

section \<open>Configurations\<close>

definition ex_config :: "directive list" where
  "ex_config = [Entry (Text K_LISTEN ''*:5432''), Entry (Number K_WORKERS 8), Entry (Choice K_LOG K_INFO),
     Entry (Text K_AUTHDB ''users''), Scope K_HEALTH [Text K_DATABASE ''db'', Number K_CHECK 7],
     Backend None [Number K_LAG 300], Backend (Some ''10.0.0.1:5432'') [Number K_WEIGHT 20, Choice K_TLS K_ON]]"

lemma ex_config_ok: "list_all directive_ok ex_config" "list_all (\<lambda>s. fst (hostport s) = 0) (backend_ids ex_config)"
  "latest (text_of K_AUTHDB) (settings ex_config) None = Some ''users''"
  by (simp add: ex_config_def quotable_def) code_simp+

lemma ex_config_size: "length (config_text ex_config) = 156"
  by code_simp

lemma configure_text_witness:
  "pgr_configure (\<lambda>_. Some (Some (config_text ex_config @ ''} rest''))) (\<lambda>_. 0) ex_context ''conf'' False =
     Some (Ret (0, configured ex_config ex_context)) \<and>
   map be_weight (backends (configured ex_config ex_context)) = [20]"
proof
  show "pgr_configure (\<lambda>_. Some (Some (config_text ex_config @ ''} rest''))) (\<lambda>_. 0) ex_context ''conf'' False =
     Some (Ret (0, configured ex_config ex_context))"
    by (rule configure_text [OF ex_config_ok(1,2), of "''} rest''"]) (simp_all add: stops_def ex_config_size)
  show "map be_weight (backends (configured ex_config ex_context)) = [20]" by code_simp
qed

lemma ex_view: "length s \<le> 2147483647 \<Longrightarrow> lx_view (the (lexer_init CfgAny (Some s))) (Some CfgAny) [] s"
  using view_init [of s CfgAny] by auto

lemma keyword_prefix_witness:
  "\<exists>t l1. cfg_emit (the (lexer_init CfgAny (Some ''Back x''))) = Some (t, l1) \<and> tk_type t = K_BACKEND"
proof -
  have v: "lx_view (the (lexer_init CfgAny (Some ''Back x''))) (Some CfgAny) [] (''Back'' @ CHR '' '' # ''x'')"
    using ex_view [of "''Back x''"] by simp
  have a: "list_all isalpha ''Back''" "CHR '' '' \<notin> set C_WORD" by code_simp+
  have f: "filter (\<lambda>(k, kw). map tolower ''Back'' = take (length ''Back'') kw) KEYWORDS = (K_BACKEND, ''backend'') # []"
    by code_simp
  show ?thesis using keyword_prefix [OF v _ a f] by auto
qed

lemma cfg_short_address_witness:
  "\<exists>t l1. cfg_emit (the (lexer_init CfgAny (Some ''1.2.3.4:80''))) = Some (t, l1) \<and> tk_type t = TY_DECIMAL"
proof -
  have v: "lx_view (the (lexer_init CfgAny (Some ''1.2.3.4:80''))) (Some CfgAny) [] (CHR ''1'' # CHR ''.'' # ''2'' @ CHR ''.'' # ''3.4:80'')"
    using ex_view [of "''1.2.3.4:80''"] by simp
  have d: "isdigit (CHR ''1'')" "isdigit (CHR ''2'')" "\<not> isdigit (CHR ''.'')" "CHR ''.'' \<noteq> NUL"
    by (simp_all add: isdigit_def uchar_def)
  show ?thesis using cfg_short_address [OF v d(1) _ d(3,4)] d(2) by auto
qed

section \<open>The main program\<close>

definition ex_files :: filesys where
  "ex_files path = (if path = ''conf'' then Some (Some (config_text ex_config))
     else Some (Some (''# pgrouter authdb'' @ CHR 0x0A # concat (map adb_line [(''alice'', ex_hash)]))))"

lemma load_texts_witness:
  "load ex_files (\<lambda>_. 0) [0, 0] ''conf'' = Goes_on (started_context ex_config [(''alice'', ex_hash)])"
proof (rule load_texts [OF ex_config_ok(1,2) _ _ ex_config_ok(3)])
  show "length (''# pgrouter authdb'' @ CHR 0x0A # concat (map adb_line [(''alice'', ex_hash)])) \<le> 2147483647"
    by (simp add: adb_line_def ex_hash_def isspace_def uchar_def)
  show "list_all entry_ok [(''alice'', ex_hash)]" unfolding ex_hash_def by code_simp
qed (simp_all add: ex_files_def ex_config_size ex_config_ok)

definition ex_reload :: filesys where
  "ex_reload path = Some (Some ''workers 3
'')"

lemma ex_reloaded: "\<exists>c1. on_signal ex_reload (\<lambda>_. 0) ''conf'' SIGHUP ex_context = Goes_on c1 \<and> cx_workers c1 = 3"
proof -
  have "case on_signal ex_reload (\<lambda>_. 0) ''conf'' SIGHUP ex_context of Goes_on c1 \<Rightarrow> cx_workers c1 = 3 | _ \<Rightarrow> False"
    by code_simp
  then show ?thesis by (auto split: ended.splits)
qed


section \<open>The watcher\<close>

lemma xlog_slash_witness: "xlog ''1/A'' 0 = (0, 2 ^ 32 + 17)"
proof -
  have "push_bit 32 (base15 ''1'') OR base15 ''A'' = 2 ^ 32 + 17" by code_simp
  then show ?thesis using xlog_slash [of "''1''" "''A''" 0] by simp
qed

definition ex_down :: "nat \<Rightarrow> bytes \<Rightarrow> pg_conn option" where
  "ex_down i dsn = Some \<lparr>pq_status = CONNECTION_BAD, pq_exec = \<lambda>_. None\<rparr>"

text \<open>Backend 0 is a master, the others are slaves, all at \<open>1/0\<close>.\<close>

definition ex_up :: "nat \<Rightarrow> bytes \<Rightarrow> pg_conn option" where
  "ex_up i dsn = Some \<lparr>pq_status = CONNECTION_OK, pq_exec = \<lambda>sql. Some \<lparr>pr_tuples_ok = True, pr_ntuples = 1, pr_nfields = 1,
     pr_value = (if sql = recovery_query then (if i = 0 then ''f'' else ''t'') else ''1/0'')\<rparr>\<rparr>"

lemma ex_down_round: "\<exists>hs1 c1 z. watch_round ex_down 0 [] ex_context ex_context = Value (hs1, c1, z)"
  by (simp add: watch_round_def watch_cache_def ex_context_def ex_down_def probe_def numeral_3_eq_3 watch_update_def Let_def)

lemma ex_up_round:
  "\<exists>hs1 c1 z. watch_round ex_up 0 [] ex_context ex_context = Value (hs1, c1, z) \<and>
     length hs1 = 3 \<and> map hl_ok hs1 = [0, 0, 0] \<and> map hl_role hs1 = [1, 2, 2] \<and> map hl_pos hs1 = [2 ^ 32, 2 ^ 32, 2 ^ 32]"
proof -
  have x: "xlog ''1/0'' 0 = (0, 2 ^ 32)" by code_simp
  have q: "position_query r \<noteq> recovery_query" for r by (simp add: position_query_def recovery_query_def)
  have r: "role_of ''f'' = 1" "role_of ''t'' = 2" by (simp_all add: role_of_def backend_role_defs)
  show ?thesis
    by (simp add: watch_round_def watch_cache_def ex_context_def ex_up_def probe_def probe_position_def pg_query_def q r x
        numeral_3_eq_3 watch_update_def Let_def cache_one_def backend_status_defs)
qed


lemma caught_up_not_viable_witness:
  "\<exists>hs1 c1 z. watch_round ex_up 0 [] ex_context ex_context = Value (hs1, c1, z) \<and> \<not> viable (backends c1 ! 1)"
proof -
  obtain hs1 c1 z where r: "watch_round ex_up 0 [] ex_context ex_context = Value (hs1, c1, z)" "length hs1 = 3"
    "map hl_ok hs1 = [0, 0, 0]" "map hl_role hs1 = [1, 2, 2]" "map hl_pos hs1 = [2 ^ 32, 2 ^ 32, 2 ^ 32]"
    using ex_up_round by (elim exE conjE)
  obtain a b d where hs1: "hs1 = [a, b, d]" using r(2) by (auto simp: length_Suc_conv numeral_3_eq_3)
  have "sole_master hs1 0" using r(3,4) by (auto simp: sole_master_def hs1 backend_role_defs backend_status_defs less_Suc_eq nth_Cons split: nat.splits)
  moreover have "1 < length (backends ex_context)" "be_threshold (backends ex_context ! 1) < 2 ^ 31"
    by (simp_all add: ex_context_def ex_backend_def)
  moreover have "hl_pos (hs1 ! 1) = hl_pos (hs1 ! 0)" "(2 :: u64) ^ 31 \<le> hl_pos (hs1 ! 0)" "hl_pos (hs1 ! 0) < (2 :: u64) ^ 63"
    using r(5) by (simp_all add: hs1)
  ultimately show ?thesis using caught_up_not_viable [OF r(1)] r(1) by blast
qed


section \<open>Sockets\<close>

lemma pgr_sendn_prefix_witness: "\<exists>k\<le>3. sent (snd (pgr_sendn 8 ''abc'' (ex_world (\<lambda>_. [])))) 8 = take k ''abc''"
proof -
  obtain rc w1 where s: "pgr_sendn 8 ''abc'' (ex_world (\<lambda>_. [])) = (rc, w1)" by (metis surj_pair)
  have w: "files (ex_world (\<lambda>_. [])) 8 = None" "sent (ex_world (\<lambda>_. [])) 8 = []" by (simp_all add: ex_world_def)
  from pgr_sendn_prefix [OF s w(1)] obtain k where "k \<le> length ''abc''"
    "sent w1 = (sent (ex_world (\<lambda>_. [])))(8 := sent (ex_world (\<lambda>_. [])) 8 @ take k ''abc'')" by blast
  then show ?thesis by (intro exI [of _ k]) (simp add: s w(2))
qed


lemma listen6_any_host_witness:
  "\<exists>w1. pgr_listen6 (\<lambda>_ _. None) (''127.0.0.1'' @ CHR '':'' # dec 14231) 64 ((ex_world (\<lambda>_. []))\<lparr>netq := [9, 0, 0, 0, 0, 0]\<rparr>) =
     Some (9, w1) \<and> Bind 9 (SIN6 14231 in6addr_any) \<in> set (netlog w1)"
  using listen6_any_host [of "''127.0.0.1''" 14231 "\<lambda>_ _. None" "(ex_world (\<lambda>_. []))\<lparr>netq := [9, 0, 0, 0, 0, 0]\<rparr>" 9 0 0 0 64]
  by simp

end
