(* ===== verification/Connect_Run.thy ===== *)
theory Connect_Run
  imports Auth_Run
begin

text \<open>
  The dialogue of \<^verbatim>\<open>pgr_conn_connect\<close> with a backend: the result, the salt that is kept and
  everything that is written, for any sequence of answers, each of which arrives in one read; and
  that the client side and the server side of the program understand each other.
\<close>

section \<open>The answers of a backend\<close>

datatype reply =
    Auth_granted
  | Auth_salt bytes
  | Auth_other nat
  | Key_data bytes
  | Parameter bytes
  | Refusal bytes
  | Ready bytes
  | Unknown byte bytes

definition typed :: "byte \<Rightarrow> bytes \<Rightarrow> bytes" where
  "typed t b = t # be32 (4 + length b) @ b"

fun reply_bytes :: "reply \<Rightarrow> bytes" where
  "reply_bytes Auth_granted = typed (CHR ''R'') (be32 0)"
| "reply_bytes (Auth_salt s) = typed (CHR ''R'') (be32 5 @ s)"
| "reply_bytes (Auth_other n) = typed (CHR ''R'') (be32 n)"
| "reply_bytes (Key_data b) = typed (CHR ''K'') b"
| "reply_bytes (Parameter b) = typed (CHR ''S'') b"
| "reply_bytes (Refusal b) = typed (CHR ''E'') b"
| "reply_bytes (Ready b) = typed (CHR ''Z'') b"
| "reply_bytes (Unknown t b) = typed t b"

fun reply_ok :: "reply \<Rightarrow> bool" where
  "reply_ok (Auth_salt s) \<longleftrightarrow> length s = 4"
| "reply_ok (Auth_other n) \<longleftrightarrow> n \<notin> {0, 5} \<and> n < 2 ^ 24"
| "reply_ok (Unknown t b) \<longleftrightarrow> t \<notin> {NUL, CHR ''E'', CHR ''N'', CHR ''R'', CHR ''K'', CHR ''S'', CHR ''Z''}"
| "reply_ok _ \<longleftrightarrow> True"

text \<open>
  What the program makes of the answers: the result, the connection, the octets that were sent.
  \<open>None\<close>: the answers end before the result is known.
\<close>

fun handshake :: "CONNECTION \<Rightarrow> bytes \<Rightarrow> reply list \<Rightarrow> (int \<times> CONNECTION \<times> bytes) option" where
  "handshake c h [] = None"
| "handshake c h (Ready b # rs) = Some (0, c, [])"
| "handshake c h (Refusal b # rs) = Some (-1, c, [])"
| "handshake c h (Auth_other n # rs) = Some (-1, c, [])"
| "handshake c h (Unknown t b # rs) = Some (-1, c, [])"
| "handshake c h (Auth_salt s # rs) =
     map_option (\<lambda>(rc, c1, b). (rc, c1, pw_bytes (md5_answer h s) @ b)) (handshake (c\<lparr>cn_salt := s\<rparr>) h rs)"
| "handshake c h (_ # rs) = handshake c h rs"

section \<open>One message\<close>

lemma length_typed [simp]: "length (typed t b) = 5 + length b"
  by (simp add: typed_def)

lemma typed_wire: "t \<noteq> NUL \<Longrightarrow> length b < 1000 \<Longrightarrow> wire_size (typed t b) = length (typed t b)"
  using wire_size_typed [of t "4 + length b" b] by (simp add: typed_def)

lemma typed_type:
  assumes "idle m 512 fd" "length (typed t b) \<le> 512" "t \<noteq> NUL"
  shows "pgr_mbuf_msgtype (take_in (typed t b) m) = schar t"
  using idle_take_in [OF assms(1,2)] assms(3)
  by (simp add: pgr_mbuf_msgtype_def) (simp add: typed_def)

lemma typed_u32:
  assumes "idle m 512 fd" "length (typed t (be32 n @ b)) \<le> 512" "t \<noteq> NUL" "n < 2 ^ 24"
  shows "pgr_mbuf_u32 (take_in (typed t (be32 n @ b)) m) 0 = int n"
proof -
  note tk = idle_take_in [OF assms(1,2)]
  have "pgr_mbuf_data (take_in (typed t (be32 n @ b)) m) 0 2 = Some 5"
    using tk assms(3) by (simp add: pgr_mbuf_data_def) (simp add: typed_def)
  moreover have "unat (u32_at (buf (take_in (typed t (be32 n @ b)) m)) 5) = n"
  proof -
    have "unat (u32_at (typed t (be32 n @ b) @ r) 5) = n" for r
    proof -
      have "u32_at (typed t (be32 n @ b) @ r) 5 = u32_at (be32 n @ b @ r) 0"
        by (simp add: u32_at_def typed_def nth_append numeral_2_eq_2 numeral_3_eq_3)
      then show ?thesis using u32_at_be32 [of n "b @ r"] assms(4) by simp
    qed
    then show ?thesis by (simp only: tk(4))
  qed
  ultimately show ?thesis by (simp add: pgr_mbuf_u32_def)
qed

lemma typed_salt:
  assumes "idle m 512 fd" "length s = 4"
  shows "\<exists>p. pgr_mbuf_data (take_in (typed (CHR ''R'') (be32 5 @ s)) m) 4 4 = Some p \<and>
    take 4 (data_mem (take_in (typed (CHR ''R'') (be32 5 @ s)) m) p) = s"
proof -
  have l: "length (typed (CHR ''R'') (be32 5 @ s)) \<le> 512" using assms by simp
  note tk = idle_take_in [OF assms(1) l]
  have "pgr_mbuf_data (take_in (typed (CHR ''R'') (be32 5 @ s)) m) 4 4 = Some 9"
    using tk assms(2) by (simp add: pgr_mbuf_data_def) (simp add: typed_def)
  moreover have "take 4 (drop 9 (typed (CHR ''R'') (be32 5 @ s) @ r)) = s" for r
    using assms(2) by (simp add: typed_def)
  ultimately show ?thesis by (simp only: data_mem_def tk(4)) blast
qed

section \<open>One round of the loop\<close>

lemma round_recv:
  assumes m: "idle m 512 fd" and b: "length (typed t b) \<le> 512" "t \<noteq> NUL" and w: "dialogue fd (typed t b # bs) w"
  obtains m2 where "pgr_mbuf_recv m w = (int (length (typed t b)), take_in (typed t b) m, talked fd bs [] w)"
    "pgr_mbuf_msgtype (take_in (typed t b) m) = schar t"
    "pgr_mbuf_discard (take_in (typed t b) m) (talked fd bs [] w) = (0, m2, talked fd bs [] w)" "idle m2 512 fd"
proof -
  let ?w1 = "talked fd bs [] w"
  have "pgr_mbuf_recv m w = (int (length (typed t b)), take_in (typed t b) m, w\<lparr>rdq := (rdq w)(fd := map Chunk bs)\<rparr>)"
    using w b by (intro idle_recv [OF m]) (simp_all add: dialogue_def)
  then have r: "pgr_mbuf_recv m w = (int (length (typed t b)), take_in (typed t b) m, ?w1)" by (simp add: talked_def)
  from idle_discard [OF m b(1) _ typed_wire [OF b(2)], of ?w1] b(1) obtain m2
    where "pgr_mbuf_discard (take_in (typed t b) m) ?w1 = (0, m2, ?w1)" "idle m2 512 fd" by auto
  then show ?thesis using that [OF r typed_type [OF m b]] by simp
qed

lemma connect_salt:
  assumes m: "idle m 512 fd" and c: "cn_pwhash c = Some h" "length h = 32" and s: "length s = 4"
    and w: "dialogue fd (reply_bytes (Auth_salt s) # bs) w"
  shows "\<exists>m1. connect_loop c m w = connect_loop (c\<lparr>cn_salt := s\<rparr>) m1 (talked fd bs (pw_bytes (md5_answer h s)) w) \<and>
    idle m1 512 fd"
proof -
  let ?b = "be32 5 @ s" and ?c = "c\<lparr>cn_salt := s\<rparr>" and ?p = "pw_bytes (md5_answer h s)"
  have w': "dialogue fd (typed (CHR ''R'') ?b # bs) w" using w by simp
  have l: "length (typed (CHR ''R'') ?b) \<le> 512" using s by simp
  let ?w1 = "talked fd bs [] w"
  from round_recv [OF m l _ w'] obtain m2 where
    r: "pgr_mbuf_recv m w = (int (length (typed (CHR ''R'') ?b)), take_in (typed (CHR ''R'') ?b) m, ?w1)"
      "pgr_mbuf_msgtype (take_in (typed (CHR ''R'') ?b) m) = schar (CHR ''R'')"
      "pgr_mbuf_discard (take_in (typed (CHR ''R'') ?b) m) ?w1 = (0, m2, ?w1)"
    and m2: "idle m2 512 fd" by auto
  have w1: "dialogue fd bs ?w1" by (rule talked_dialogue [OF w])
  have u: "pgr_mbuf_u32 (take_in (typed (CHR ''R'') ?b) m) 0 = 5"
    using typed_u32 [OF m l] by simp
  from typed_salt [OF m s] obtain p where p: "pgr_mbuf_data (take_in (typed (CHR ''R'') ?b) m) 4 4 = Some p"
    "take 4 (data_mem (take_in (typed (CHR ''R'') ?b) m) p) = s" by blast
  have pw: "password_message m2 ?c = Some (0, take_in ?p m2)"
    using password_message_idle [OF m2, of ?c h] c by simp
  have "wrq ?w1 fd = []" using w1 by (simp add: dialogue_def)
  moreover have "wire_size ?p = length ?p" by (rule wire_pw_bytes) simp
  ultimately have "\<exists>m3. pgr_mbuf_relay (take_in ?p m2) ?w1 = (0, m3, put fd ?p ?w1) \<and> idle m3 512 fd"
    by (intro idle_relay [OF m2]) simp_all
  then obtain m3 where rel: "pgr_mbuf_relay (take_in ?p m2) ?w1 = (0, m3, talked fd bs ?p w)" and m3: "idle m3 512 fd"
    by (auto simp: dialogue_put [OF w1])
  have "connect_loop c m w = connect_loop ?c m3 (talked fd bs ?p w)"
    by (subst connect_loop.simps) (simp add: r u p pw rel)
  then show ?thesis using m3 by blast
qed

text \<open>The messages that are only discarded, and those that end the dialogue.\<close>

lemma connect_skips:
  assumes m: "idle m 512 fd" and r: "r = Auth_granted \<or> (\<exists>b. r = Key_data b) \<or> (\<exists>b. r = Parameter b)"
    and l: "length (reply_bytes r) \<le> 512" and w: "dialogue fd (reply_bytes r # bs) w"
  shows "\<exists>m1. connect_loop c m w = connect_loop c m1 (talked fd bs [] w) \<and> idle m1 512 fd"
proof -
  obtain t b where t: "reply_bytes r = typed t b" "t \<noteq> NUL" and
    k: "t = CHR ''R'' \<and> b = be32 0 \<or> t = CHR ''K'' \<or> t = CHR ''S''" using r by auto
  from round_recv [OF m l [unfolded t(1)] t(2) w [unfolded t(1)]] obtain m2 where
    x: "pgr_mbuf_recv m w = (int (length (typed t b)), take_in (typed t b) m, talked fd bs [] w)"
      "pgr_mbuf_msgtype (take_in (typed t b) m) = schar t"
      "pgr_mbuf_discard (take_in (typed t b) m) (talked fd bs [] w) = (0, m2, talked fd bs [] w)"
    and m2: "idle m2 512 fd" .
  have u: "t = CHR ''R'' \<Longrightarrow> pgr_mbuf_u32 (take_in (typed t b) m) 0 = 0"
    using k typed_u32 [OF m, of t 0 "[]"] l t by auto
  have "connect_loop c m w = connect_loop c m2 (talked fd bs [] w)"
    using k u x by (subst connect_loop.simps) (auto simp: Let_def)
  then show ?thesis using m2 by blast
qed

lemma connect_ends:
  assumes m: "idle m 512 fd" and r: "handshake c h [r] = Some (rc, c1, [])" "reply_ok r"
    and l: "length (reply_bytes r) \<le> 512" and w: "dialogue fd (reply_bytes r # bs) w"
  shows "connect_loop c m w = Some (Ret (rc, c1, talked fd bs [] w))"
proof -
  obtain t b where t: "reply_bytes r = typed t b" "t \<noteq> NUL" and c1: "c1 = c" and
    k: "t = CHR ''R'' \<and> (\<exists>n. b = be32 n \<and> n \<notin> {0, 5} \<and> n < 2 ^ 24) \<and> rc = -1 \<or> t = CHR ''Z'' \<and> rc = 0 \<or>
        t \<notin> {CHR ''N'', CHR ''R'', CHR ''K'', CHR ''S'', CHR ''Z''} \<and> rc = -1"
    using r by (cases r) auto
  from round_recv [OF m l [unfolded t(1)] t(2) w [unfolded t(1)]] obtain m2 where
    x: "pgr_mbuf_recv m w = (int (length (typed t b)), take_in (typed t b) m, talked fd bs [] w)"
      "pgr_mbuf_msgtype (take_in (typed t b) m) = schar t"
      "pgr_mbuf_discard (take_in (typed t b) m) (talked fd bs [] w) = (0, m2, talked fd bs [] w)" .
  have u: "t = CHR ''R'' \<Longrightarrow> pgr_mbuf_u32 (take_in (typed t b) m) 0 \<notin> {0, 5}"
    using k typed_u32 [OF m, of t _ "[]"] l t by auto
  show ?thesis
    using k u x c1 by (subst connect_loop.simps) (auto simp: Let_def)
qed

section \<open>The whole dialogue\<close>

text \<open>The answers that are left when the result is known.\<close>

fun later_replies :: "reply list \<Rightarrow> reply list" where
  "later_replies [] = []"
| "later_replies (Ready b # rs) = rs"
| "later_replies (Refusal b # rs) = rs"
| "later_replies (Auth_other n # rs) = rs"
| "later_replies (Unknown t b # rs) = rs"
| "later_replies (_ # rs) = later_replies rs"

lemma connect_loop_run:
  assumes "idle m 512 fd" "cn_pwhash c = Some h" "length h = 32" "list_all reply_ok rs"
    "list_all (\<lambda>r. length (reply_bytes r) \<le> 512) rs" "dialogue fd (map reply_bytes rs @ qs) w"
    "handshake c h rs = Some (rc, c1, out)"
  shows "connect_loop c m w = Some (Ret (rc, c1, talked fd (map reply_bytes (later_replies rs) @ qs) out w))"
  using assms
proof (induction c h rs arbitrary: m w out
      rule: handshake.induct [case_names empty ready refusal other unknown salt granted key parameter])
  case (salt c h s rs)
  then obtain out1 where o: "handshake (c\<lparr>cn_salt := s\<rparr>) h rs = Some (rc, c1, out1)"
    "out = pw_bytes (md5_answer h s) @ out1" by auto
  let ?w = "talked fd (map reply_bytes rs @ qs) (pw_bytes (md5_answer h s)) w"
  have w: "dialogue fd (map reply_bytes rs @ qs) ?w" by (rule talked_dialogue [OF salt(7)])
  from connect_salt [OF salt(2,3,4), of s "map reply_bytes rs @ qs" w] salt(5,7) obtain m1
    where x: "connect_loop c m w = connect_loop (c\<lparr>cn_salt := s\<rparr>) m1 ?w" "idle m1 512 fd" by auto
  from salt.IH [OF x(2) _ salt(4) _ _ w o(1)] salt(3,5,6) show ?case by (simp add: x o)
next
  case (granted c h rs)
  then show ?case using connect_skips [of m fd Auth_granted "map reply_bytes rs @ qs" w c] by fastforce
next
  case (key c h b rs)
  then show ?case using connect_skips [of m fd "Key_data b" "map reply_bytes rs @ qs" w c] by fastforce
next
  case (parameter c h b rs)
  then show ?case using connect_skips [of m fd "Parameter b" "map reply_bytes rs @ qs" w c] by fastforce
next
  case (ready c h b rs)
  then show ?case using connect_ends [of m fd c h "Ready b" rc c1 "map reply_bytes rs @ qs" w] by simp
next
  case (refusal c h b rs)
  then show ?case using connect_ends [of m fd c h "Refusal b" rc c1 "map reply_bytes rs @ qs" w] by simp
next
  case (other c h n rs)
  then show ?case using connect_ends [of m fd c h "Auth_other n" rc c1 "map reply_bytes rs @ qs" w] by simp
next
  case (unknown c h t b rs)
  then show ?case using connect_ends [of m fd c h "Unknown t b" rc c1 "map reply_bytes rs @ qs" w] by simp
qed simp

lemma sys_net_keeps:
  "sys_net x w = (r, w1) \<Longrightarrow> rdq w1 = rdq w \<and> wrq w1 = wrq w \<and> sent w1 = sent w \<and> files w1 = files w"
  by (auto simp: sys_net_def split: list.splits)

lemma pgr_connect_keeps:
  assumes "pgr_connect pton host port t w = Some (fd, w1)" "0 \<le> fd"
  shows "rdq w1 = rdq w \<and> wrq w1 = wrq w \<and> sent w1 = sent w \<and> files w1 = files w"
  using assms
  by (auto simp: pgr_connect_def Let_def negative_def split: option.splits prod.splits if_splits dest!: sys_net_keeps)
     (metis sys_net_keeps prod.collapse)+

lemma wire_startup: "startup_len ps \<le> 512 \<Longrightarrow> wire_size (startup_bytes ps) = length (startup_bytes ps)"
  using startup_wire [of ps] by (simp add: length_startup)

lemma connect_dialogue:
  assumes "pgr_connect pton (cn_hostname c) (cn_port c) (int32 (cn_timeout c * 1000)) w = Some (fd, w0)" "0 \<le> fd"
    and "cn_pwhash c = Some h" "length h = 32" "startup_len (cn_params c) \<le> 512"
    and "dialogue fd (map reply_bytes rs @ qs) w" "list_all reply_ok rs"
    and "list_all (\<lambda>r. length (reply_bytes r) \<le> 512) rs"
    and "handshake (c\<lparr>cn_fd := fd\<rparr>) h rs = Some (rc, c1, out)"
  shows "pgr_conn_connect pton c w =
    Some (Ret (rc, c1, talked fd (map reply_bytes (later_replies rs) @ qs) (startup_bytes (cn_params c) @ out) w0))"
proof -
  let ?c = "c\<lparr>cn_fd := fd\<rparr>" and ?b = "startup_bytes (cn_params c)" and ?m = "pgr_mbuf_setfd (pgr_mbuf_new 512) fd fd"
  let ?q = "map reply_bytes rs @ qs"
  have w0: "dialogue fd ?q w0" using pgr_connect_keeps [OF assms(1,2)] assms(6) by (simp add: dialogue_def)
  have m: "idle ?m 512 fd" using assms(2) by (intro idle_new) (simp add: MBUF_SAME_FD_def)
  have st: "startup_message ?m ?c = (0, take_in ?b ?m)" using startup_message_idle [OF m, of ?c] assms(5) by simp
  have "5 \<le> length ?b" by (simp add: startup_bytes_def)
  with idle_relay [OF m _ _ wire_startup [OF assms(5)], of w0] assms(5) w0 obtain m1
    where rel: "pgr_mbuf_relay (take_in ?b ?m) w0 = (0, m1, talked fd ?q ?b w0)" and m1: "idle m1 512 fd"
    by (auto simp: length_startup dialogue_def dialogue_put [OF w0])
  have h: "cn_pwhash ?c = Some h" using assms(3) by simp
  note connect_loop_run [OF m1 h assms(4,7,8) talked_dialogue [OF w0] assms(9)]
  then show ?thesis using assms(1,2) by (simp add: pgr_conn_connect_def st rel Let_def)
qed

section \<open>The two sides together\<close>

text \<open>What \<^verbatim>\<open>pgr_conn_accept\<close> writes to a client whose answer is right, as answers of a backend.\<close>

definition granting :: "bytes \<Rightarrow> reply list" where
  "granting salt = [Auth_salt salt, Auth_granted, Ready ''I'']"

lemma granting_bytes: "length salt = 4 \<Longrightarrow> concat (map reply_bytes (granting salt)) = auth_request salt @ auth_done"
  by (simp add: granting_def auth_request_def auth_done_def typed_def)

text \<open>
  C13: The two sides of the authentication fit together: connecting to a server that answers
  like pgr_conn_accept succeeds, and what is sent there is accepted by pgr_conn_accept, which
  answers just that way, when both sides have the same hash for the user of the startup
  message.
\<close>

lemma sides_agree:
  assumes conn: "pgr_connect pton (cn_hostname c) (cn_port c) (int32 (cn_timeout c * 1000)) w = Some (fd, w0)" "0 \<le> fd"
    and hash: "cn_pwhash c = Some h" "length h = 32"
    and ps: "cn_params c = ps" "list_all param_ok ps" "startup_len ps \<le> 512" "startup_len ps \<noteq> 16"
    and user: "map_of (rev ps) ''user'' = Some u" "pgr_auth_find ctx u = Some h"
    and srv: "cn_fd s = fs" "fs \<noteq> MBUF_SAME_FD" "length (cn_salt s) = 4"
    and there: "dialogue fd (map reply_bytes (granting (cn_salt s))) w"
    and here: "dialogue fs [startup_bytes ps, pw_bytes (md5_answer h (cn_salt s))] v"
  shows "(\<exists>w1. pgr_conn_connect pton c w = Some (Ret (0, c\<lparr>cn_fd := fd, cn_salt := cn_salt s\<rparr>, w1)) \<and>
      sent w1 fd = sent w fd @ concat [startup_bytes ps, pw_bytes (md5_answer h (cn_salt s))]) \<and>
    (\<exists>v1. pgr_conn_accept ctx s v = Some (Ret (0, note_params ctx ps s, v1)) \<and>
      sent v1 fs = sent v fs @ concat (map reply_bytes (granting (cn_salt s))))"
proof
  have "handshake (c\<lparr>cn_fd := fd\<rparr>) h (granting (cn_salt s)) =
      Some (0, c\<lparr>cn_fd := fd, cn_salt := cn_salt s\<rparr>, pw_bytes (md5_answer h (cn_salt s)))"
    by (simp add: granting_def)
  moreover have "list_all reply_ok (granting (cn_salt s))" "list_all (\<lambda>r. length (reply_bytes r) \<le> 512) (granting (cn_salt s))"
    using srv(3) by (simp_all add: granting_def)
  moreover have "dialogue fd (map reply_bytes (granting (cn_salt s)) @ []) w" using there by simp
  ultimately have "pgr_conn_connect pton c w = Some (Ret (0, c\<lparr>cn_fd := fd, cn_salt := cn_salt s\<rparr>,
      talked fd (map reply_bytes (later_replies (granting (cn_salt s))) @ [])
        (startup_bytes (cn_params c) @ pw_bytes (md5_answer h (cn_salt s))) w0))"
    using connect_dialogue [OF conn hash, of "granting (cn_salt s)" "[]"] ps by metis
  moreover have "sent w0 = sent w" using pgr_connect_keeps [OF conn] by simp
  ultimately have "\<exists>w1. pgr_conn_connect pton c w = Some (Ret (0, c\<lparr>cn_fd := fd, cn_salt := cn_salt s\<rparr>, w1)) \<and>
      sent w1 fd = sent w fd @ startup_bytes (cn_params c) @ pw_bytes (md5_answer h (cn_salt s))" by auto
  then show "\<exists>w1. pgr_conn_connect pton c w = Some (Ret (0, c\<lparr>cn_fd := fd, cn_salt := cn_salt s\<rparr>, w1)) \<and>
      sent w1 fd = sent w fd @ concat [startup_bytes ps, pw_bytes (md5_answer h (cn_salt s))]" by (simp add: ps(1))
  have "answer_ok (note_params ctx ps s) (md5_answer h (cn_salt s))"
    using user by (simp add: answer_ok_def note_params_user)
  moreover have "length h' < 2 ^ 64" if "cn_pwhash (note_params ctx ps s) = Some h'" for h'
    using that user hash by (simp add: note_params_user)
  ultimately have "pgr_conn_accept ctx s v =
      Some (Ret (0, note_params ctx ps s, talked fs [] (auth_request (cn_salt s) @ auth_done) v))"
    using ps by (intro accept_granted [OF srv(1-3) here]) (simp_all add: list_all_iff)
  then show "\<exists>v1. pgr_conn_accept ctx s v = Some (Ret (0, note_params ctx ps s, v1)) \<and>
      sent v1 fs = sent v fs @ concat (map reply_bytes (granting (cn_salt s)))"
    by (simp add: granting_bytes [OF srv(3)] del: append_assoc)
qed


end
