(* ===== verification/Config_Units.thy ===== *)
theory Config_Units
  imports Config_Text Config_Total
begin

text \<open>
  Numbers with a unit: the sizes and times that are read as they are meant, and the minutes, which
  are not, because the lexer reads one octet too far and goes back to the start of the number.
\<close>

section \<open>Units\<close>

fun unit_of :: "bytes \<Rightarrow> (cfg_type \<times> nat) option" where
  "unit_of [c] =
     (if c \<in> {CHR ''s'', CHR ''S''} then Some (TY_TIME, 1)
      else if c \<in> {CHR ''h'', CHR ''H''} then Some (TY_TIME, 3600)
      else if c \<in> {CHR ''b'', CHR ''B''} then Some (TY_SIZE, 1) else None)"
| "unit_of [c, b] =
     (if b \<notin> {CHR ''b'', CHR ''B''} then None
      else if c \<in> {CHR ''k'', CHR ''K''} then Some (TY_SIZE, 1024)
      else if c \<in> {CHR ''m'', CHR ''M''} then Some (TY_SIZE, 1024 * 1024)
      else if c \<in> {CHR ''g'', CHR ''G''} then Some (TY_SIZE, 1024 * 1024 * 1024) else None)"
| "unit_of _ = None"

lemma tokI:
  "lx_view l f pre rest \<Longrightarrow> \<exists>t. with_i i (tok k l) = (t, lex_ignore l) \<and> tk_type t = k \<and> tk_i t = i \<and>
     lx_view (lex_ignore l) f [] rest"
  by (erule view_tok [of _ _ _ _ k]) (auto simp: with_i_def)

lemma uint_of_nat32: "uint (of_nat k :: u32) = int k mod 2 ^ 32"
  by (simp add: unsigned_of_nat take_bit_eq_mod zmod_int)

text \<open>One letter, and two.\<close>

lemma suffix_one:
  assumes v: "lx_view l f pre (c # rest)" and u: "unit_of [c] = Some (k, m)"
  shows "\<exists>t l1. numeric_suffix i l = (t, l1) \<and> tk_type t = k \<and> tk_i t = i * of_nat m \<and> lx_view l1 f [] rest"
proof -
  from v obtain l1 where n: "lex_next l = (c, l1)" and v1: "lx_view l1 f (pre @ [c]) rest" by (auto elim: view_next)
  consider "c \<in> {CHR ''s'', CHR ''S'', CHR ''h'', CHR ''H''}" "k = TY_TIME" "of_nat m = time_factor c"
    | "c \<in> {CHR ''b'', CHR ''B''}" "k = TY_SIZE" "of_nat m = size_factor c"
    using u by (auto simp: time_factor_def size_factor_def split: if_splits)
  then show ?thesis
  proof cases
    case 1
    then have "numeric_suffix i l = with_i (i * of_nat m) (tok TY_TIME l1)"
      by (auto simp: numeric_suffix_def n numeric_time_def strchr_def)
    with tokI [OF v1, of "i * of_nat m" TY_TIME] 1 show ?thesis by auto
  next
    case 2
    then have "numeric_suffix i l = with_i (i * of_nat m) (tok TY_SIZE l1)"
      by (auto simp: numeric_suffix_def n strchr_def)
    with tokI [OF v1, of "i * of_nat m" TY_SIZE] 2 show ?thesis by auto
  qed
qed

lemma suffix_two:
  assumes v: "lx_view l f pre (c # b # rest)" and u: "unit_of [c, b] = Some (k, m)"
  shows "\<exists>t l1. numeric_suffix i l = (t, l1) \<and> tk_type t = k \<and> tk_i t = i * of_nat m \<and> lx_view l1 f [] rest"
proof -
  from v obtain l1 where n: "lex_next l = (c, l1)" and v1: "lx_view l1 f (pre @ [c]) (b # rest)" by (auto elim: view_next)
  from v1 obtain l2 where n2: "lex_next l1 = (b, l2)" and v2: "lx_view l2 f ((pre @ [c]) @ [b]) rest" by (auto elim: view_next)
  have c: "c \<in> {CHR ''k'', CHR ''K'', CHR ''m'', CHR ''M'', CHR ''g'', CHR ''G''}" "b \<in> {CHR ''b'', CHR ''B''}"
      "k = TY_SIZE" "of_nat m = size_factor c"
    using u by (auto simp: size_factor_def split: if_splits)
  then have "numeric_suffix i l = with_i (i * of_nat m) (tok TY_SIZE l2)"
    by (auto simp: numeric_suffix_def n n2 strchr_def)
  with tokI [OF v2, of "i * of_nat m" TY_SIZE] c show ?thesis by auto
qed

lemma unit_first:
  assumes "unit_of u = Some (k, m)"
  obtains c us where "u = c # us" "\<not> isdigit c" "c \<noteq> NUL" "c \<noteq> CHR ''.''"
    "us = [] \<or> (\<exists>b. us = [b])"
  using assms by (cases u rule: unit_of.cases) (auto simp: isdigit_def uchar_def split: if_splits)

text \<open>
  C33: A number with one of the units s, h, b, kb, mb, gb in the configuration is a time in
  seconds or a size in octets, its value that of the digits times the unit, with the
  wrap-around of an unsigned int; what follows the unit is left to be read.
\<close>

lemma units_read:
  assumes v: "lx_view l (Some CfgAny) [] (dec n @ u @ rest)" and u: "unit_of u = Some (k, m)"
  shows "\<exists>t l1. cfg_emit l = Some (t, l1) \<and> tk_type t = k \<and> uint (tk_i t) = int (n * m) mod 2 ^ 32 \<and>
    lx_view l1 (Some CfgAny) [] rest"
proof -
  from unit_first [OF u] obtain c us where c: "u = c # us" "\<not> isdigit c" "c \<noteq> NUL" "c \<noteq> CHR ''.''"
    and us: "us = [] \<or> (\<exists>b. us = [b])" by metis
  have "lx_view l (Some CfgAny) [] (dec n @ c # us @ rest)" using v c by simp
  from cfg_number_digits [OF this c(2-4)] obtain l3 where v3: "lx_view l3 (Some CfgAny) (dec n) (c # us @ rest)"
    and e: "cfg_emit l = (case numeric_suffix (of_nat n) l3 of (t, l2) \<Rightarrow> if tk_type t = CT_RESTART then cfg_emit l2 else Some (t, l2))"
    by blast
  have "\<exists>t l1. numeric_suffix (of_nat n) l3 = (t, l1) \<and> tk_type t = k \<and> tk_i t = of_nat n * of_nat m \<and>
      lx_view l1 (Some CfgAny) [] rest"
    using us
  proof (elim disjE exE)
    assume "us = []"
    then show ?thesis using suffix_one [of l3 _ _ c rest k m] v3 u c by auto
  next
    fix b assume "us = [b]"
    then show ?thesis using suffix_two [of l3 _ _ c b rest k m] v3 u c by auto
  qed
  moreover have "k \<noteq> CT_RESTART" using u by (cases u rule: unit_of.cases) (auto split: if_splits)
  moreover have "uint (of_nat n * of_nat m :: u32) = int (n * m) mod 2 ^ 32"
    using uint_of_nat32 [of "n * m"] by simp
  ultimately show ?thesis by (auto simp: e)
qed

section \<open>Minutes\<close>

text \<open>
  After an \<open>m\<close> (or \<open>k\<close>, \<open>g\<close>) without \<open>b\<close> the next octet has been read. It is taken for the unit,
  and the lexer ends one octet before the number.
\<close>

lemma minutes_token:
  assumes v: "lx_view l (Some CfgAny) [] (sp # dec n @ u # d # rest)" and sp: "isspace sp"
    and u: "u \<in> {CHR ''m'', CHR ''M'', CHR ''k'', CHR ''K'', CHR ''g'', CHR ''G''}" and d: "after_number d"
  shows "\<exists>t l1. cfg_emit l = Some (t, l1) \<and> tk_type t = TY_INTEGER \<and> tk_i t = of_nat n \<and>
    lx_view l1 (Some CfgAny) [] (sp # dec n @ u # d # rest)"
proof -
  let ?text = "sp # dec n @ u # d # rest"
  have st: "settled l" using v view_length [OF v] by (simp add: lx_view_def settled_def)
  obtain l0 where l0: "cfg_emit l = cfg_emit l0" "lx_view l0 (Some CfgAny) [] (dec n @ u # d # rest)"
    using cfg_blank [OF v sp] by blast
  have ch: "\<not> isdigit u" "u \<noteq> NUL" "u \<noteq> CHR ''.''" "strchr ''kKmMgGbB'' u" "u \<notin> {CHR ''b'', CHR ''B''}"
    using u by (auto simp: isdigit_def uchar_def strchr_def)
  note dn = after_number_not [OF d]
  from cfg_number_digits [OF l0(2) ch(1-3)] obtain l3 where v3: "lx_view l3 (Some CfgAny) (dec n) (u # d # rest)"
    and e: "cfg_emit l0 = (case numeric_suffix (of_nat n) l3 of (t, l2) \<Rightarrow> if tk_type t = CT_RESTART then cfg_emit l2 else Some (t, l2))"
    by blast
  from v3 obtain l4 where n4: "lex_next l3 = (u, l4)" and v4: "lx_view l4 (Some CfgAny) (dec n @ [u]) (d # rest)"
    by (auto elim: view_next)
  from v4 obtain l5 where n5: "lex_next l4 = (d, l5)" by (auto elim: view_next)
  define l6 where "l6 = lex_ignore (lex_backup (lex_restart l5))"
  obtain t where t: "numeric_suffix (of_nat n) l3 = (t, l6)" "tk_type t = TY_INTEGER" "tk_i t = of_nat n"
  proof -
    have "d \<notin> {CHR ''b'', CHR ''B''}" using dn by (auto simp: strchr_def)
    then have "numeric_suffix (of_nat n) l3 = with_i (of_nat n) (tok TY_INTEGER (lex_backup (lex_restart l5)))"
      using ch dn by (simp add: numeric_suffix_def n4 n5 numeric_time_def)
    then show ?thesis using that by (simp add: with_i_def tok_def l6_def)
  qed
  then have em: "cfg_emit l = Some (t, l6)" by (simp add: l0(1) e)
  then have "emitted l TY_INTEGER l6" using emit_emitted [OF st] t(2) by auto
  then have b: "behind l l6" by (simp add: emitted_def)
  have s6: "lx_src l6 = lx_src l3" "lx_start l6 = lx_start l3 - 1"
    using next_pos(1) [OF n4] next_pos(1) [OF n5] by (simp_all add: l6_def lex_ignore_def same_text_def lex_backup_def lex_restart_def)
  have "lx_start l3 = lx_start l + 1"
    using view_length [OF v] view_length [OF v3] v v3 b s6 by (simp add: lx_view_def behind_def)
  then have "lx_view l6 (Some CfgAny) [] ?text" using v b s6 by (simp add: lx_view_def behind_def)
  with em t show ?thesis by blast
qed

lemma minutes_stop:
  assumes p: "pc_f p = Some ParseHealth" and v: "ahead p (b @ ''check'' @ CHR '' '' # dec n @ ''m'' @ d # rest)"
    and b: "blank b" and d: "after_number d" and n: "n < 2 ^ 31"
  shows "\<exists>l. cfg_parse cents p = Some (0, p\<lparr>pc_interval := Some (int n), pc_l := l\<rparr>)"
proof -
  have k: "keyword_of ''check'' = Some K_CHECK" "\<forall>x\<in>set ''check''. isalpha x" "CHR '' '' \<notin> set C_WORD"
    by (code_simp, code_simp, code_simp)
  from next_keyword [OF v b k(1,2) _ k(3)] obtain t1 l1 where
    n1: "next_tok p = Some (t1, p\<lparr>pc_l := l1\<rparr>)" "tk_type t1 = K_CHECK"
    and v1: "lx_view l1 (Some CfgAny) [] (CHR '' '' # dec n @ CHR ''m'' # d # rest)" by auto
  from minutes_token [OF v1 char_kinds(1) _ d] obtain t2 l2 where
    e2: "cfg_emit l1 = Some (t2, l2)" "tk_type t2 = TY_INTEGER" "tk_i t2 = of_nat n"
    and v2: "lx_view l2 (Some CfgAny) [] (CHR '' '' # dec n @ CHR ''m'' # d # rest)" by blast
  from minutes_token [OF v2 char_kinds(1) _ d] obtain t3 l3 where
    e3: "cfg_emit l2 = Some (t3, l3)" "tk_type t3 = TY_INTEGER" by blast
  let ?p = "p\<lparr>pc_l := l2, pc_interval := Some (int n)\<rparr>"
  have "with_int (p\<lparr>pc_l := l1\<rparr>) {TY_INTEGER, TY_TIME} 0 (\<lambda>i p. p\<lparr>pc_interval := Some i\<rparr>) = Some (0, ?p)"
    using tok_int_nat [OF e2(3) n] by (simp add: with_int_def next_tok_def e2)
  then have "parse_health p = Some (0, ?p)" by (simp add: parse_health_def n1)
  moreover have "parse_health ?p = Some (1, ?p\<lparr>pc_l := l3\<rparr>)"
    by (simp add: parse_health_def next_tok_def e3)
  ultimately have "cfg_parse cents p = Some (0, ?p\<lparr>pc_l := l3\<rparr>)"
    using p by (simp add: cfg_parse.simps [of cents p] cfg_parse.simps [of cents ?p])
  moreover have "?p\<lparr>pc_l := l3\<rparr> = p\<lparr>pc_interval := Some (int n), pc_l := l3\<rparr>" by simp
  ultimately show ?thesis by metis
qed

end
