(* ===== verification/Locks.thy ===== *)
theory Locks
  imports Log
begin

text \<open>
  The read-write locks of the context and of its backends (\<^verbatim>\<open>src/locks.inc.c\<close> and its callers): the
  calls each operation makes, in order, and threads that make them in any interleaving. The
  interface is the locale \<open>lock_discipline\<close>: an order of the locks that every operation follows.
\<close>

section \<open>Calls\<close>

datatype 'l lock_call = Rdlock 'l | Wrlock 'l | Unlock 'l

text \<open>\<^verbatim>\<open>rdlock\<close>, \<^verbatim>\<open>wrlock\<close> and \<^verbatim>\<open>unlock\<close> abort the program when the call \<open>rc\<close> they wrap fails.\<close>

definition rdlock :: "int \<Rightarrow> 'l \<Rightarrow> 'l lock_call ended" where
  "rdlock rc l = (if rc \<noteq> 0 then Aborts ABORT_LOCK else Goes_on (Rdlock l))"

definition wrlock :: "int \<Rightarrow> 'l \<Rightarrow> 'l lock_call ended" where
  "wrlock rc l = (if rc \<noteq> 0 then Aborts ABORT_LOCK else Goes_on (Wrlock l))"

definition unlock :: "int \<Rightarrow> 'l \<Rightarrow> 'l lock_call ended" where
  "unlock rc l = (if rc \<noteq> 0 then Aborts ABORT_LOCK else Goes_on (Unlock l))"

text \<open>A thread: the locks it holds, the last one first, with \<open>True\<close> for writing; the calls ahead.\<close>

type_synonym 'l held = "('l \<times> bool) list"
type_synonym 'l lock_thread = "'l held \<times> 'l lock_call list"

definition free_to_read :: "'l lock_thread list \<Rightarrow> 'l \<Rightarrow> bool" where
  "free_to_read ts l \<longleftrightarrow> list_all (\<lambda>(h, cs). (l, True) \<notin> set h) ts"

definition free_to_write :: "'l lock_thread list \<Rightarrow> 'l \<Rightarrow> bool" where
  "free_to_write ts l \<longleftrightarrow> list_all (\<lambda>(h, cs). l \<notin> fst ` set h) ts"

text \<open>What the call of a thread does to what it holds; \<open>None\<close>: the thread has to wait.\<close>

fun drop_lock :: "'l \<Rightarrow> 'l held \<Rightarrow> 'l held" where
  "drop_lock l [] = []"
| "drop_lock l (x # h) = (if fst x = l then h else x # drop_lock l h)"

fun lock_effect :: "'l lock_thread list \<Rightarrow> 'l lock_call \<Rightarrow> 'l held \<Rightarrow> 'l held option" where
  "lock_effect ts (Rdlock l) h = (if free_to_read ts l then Some ((l, False) # h) else None)"
| "lock_effect ts (Wrlock l) h = (if free_to_write ts l then Some ((l, True) # h) else None)"
| "lock_effect ts (Unlock l) h = Some (drop_lock l h)"

inductive lock_step :: "'l lock_thread list \<Rightarrow> 'l lock_thread list \<Rightarrow> bool" where
  call: "i < length ts \<Longrightarrow> ts ! i = (h, c # cs) \<Longrightarrow> lock_effect ts c h = Some h' \<Longrightarrow>
         lock_step ts (ts[i := (h', cs)])"

lemma lock_stepE:
  assumes "lock_step ts ts'"
  obtains i h c cs h' where "ts' = ts[i := (h', cs)]" "i < length ts" "ts ! i = (h, c # cs)" "lock_effect ts c h = Some h'"
  using assms by (auto elim: lock_step.cases)

section \<open>The operations of the program\<close>

datatype lock = Context_lock | Backend_lock nat

text \<open>A loop over the backends with a lock around each visit.\<close>

definition visit_backends :: "(lock \<Rightarrow> lock lock_call) \<Rightarrow> nat \<Rightarrow> lock lock_call list" where
  "visit_backends acquire n = concat (map (\<lambda>i. [acquire (Backend_lock i), Unlock (Backend_lock i)]) [0..<n])"

text \<open>The first and the last phase of a round of the watcher; \<open>same\<close>: the number of backends is the cached one.\<close>

definition watch_cache_locks :: "nat \<Rightarrow> lock lock_call list" where
  "watch_cache_locks n = Rdlock Context_lock # visit_backends Rdlock n @ [Unlock Context_lock]"

definition watch_update_locks :: "nat \<Rightarrow> bool \<Rightarrow> lock lock_call list" where
  "watch_update_locks n same =
     Wrlock Context_lock # (if same then visit_backends Wrlock n else []) @ [Unlock Context_lock]"

definition monitor_locks :: "nat \<Rightarrow> lock lock_call list" where
  "monitor_locks n = Rdlock Context_lock # visit_backends Rdlock n @ [Unlock Context_lock]"

text \<open>\<open>chosen\<close>: the index at which the second loop of \<^verbatim>\<open>determine_backends\<close> ends, if it does.\<close>

definition determine_locks :: "nat \<Rightarrow> nat option \<Rightarrow> lock lock_call list" where
  "determine_locks n chosen =
     Rdlock Context_lock # visit_backends Rdlock n @
     (case chosen of None \<Rightarrow> [] | Some k \<Rightarrow> [Rdlock (Backend_lock k), Unlock (Backend_lock k)]) @ [Unlock Context_lock]"

definition auth_find_locks :: "lock lock_call list" where
  "auth_find_locks = [Rdlock Context_lock, Unlock Context_lock]"

definition count_client_locks :: "lock lock_call list" where
  "count_client_locks = [Wrlock Context_lock, Unlock Context_lock]"

definition reload_locks :: "lock lock_call list" where
  "reload_locks = [Wrlock Context_lock, Unlock Context_lock]"

datatype operation =
    Watch_cache | Watch_update bool | Monitor_report | Determine "nat option" | Auth_find | Count_client | Reload

fun locks_of :: "nat \<Rightarrow> operation \<Rightarrow> lock lock_call list" where
  "locks_of n Watch_cache = watch_cache_locks n"
| "locks_of n (Watch_update same) = watch_update_locks n same"
| "locks_of n Monitor_report = monitor_locks n"
| "locks_of n (Determine chosen) = determine_locks n chosen"
| "locks_of n Auth_find = auth_find_locks"
| "locks_of n Count_client = count_client_locks"
| "locks_of n Reload = reload_locks"

text \<open>The program: each thread makes the calls of its operations, one after the other.\<close>

definition threads_of :: "('op \<Rightarrow> 'l lock_call list) \<Rightarrow> 'op list list \<Rightarrow> 'l lock_thread list" where
  "threads_of script = map (\<lambda>ops. ([], concat (map script ops)))"

section \<open>A discipline of locks\<close>

text \<open>
  \<open>follows rank h cs\<close>: with the locks \<open>h\<close> held, the calls \<open>cs\<close> take locks in increasing order, give
  back the last one first and hold none in the end.
\<close>

fun follows :: "('l \<Rightarrow> nat) \<Rightarrow> 'l held \<Rightarrow> 'l lock_call list \<Rightarrow> bool" where
  "follows rank h [] \<longleftrightarrow> h = []"
| "follows rank h (Rdlock l # cs) \<longleftrightarrow> list_all (\<lambda>x. rank (fst x) < rank l) h \<and> follows rank ((l, False) # h) cs"
| "follows rank h (Wrlock l # cs) \<longleftrightarrow> list_all (\<lambda>x. rank (fst x) < rank l) h \<and> follows rank ((l, True) # h) cs"
| "follows rank h (Unlock l # cs) \<longleftrightarrow> (case h of [] \<Rightarrow> False | x # h' \<Rightarrow> fst x = l \<and> follows rank h' cs)"

lemma follows_append:
  "follows rank h as \<Longrightarrow> follows rank [] bs \<Longrightarrow> follows rank h (as @ bs)"
proof (induction rank h as rule: follows.induct)
  case (4 rank h l cs)
  then show ?case by (cases h) auto
qed auto

lemma follows_effect:
  assumes "follows rank h (c # cs)" "lock_effect ts c h = Some h'"
  shows "follows rank h' cs"
  using assms by (cases c) (auto split: if_splits list.splits)

text \<open>Nobody writes what another one holds.\<close>

definition exclusive :: "'l lock_thread list \<Rightarrow> bool" where
  "exclusive ts \<longleftrightarrow> (\<forall>i<length ts. \<forall>j<length ts. i \<noteq> j \<longrightarrow>
     (\<forall>l. (l, True) \<in> set (fst (ts ! i)) \<longrightarrow> l \<notin> fst ` set (fst (ts ! j))))"

lemma drop_lock_subset: "set (drop_lock l h) \<subseteq> set h"
  by (induction h) auto

lemma exclusive_step:
  assumes "lock_step ts ts'" "exclusive ts" shows "exclusive ts'"
  using assms(1)
proof (cases rule: lock_stepE)
  case (1 i h c cs h')
  have new: "x \<in> set h \<or> (\<exists>l. x = (l, False) \<and> free_to_read ts l) \<or> (\<exists>l. x = (l, True) \<and> free_to_write ts l)"
    if "x \<in> set h'" for x
    using that 1(4) drop_lock_subset [of _ h] by (cases c) (auto split: if_splits)
  show ?thesis
    unfolding exclusive_def
  proof (intro allI impI)
    fix a b l
    assume ab: "a < length ts'" "b < length ts'" "a \<noteq> b" and w: "(l, True) \<in> set (fst (ts' ! a))"
    have old: "(l, True) \<in> set (fst (ts ! a)) \<Longrightarrow> l \<notin> fst ` set (fst (ts ! b))"
      using assms(2) ab 1(1) by (simp add: exclusive_def)
    consider "a = i" | "b = i" | "a \<noteq> i" "b \<noteq> i" by blast
    then show "l \<notin> fst ` set (fst (ts' ! b))"
    proof cases
      case 1
      with w \<open>i < length ts\<close> \<open>ts' = _\<close> have "(l, True) \<in> set h'" by simp
      then have "(l, True) \<in> set (fst (ts ! a)) \<or> free_to_write ts l" using new \<open>ts ! i = _\<close> 1 by fastforce
      moreover have "free_to_write ts l \<Longrightarrow> l \<notin> fst ` set (fst (ts ! b))"
        using ab \<open>ts' = _\<close> by (auto simp: free_to_write_def list_all_length split_beta)
      ultimately show ?thesis using old ab 1 \<open>ts' = _\<close> by auto
    next
      case 2
      have wa: "(l, True) \<in> set (fst (ts ! a))" using w ab 2 \<open>ts' = _\<close> by simp
      show ?thesis
      proof
        assume "l \<in> fst ` set (fst (ts' ! b))"
        then obtain m where "(l, m) \<in> set h'" using 2 \<open>i < length ts\<close> \<open>ts' = _\<close> by auto
        then have "(l, m) \<in> set h \<or> free_to_read ts l \<or> free_to_write ts l" using new by fastforce
        moreover have "(l, m) \<notin> set h" using old [OF wa] 2 \<open>ts ! i = _\<close> by force
        ultimately have "free_to_read ts l \<or> free_to_write ts l" by blast
        moreover have "a < length ts" using ab \<open>ts' = _\<close> by simp
        moreover have "\<not> free_to_read ts l" "\<not> free_to_write ts l"
          using wa \<open>a < length ts\<close> by (force simp: free_to_read_def free_to_write_def list_all_length split_beta)+
        ultimately show False by blast
      qed
    next
      case 3
      then show ?thesis using old w ab \<open>ts' = _\<close> by simp
    qed
  qed
qed

text \<open>Every step takes one call away.\<close>

definition calls_left :: "'l lock_thread list \<Rightarrow> nat" where
  "calls_left ts = sum_list (map (\<lambda>t. length (snd t)) ts)"

lemma calls_left_step:
  assumes "lock_step ts ts'" shows "calls_left ts' < calls_left ts"
  using assms
proof (cases rule: lock_stepE)
  case (1 i h c cs h')
  have "ts ! i \<in> set ts" using 1(2) by simp
  then have "length (snd (ts ! i)) \<le> sum_list (map (\<lambda>t. length (snd t)) ts)" by (intro member_le_sum_list) auto
  then show ?thesis using 1 by (simp add: calls_left_def map_update sum_list_update)
qed

section \<open>The interface\<close>

text \<open>Operations whose calls follow one order of the locks.\<close>

locale lock_discipline =
  fixes rank :: "'l \<Rightarrow> nat" and script :: "'op \<Rightarrow> 'l lock_call list"
  assumes ordered: "follows rank [] (script op)"
begin

lemma scripts_ordered: "follows rank [] (concat (map script ops))"
  by (induction ops) (auto intro: follows_append ordered)

lemma follows_reachable:
  assumes "lock_step\<^sup>*\<^sup>* (threads_of script opss) ts"
  shows "list_all (\<lambda>(h, cs). follows rank h cs) ts"
  using assms
proof (induction rule: rtranclp_induct)
  case base
  then show ?case using scripts_ordered by (simp add: threads_of_def list_all_iff)
next
  case (step ts ts')
  from step(2) show ?case
  proof (cases rule: lock_stepE)
    case (1 i h c cs h')
    have "follows rank h (c # cs)" using step(3) 1(2,3) by (force simp: list_all_length)
    from follows_effect [OF this 1(4)] step(3) 1 show ?thesis
      by (auto simp: list_all_length nth_list_update)
  qed
qed

text \<open>The thread that holds the lock of the highest rank can always go on.\<close>

lemma some_step:
  assumes f: "list_all (\<lambda>(h, cs). follows rank h cs) ts" and t: "(h0, c0 # cs0) \<in> set ts"
  shows "\<exists>ts'. lock_step ts ts'"
proof -
  let ?held = "\<Union>(h, cs) \<in> set ts. (\<lambda>x. rank (fst x)) ` set h"
  have fin: "finite ?held" by auto
  obtain h c cs where top: "(h, c # cs) \<in> set ts" "\<And>x l. x \<in> ?held \<Longrightarrow> c = Rdlock l \<or> c = Wrlock l \<Longrightarrow> x < rank l"
  proof (cases "?held = {}")
    case True
    with t that show ?thesis by blast
  next
    case False
    have "Max ?held \<in> ?held" by (rule Max_in [OF fin False])
    then obtain h cs y where y: "(h, cs) \<in> set ts" "y \<in> set h" "rank (fst y) = Max ?held" by force
    with f have fo: "follows rank h cs" by (auto simp: list_all_iff)
    with y obtain c cs' where c: "cs = c # cs'" by (cases cs) auto
    have "x < rank l" if "x \<in> ?held" "c = Rdlock l \<or> c = Wrlock l" for x l
    proof -
      have "rank (fst y) < rank l" using fo c that(2) y(2) by (auto simp: list_all_iff)
      moreover have "x \<le> Max ?held" using fin that(1) by simp
      ultimately show ?thesis using y(3) by simp
    qed
    with that y(1) c show ?thesis by blast
  qed
  then obtain i where i: "i < length ts" "ts ! i = (h, c # cs)" by (auto simp: in_set_conv_nth)
  have free: "free_to_read ts l \<and> free_to_write ts l" if "c = Rdlock l \<or> c = Wrlock l" for l
  proof -
    have "(l, m) \<notin> set h'" if "(h', cs') \<in> set ts" for m h' cs'
    proof
      assume "(l, m) \<in> set h'"
      with that have "rank l \<in> ?held" by force
      with top(2) \<open>c = Rdlock l \<or> c = Wrlock l\<close> show False by blast
    qed
    then show ?thesis by (force simp: free_to_read_def free_to_write_def list_all_iff)
  qed
  have "\<exists>h'. lock_effect ts c h = Some h'" using free by (cases c) auto
  then obtain h' where "lock_effect ts c h = Some h'" by blast
  from lock_step.call [OF i this] show ?thesis by blast
qed

lemma never_stuck:
  assumes "lock_step\<^sup>*\<^sup>* (threads_of script opss) ts" "\<nexists>ts'. lock_step ts ts'" "t \<in> set ts"
  shows "t = ([], [])"
proof -
  note f = follows_reachable [OF assms(1)]
  obtain h cs where t: "t = (h, cs)" by (metis surj_pair)
  have "cs = []" using some_step [OF f] assms(2,3) t by (cases cs) auto
  with f assms(3) t show ?thesis by (auto simp: list_all_iff)
qed

lemma reachable_exclusive:
  assumes "lock_step\<^sup>*\<^sup>* (threads_of script opss) ts" shows "exclusive ts"
  using assms
proof (induction rule: rtranclp_induct)
  case base
  then show ?case by (auto simp: exclusive_def threads_of_def)
next
  case (step ts ts')
  then show ?case using exclusive_step by blast
qed

end

section \<open>The locks of the program\<close>

fun lock_rank :: "lock \<Rightarrow> nat" where
  "lock_rank Context_lock = 0"
| "lock_rank (Backend_lock i) = Suc i"

lemma follows_visits:
  assumes "a = Rdlock \<or> a = Wrlock" "follows lock_rank [(Context_lock, m)] cs"
  shows "follows lock_rank [(Context_lock, m)] (visit_backends a n @ cs)"
  using assms(2)
proof (induction n arbitrary: cs)
  case (Suc n)
  have "follows lock_rank [(Context_lock, m)] ([a (Backend_lock n), Unlock (Backend_lock n)] @ cs)"
    using assms(1) Suc.prems by auto
  from Suc.IH [OF this] show ?case by (simp add: visit_backends_def)
qed (simp add: visit_backends_def)

interpretation program: lock_discipline lock_rank "locks_of n" for n
proof
  fix op
  show "follows lock_rank [] (locks_of n op)"
    by (cases op)
       (auto simp: watch_cache_locks_def watch_update_locks_def monitor_locks_def determine_locks_def auth_find_locks_def
          count_client_locks_def reload_locks_def intro!: follows_visits split: option.split)
qed

text \<open>
  C18: No deadlock: for any number of backends and any threads, each of which carries out any
  sequence of the operations of the watcher, the monitor, the workers and the main thread, in
  every interleaving of their calls of rdlock, wrlock and unlock: when no thread can go on,
  every thread has finished and holds no lock; and every step takes one call away, so that
  state is reached.
\<close>

lemma no_deadlock:
  assumes "lock_step\<^sup>*\<^sup>* (threads_of (locks_of n) opss) ts"
  shows "(\<forall>ts'. lock_step ts ts' \<longrightarrow> calls_left ts' < calls_left ts) \<and>
    ((\<nexists>ts'. lock_step ts ts') \<longrightarrow> (\<forall>t\<in>set ts. t = ([], [])))"
  using program.never_stuck [OF assms] calls_left_step by blast


end
