(* ===== verification/Examples_Run.thy ===== *)
theory Examples_Run
  imports Examples Connect_Run Config_Units Locks
begin

text \<open>
  The properties of the start in the background, the connections to backends, the numbers of the
  configuration and the locks at concrete inputs.
\<close>

section \<open>The start in the background\<close>

definition ex_start_config :: bytes where
  "ex_start_config = ''user vcap
group vcap
pidfile /p
authdb /a
listen *:1
monitor *:2
''"

definition ex_start_files :: filesys where
  "ex_start_files path = Some (Some (if path = ''/a'' then '''' else ex_start_config))"

definition ex_sys :: sys_answers where
  "ex_sys = \<lparr>sy_open = True, sy_passwd = (\<lambda>_. Some 7), sy_group = (\<lambda>_. Some 8), sy_chdir = 0, sy_pipe = 0, sy_fork = 0,
     sy_getpid = 42, sy_lock = 0, sy_setsid = 0, sy_write = 3, sy_fchown = 0, sy_setgid = 0, sy_setuid = 0,
     sy_freopen = (True, True, True), sy_inform = 0, sy_reads = [], sy_busy = False, sy_error = []\<rparr>"

definition ex_process :: process where
  "ex_process = \<lparr>ps_uid = 0, ps_gid = 0, ps_umask = 18, ps_cwd = ''/root'', ps_pidfile = Some ''12345'',
     ps_piddir = [], ps_owner = (0, 0), ps_locked = False, ps_leader = False, ps_null = (False, False, False),
     ps_told = []\<rparr>"

definition ex_sockets :: world where
  "ex_sockets = (ex_world (\<lambda>_. []))\<lparr>netq := [3, 0, 0, 0, 0, 4, 0, 0, 0, 0, 0, 5, 0, 0, 0, 0, 6, 0, 0, 0, 0, 0]\<rparr>"

lemma ex_start_runs:
  "\<exists>p1 level s c w1. main_start ex_start_files (\<lambda>_. 0) (\<lambda>_ _. None) [] ex_sys [] ex_process ex_sockets =
     (p1, Goes_on (level, s, c, w1)) \<and> \<not> opt_foreground s \<and> st_pidfile c = Some ''/p''"
proof -
  have "case main_start ex_start_files (\<lambda>_. 0) (\<lambda>_ _. None) [] ex_sys [] ex_process ex_sockets of
      (p1, Goes_on (level, s, c, w1)) \<Rightarrow> \<not> opt_foreground s \<and> st_pidfile c = Some ''/p'' | _ \<Rightarrow> False"
    by code_simp
  then show ?thesis by (auto split: prod.splits ended.splits)
qed


lemma locked_out_witness:
  "\<exists>p1 r. daemonize (ex_sys\<lparr>sy_lock := -1\<rparr>) (Some ''/p'') (Some ''vcap'') (Some ''vcap'') ex_process = (p1, r) \<and>
     r \<noteq> Goes_on () \<and> ps_pidfile p1 = Some ''12345'' \<and> ps_uid p1 = 0"
proof -
  obtain p1 r where d: "daemonize (ex_sys\<lparr>sy_lock := -1\<rparr>) (Some ''/p'') (Some ''vcap'') (Some ''vcap'') ex_process = (p1, r)"
    by (metis surj_pair)
  have "r \<noteq> Goes_on () \<and> ps_pidfile p1 = Some ''12345'' \<and> ps_uid p1 = 0"
    using locked_out [OF _ d] by (simp add: ex_process_def)
  with d show ?thesis by blast
qed


section \<open>Connecting\<close>

definition ex_backend_conn :: CONNECTION where
  "ex_backend_conn = (pgr_conn_init 0)\<lparr>cn_hostname := Some ''*'', cn_port := 5432, cn_pwhash := Some ex_hash,
     cn_params := ex_params\<rparr>"

definition ex_dialogue :: "bytes list \<Rightarrow> world" where
  "ex_dialogue bs = (ex_world (\<lambda>_. map Chunk bs))\<lparr>netq := [7, 0, 0]\<rparr>"

lemma ex_dialogue_ok: "dialogue fd bs (ex_dialogue bs)"
  by (simp add: dialogue_def ex_dialogue_def ex_world_def)

lemma ex_connects:
  "\<exists>w0. pgr_connect (\<lambda>_ _. None) (cn_hostname ex_backend_conn) (cn_port ex_backend_conn)
     (int32 (cn_timeout ex_backend_conn * 1000)) (ex_dialogue bs) = Some (7, w0)"
  by (simp add: pgr_connect_def ex_backend_conn_def Let_def ex_dialogue_def sys_net_def ipv4_hostport_def)


definition ex_server :: CONNECTION where
  "ex_server = (pgr_conn_init 0)\<lparr>cn_fd := 5, cn_salt := ''wxyz''\<rparr>"

lemma sides_agree_witness:
  "\<exists>w1 v1. pgr_conn_connect (\<lambda>_ _. None) ex_backend_conn (ex_dialogue (map reply_bytes (granting ''wxyz''))) =
     Some (Ret (0, ex_backend_conn\<lparr>cn_fd := 7, cn_salt := ''wxyz''\<rparr>, w1)) \<and>
   sent w1 7 = concat [startup_bytes ex_params, pw_bytes (md5_answer ex_hash ''wxyz'')] \<and>
   pgr_conn_accept ex_context ex_server (ex_dialogue [startup_bytes ex_params, pw_bytes (md5_answer ex_hash ''wxyz'')]) =
     Some (Ret (0, note_params ex_context ex_params ex_server, v1)) \<and>
   sent v1 5 = concat (map reply_bytes (granting ''wxyz''))"
proof -
  from ex_connects obtain w0 where
    w0: "pgr_connect (\<lambda>_ _. None) (cn_hostname ex_backend_conn) (cn_port ex_backend_conn)
       (int32 (cn_timeout ex_backend_conn * 1000)) (ex_dialogue (map reply_bytes (granting ''wxyz''))) = Some (7, w0)" by blast
  have c: "cn_pwhash ex_backend_conn = Some ex_hash" "cn_params ex_backend_conn = ex_params"
    by (simp_all add: ex_backend_conn_def)
  have s: "cn_fd ex_server = 5" "5 \<noteq> MBUF_SAME_FD" "length (cn_salt ex_server) = 4" "cn_salt ex_server = ''wxyz''"
    by (simp_all add: ex_server_def MBUF_SAME_FD_def)
  have u: "map_of (rev ex_params) ''user'' = Some ''alice''" "pgr_auth_find ex_context ''alice'' = Some ex_hash"
    by (simp_all add: ex_params_def ex_find)
  have p: "list_all param_ok ex_params" "startup_len ex_params \<le> 512" "startup_len ex_params \<noteq> 16"
    using ex_params_ok by (simp_all add: list_all_iff)
  have e: "sent (ex_dialogue bs) fd = []" for bs fd by (simp add: ex_dialogue_def ex_world_def)
  show ?thesis
    using sides_agree [OF w0 _ c(1) length_ex_hash c(2) p u s(1-3), unfolded s(4), OF _ ex_dialogue_ok ex_dialogue_ok]
    unfolding e by simp
qed

section \<open>Units\<close>

lemma units_read_witness:
  "\<exists>t l1. cfg_emit (the (lexer_init CfgAny (Some ''5gb;''))) = Some (t, l1) \<and> tk_type t = TY_SIZE \<and>
     uint (tk_i t) = 2 ^ 30"
proof -
  have d: "dec 5 = ''5''" by code_simp
  have "lx_view (the (lexer_init CfgAny (Some ''5gb;''))) (Some CfgAny) [] (dec 5 @ ''gb'' @ '';'')"
    using ex_view [of "''5gb;''"] by (simp add: d)
  from units_read [OF this, of TY_SIZE "1024 * 1024 * 1024"] show ?thesis by auto
qed

definition ex_health_parser :: cfg_parser where
  "ex_health_parser = (the (cfg_parser_init (Some ''check 5m; database x'')))\<lparr>pc_f := Some ParseHealth\<rparr>"

lemma minutes_stop_witness:
  "\<exists>l. cfg_parse (\<lambda>_. 0) ex_health_parser = Some (0, ex_health_parser\<lparr>pc_interval := Some 5, pc_l := l\<rparr>)"
proof -
  have d: "dec 5 = ''5''" by code_simp
  have f: "pc_f ex_health_parser = Some ParseHealth" by (simp add: ex_health_parser_def)
  have "ahead ex_health_parser ([] @ ''check'' @ CHR '' '' # dec 5 @ ''m'' @ CHR '';'' # '' database x'')"
    by (simp add: ex_health_parser_def cfg_parser_init_def lexer_init_def lx_view_def d)
  from minutes_stop [OF f this, of "\<lambda>_. 0"] show ?thesis by (simp add: blank_def after_number_def)
qed

section \<open>Locks\<close>

lemma no_deadlock_witness:
  "\<exists>ts. lock_step (threads_of (locks_of 2) [[Watch_cache], [Determine (Some 1), Count_client]]) ts"
  using no_deadlock [of 2 "[[Watch_cache], [Determine (Some 1), Count_client]]" "threads_of (locks_of 2) [[Watch_cache], [Determine (Some 1), Count_client]]"]
  by (auto simp: threads_of_def watch_cache_locks_def)

definition ex_counting :: "lock lock_thread list" where
  "ex_counting = [([(Context_lock, True)], [Unlock Context_lock]), ([], auth_find_locks)]"


end
