(* ===== verification/Msg_Frame.thy ===== *)
theory Msg_Frame
  imports Msg_Laws Net
begin

text \<open>
  What the buffer's operations leave alone, on every path and whatever the system calls return:
  octets go out on \<^verbatim>\<open>outfd\<close> only (those for the overflow file go to that file), no descriptor is
  closed, the descriptors and the size of the buffer stay.
\<close>

definition touch :: "int set \<Rightarrow> world \<Rightarrow> world \<Rightarrow> bool" where
  "touch S w w' \<longleftrightarrow> (\<forall>fd. fd \<notin> S \<longrightarrow> sent w' fd = sent w fd) \<and>
     (\<forall>fd. files w fd \<noteq> None \<longrightarrow> files w' fd \<noteq> None) \<and> closed w' = closed w"

definition cache_ok :: "mbuf \<Rightarrow> world \<Rightarrow> bool" where
  "cache_ok m w \<longleftrightarrow> (0 \<le> cache m \<longrightarrow> files w (cache m) \<noteq> None)"

text \<open>\<open>K\<close>: the operation never opens the overflow file.\<close>

definition framed :: "bool \<Rightarrow> mbuf \<Rightarrow> world \<Rightarrow> mbuf \<Rightarrow> world \<Rightarrow> bool" where
  "framed K m w m' w' \<longleftrightarrow> touch {outfd m} w w' \<and> cache_ok m' w' \<and> infd m' = infd m \<and>
     outfd m' = outfd m \<and> len m' = len m \<and> (K \<longrightarrow> cache m' = cache m)"

lemma touch_refl [simp]: "touch S w w"
  by (simp add: touch_def)

lemma touch_trans: "touch S w w1 \<Longrightarrow> touch S w1 w2 \<Longrightarrow> touch S w w2"
  by (auto simp: touch_def)

lemma touch_mono: "touch S w w1 \<Longrightarrow> S \<subseteq> T \<Longrightarrow> touch T w w1"
  by (auto simp: touch_def)

lemma touch_cache: "touch S w w1 \<Longrightarrow> cache_ok m w \<Longrightarrow> cache m1 = cache m \<Longrightarrow> cache_ok m1 w1"
  by (auto simp: touch_def cache_ok_def)

lemma framed_refl: "cache_ok m w \<Longrightarrow> framed K m w m w"
  by (simp add: framed_def)

lemma framed_trans: "framed K m w m1 w1 \<Longrightarrow> framed K m1 w1 m2 w2 \<Longrightarrow> framed K m w m2 w2"
  using touch_trans by (simp add: framed_def) blast

text \<open>A step that keeps the fields of the buffer and touches only the output.\<close>

lemma framedI:
  "cache_ok m w \<Longrightarrow> touch {outfd m} w w1 \<Longrightarrow> cache m1 = cache m \<Longrightarrow> infd m1 = infd m \<Longrightarrow>
   outfd m1 = outfd m \<Longrightarrow> len m1 = len m \<Longrightarrow> framed K m w m1 w1"
  using touch_cache by (simp add: framed_def)

lemma kept_fields [simp]:
  "infd (take_in bs m) = infd m" "outfd (take_in bs m) = outfd m" "cache (take_in bs m) = cache m" "len (take_in bs m) = len m"
  "infd (drop_window m) = infd m" "outfd (drop_window m) = outfd m" "cache (drop_window m) = cache m" "len (drop_window m) = len m"
  "infd (cut_front l m) = infd m" "outfd (cut_front l m) = outfd m" "cache (cut_front l m) = cache m" "len (cut_front l m) = len m"
  by (simp_all add: take_in_def drop_window_def cut_front_def)

section \<open>System calls\<close>

lemma touch_read: "sys_read fd k w = (n, bs, w1) \<Longrightarrow> touch S w w1"
  by (auto simp: sys_read_def touch_def Let_def split: option.splits if_splits list.splits rd.splits)

lemma touch_put: "fd \<in> S \<or> files w fd \<noteq> None \<Longrightarrow> touch S w (put fd bs w)"
  by (auto simp: put_def touch_def split: option.splits)

lemma touch_write: "sys_write fd bs w = (n, w1) \<Longrightarrow> fd \<in> S \<or> files w fd \<noteq> None \<Longrightarrow> touch S w w1"
  by (auto simp: sys_write_def touch_def Let_def put_def split: option.splits list.splits wr.splits)

lemma touch_writen: "writen x fd b l w = (n, w1) \<Longrightarrow> fd \<in> S \<or> files w fd \<noteq> None \<Longrightarrow> touch S w w1"
proof (induction x fd b l w rule: writen.induct)
  case (1 x fd b l w)
  obtain k w2 where wr: "sys_write fd (take l b) w = (k, w2)" by (metis surj_pair)
  have t: "touch S w w2" by (rule touch_write [OF wr "1.prems"(2)])
  then have f: "fd \<in> S \<or> files w2 fd \<noteq> None" using "1.prems"(2) by (auto simp: touch_def)
  show ?case
    using "1.IH" [OF _ wr [symmetric] _ _ f] "1.prems"(1) touch_trans [OF t] t
    by (auto simp: writen.simps [of x fd b l w] wr split: if_splits)
qed

lemma touch_write_all: "write_all fd b w = (ok, w1) \<Longrightarrow> fd \<in> S \<Longrightarrow> touch S w w1"
proof (induction fd b w rule: write_all.induct)
  case (1 fd b w)
  obtain k w2 where wr: "sys_write fd b w = (k, w2)" by (metis surj_pair)
  have t: "touch S w w2" using touch_write [OF wr] "1.prems"(2) by blast
  show ?case
    using "1.IH" [OF _ wr [symmetric]] "1.prems" touch_trans [OF t] t
    by (auto simp: write_all.simps [of fd b w] wr split: if_splits)
qed

lemma touch_sendn: "pgr_sendn fd b w = (rc, w1) \<Longrightarrow> fd \<in> S \<Longrightarrow> touch S w w1"
proof (induction fd b w rule: pgr_sendn.induct)
  case (1 fd b w)
  obtain k w2 where wr: "sys_write fd b w = (k, w2)" by (metis surj_pair)
  have t: "touch S w w2" using touch_write [OF wr] "1.prems"(2) by blast
  show ?case
    using "1.IH" [OF _ wr [symmetric]] "1.prems" touch_trans [OF t] t
    by (auto simp: pgr_sendn.simps [of fd b w] wr split: if_splits)
qed

section \<open>The buffer's operations\<close>

lemma framed_recv: "pgr_mbuf_recv m w = (r, m1, w1) \<Longrightarrow> cache_ok m w \<Longrightarrow> framed K m w m1 w1"
proof (induction m w rule: pgr_mbuf_recv.induct)
  case (1 m w)
  obtain n bs w2 where rd: "sys_read (infd m) (len m - fill m) w = (n, bs, w2)" by (metis surj_pair)
  have f: "framed K m w (take_in bs m) w2" "framed K m w m w2"
    using touch_read [OF rd] "1.prems"(2) by (auto intro: framedI)
  then have c: "cache_ok (take_in bs m) w2" by (simp add: framed_def)
  show ?case
    using "1.IH" [OF _ rd [symmetric] _ _ _ c] "1.prems" framed_trans [OF f(1)] f(2) framed_refl
    by (auto simp: pgr_mbuf_recv.simps [of m w] rd split: if_splits)
qed

lemma framed_relay_loop: "relay_loop l ok m w = (r, m1, w1) \<Longrightarrow> cache_ok m w \<Longrightarrow> framed K m w m1 w1"
proof (induction l ok m w rule: relay_loop.induct)
  case (1 l ok m w)
  obtain ok1 w2 where a: "(if ok then write_all (outfd m) (window m) w else (False, w)) = (ok1, w2)"
    by (metis surj_pair)
  obtain ok3 w4 where b: "(if ok then write_all (outfd m) (take l (window m)) w else (False, w)) = (ok3, w4)"
    by (metis surj_pair)
  obtain n bs w3 where rd: "sys_read (infd m) (room (drop_window m)) w2 = (n, bs, w3)" by (metis surj_pair)
  have ta: "touch {outfd m} w w2" "touch {outfd m} w w4"
    using a b touch_write_all by (auto split: if_splits)
  then have t3: "touch {outfd m} w w3" using touch_trans touch_read [OF rd] by blast
  have f: "framed K m w (take_in bs (drop_window m)) w3" "framed K m w (drop_window m) w3" "framed K m w (cut_front l m) w4"
    using t3 ta "1.prems"(2) by (auto intro: framedI)
  then have c: "cache_ok (take_in bs (drop_window m)) w3" by (simp add: framed_def)
  show ?case
    using "1.IH" [OF _ a [symmetric] rd [symmetric] _ _ _ c] "1.prems" framed_trans [OF f(1)] f(2,3) framed_refl
    by (auto simp: relay_loop.simps [of l ok m w] a b rd split: if_splits)
qed

lemma framed_relay: "pgr_mbuf_relay m w = (r, m1, w1) \<Longrightarrow> cache_ok m w \<Longrightarrow> framed K m w m1 w1"
  by (auto simp: pgr_mbuf_relay_def framed_relay_loop framed_refl split: if_splits)

lemma framed_discard_loop: "discard_loop l m w = (r, m1, w1) \<Longrightarrow> cache_ok m w \<Longrightarrow> framed K m w m1 w1"
proof (induction l m w rule: discard_loop.induct)
  case (1 l m w)
  obtain n bs w3 where rd: "sys_read (infd m) (room (drop_window m)) w = (n, bs, w3)" by (metis surj_pair)
  have t3: "touch {outfd m} w w3" using touch_read [OF rd] .
  have f: "framed K m w (take_in bs (drop_window m)) w3" "framed K m w (drop_window m) w3" "framed K m w (cut_front l m) w"
    using t3 "1.prems"(2) by (auto intro: framedI)
  then have c: "cache_ok (take_in bs (drop_window m)) w3" by (simp add: framed_def)
  show ?case
    using "1.IH" [OF _ rd [symmetric] _ _ _ c] "1.prems" framed_trans [OF f(1)] f(2,3) framed_refl
    by (auto simp: discard_loop.simps [of l m w] rd split: if_splits)
qed

lemma framed_discard: "pgr_mbuf_discard m w = (r, m1, w1) \<Longrightarrow> cache_ok m w \<Longrightarrow> framed K m w m1 w1"
  by (auto simp: pgr_mbuf_discard_def framed_discard_loop framed_refl split: if_splits)

lemma framed_drain:
  assumes "pgr_mbuf_drain m until w = Some (r, m1, w1)" and "cache_ok m w"
  shows "framed K m w m1 w1"
proof -
  have "cache_ok m w \<longrightarrow> framed K m w (fst (snd (r, m1, w1))) (snd (snd (r, m1, w1)))"
  proof (rule pgr_mbuf_drain.raw_induct [where
        P = "\<lambda>m until w x. cache_ok m w \<longrightarrow> framed K m w (fst (snd x)) (snd (snd x))", OF _ assms(1)])
    fix f m until w x
    assume IH: "\<And>m until w x. f m until w = Some x \<Longrightarrow> cache_ok m w \<longrightarrow> framed K m w (fst (snd x)) (snd (snd x))"
      and eq: "(let type = pgr_mbuf_msgtype m
                in if type < 0 then Some (-1, m, w)
                   else (case pgr_mbuf_discard m w of
                     (_, m1, w1) \<Rightarrow> if type = until then Some (0, m1, w1)
                       else (case pgr_mbuf_recv m1 w1 of (_, m2, w2) \<Rightarrow> f m2 until w2))) = Some x"
    obtain r1 m1 w1 where d: "pgr_mbuf_discard m w = (r1, m1, w1)" by (metis surj_pair)
    obtain r2 m2 w2 where r: "pgr_mbuf_recv m1 w1 = (r2, m2, w2)" by (metis surj_pair)
    show "cache_ok m w \<longrightarrow> framed K m w (fst (snd x)) (snd (snd x))"
    proof
      assume c: "cache_ok m w"
      have f1: "framed K m w m1 w1" by (rule framed_discard [OF d c])
      then have c1: "cache_ok m1 w1" by (simp add: framed_def)
      have f2: "framed K m w m2 w2" by (rule framed_trans [OF f1 framed_recv [OF r c1]])
      then have c2: "cache_ok m2 w2" by (simp add: framed_def)
      show "framed K m w (fst (snd x)) (snd (snd x))"
        using eq IH [of m2 until w2] c2 framed_trans [OF f2] f1 framed_refl [OF c]
        by (auto simp: Let_def d r split: if_splits)
    qed
  qed
  with assms(2) show ?thesis by simp
qed

lemma framed_warm:
  assumes c: "cache_ok m w"
  shows "warm_cache m w = Inr (m1, w1) \<Longrightarrow> framed False m w m1 w1 \<and> (0 \<le> cache m1)"
    and "warm_cache m w = Inl (m1, w1) \<Longrightarrow> framed False m w m1 w1"
proof -
  obtain fd w2 where t: "sys_tmpfile w = (fd, w2)" by (metis surj_pair)
  have tw: "touch S w w2" for S using t by (auto simp: sys_tmpfile_def touch_def split: list.splits)
  have f: "0 \<le> fd \<Longrightarrow> files w2 fd \<noteq> None" using t by (auto simp: sys_tmpfile_def split: list.splits)
  obtain n w3 where wr: "writen 0 fd (buf m) (start m) w2 = (n, w3)" by (metis surj_pair)
  have t3: "0 \<le> fd \<Longrightarrow> touch S w w3 \<and> files w3 fd \<noteq> None" for S
    using touch_trans [OF tw touch_writen [OF wr]] touch_writen [OF wr, of "{}"] f by (auto simp: touch_def)
  show "warm_cache m w = Inr (m1, w1) \<Longrightarrow> framed False m w m1 w1 \<and> (0 \<le> cache m1)"
    and "warm_cache m w = Inl (m1, w1) \<Longrightarrow> framed False m w m1 w1"
    using framed_refl [OF c] tw t3 f
    by (auto simp: warm_cache_def Let_def t wr framed_def cache_ok_def split: if_splits)
qed

lemma framed_send_loop: "send_loop l ok m w = (r, m1, w1) \<Longrightarrow> cache_ok m w \<Longrightarrow> framed False m w m1 w1"
proof (induction l ok m w arbitrary: r m1 w1 rule: send_loop.induct)
  case (1 l ok m w)
  show ?case
  proof (cases "available m < l")
    case more: True
    show ?thesis
    proof (cases "warm_cache m w")
      case (Inl p)
      then show ?thesis
        using "1.prems" more framed_warm(2) [OF "1.prems"(2)]
        by (cases p) (auto simp: send_loop.simps [of l ok m w])
    next
      case (Inr p)
      obtain m1 w1 where p: "p = (m1, w1)" by (cases p)
      have f1: "framed False m w m1 w1" and pos: "0 \<le> cache m1"
        using framed_warm(1) [OF "1.prems"(2) Inr [unfolded p]] by auto
      then have c1: "cache_ok m1 w1" by (simp add: framed_def)
      obtain n1 w2 where a: "writen 0 (outfd m1) (drop (start m1) (buf m1)) (available m1) w1 = (n1, w2)"
        by (metis surj_pair)
      obtain n2 w3 where b: "writen 0 (cache m1) (drop (start m1) (buf m1)) (available m1) w2 = (n2, w3)"
        by (metis surj_pair)
      obtain n bs w4 where rd: "sys_read (infd m1) (room (drop_window m1)) w3 = (n, bs, w4)"
        by (metis surj_pair)
      have t2: "touch {outfd m1} w1 w2" using touch_writen [OF a] by blast
      have "files w2 (cache m1) \<noteq> None" using t2 c1 pos by (auto simp: touch_def cache_ok_def)
      then have t3: "touch {outfd m1} w1 w3" using touch_trans [OF t2 touch_writen [OF b]] by blast
      then have t4: "touch {outfd m1} w1 w4" using touch_trans touch_read [OF rd] by blast
      have "framed False m1 w1 m1 w3" "framed False m1 w1 (drop_window m1) w4" "framed False m1 w1 (take_in bs (drop_window m1)) w4"
        using t3 t4 c1 by (auto intro: framedI)
      then have f: "framed False m w m1 w3" "framed False m w (drop_window m1) w4" "framed False m w (take_in bs (drop_window m1)) w4"
        by (simp_all add: framed_trans [OF f1])
      then have c4: "cache_ok (take_in bs (drop_window m1)) w4" by (simp add: framed_def)
      show ?thesis
        using "1.IH" [OF more Inr p [symmetric] a [symmetric] b [symmetric] _ rd [symmetric] refl _ _ c4]
          "1.prems"(1) more f framed_trans [OF f(3)]
        by (auto simp: send_loop.simps [of l ok m w] Inr p a b rd split: if_splits)
    qed
  next
    case False
    note c = "1.prems"(2)
    obtain n1 w2 where a: "writen 0 (outfd m) (drop (start m) (buf m)) l w = (n1, w2)" by (metis surj_pair)
    obtain n2 w3 where b: "writen 0 (cache m) (drop (start m) (buf m)) l w2 = (n2, w3)" by (metis surj_pair)
    have t2: "touch {outfd m} w w2" using touch_writen [OF a] by blast
    have t3: "0 \<le> cache m \<Longrightarrow> touch {outfd m} w w3"
      using touch_trans [OF t2 touch_writen [OF b]] t2 c by (auto simp: touch_def cache_ok_def)
    have "framed False m w (m\<lparr>start := start m + l\<rparr>) w2" "0 \<le> cache m \<Longrightarrow> framed False m w m w3"
      "0 \<le> cache m \<Longrightarrow> framed False m w (cut_front l m) w3"
      using t2 t3 c by (auto intro: framedI)
    then show ?thesis
      using "1.prems" False framed_refl [OF c]
      by (auto simp: send_loop.simps [of l ok m w] a b split: if_splits)
  qed
qed

lemma framed_send: "pgr_mbuf_send m w = (r, m1, w1) \<Longrightarrow> cache_ok m w \<Longrightarrow> framed False m w m1 w1"
  by (auto simp: pgr_mbuf_send_def framed_send_loop framed_refl split: if_splits)

lemma touch_copy_cache: "copy_cache fd out k w = (ok, w1) \<Longrightarrow> out \<in> S \<Longrightarrow> touch S w w1"
proof (induction fd out k w rule: copy_cache.induct)
  case (1 fd out k w)
  obtain n bs w2 where rd: "sys_read fd 2048 w = (n, bs, w2)" by (metis surj_pair)
  obtain j w3 where wr: "writen 0 out bs (nat n) w2 = (j, w3)" by (metis surj_pair)
  have t2: "touch S w w2" by (rule touch_read [OF rd])
  have t3: "touch S w w3" using touch_trans [OF t2 touch_writen [OF wr]] "1.prems"(2) by blast
  show ?case
    using "1.IH" [OF _ rd [symmetric] refl _ wr [symmetric]] "1.prems" touch_trans [OF t3] t2 t3
    by (auto simp: copy_cache.simps [of fd out k w] rd wr split: if_splits)
qed

lemma framed_resend_prefix: "resend_prefix n m w = (r, m1, w1) \<Longrightarrow> cache_ok m w \<Longrightarrow> framed K m w m1 w1"
proof (induction n m w rule: resend_prefix.induct)
  case (1 n m w)
  obtain k w2 where wr: "sys_write (outfd m) (take (n - start m) (drop (start m) (buf m))) w = (k, w2)"
    by (metis surj_pair)
  have t2: "touch {outfd m} w w2" using touch_write [OF wr] by blast
  have f: "framed K m w (m\<lparr>start := start m + nat k\<rparr>) w2" "framed K m w m w2"
    using t2 "1.prems"(2) by (auto intro: framedI)
  then have c: "cache_ok (m\<lparr>start := start m + nat k\<rparr>) w2" by (simp add: framed_def)
  show ?case
    using "1.IH" [OF _ wr [symmetric] _ _ c] "1.prems" framed_trans [OF f(1)] f(2) framed_refl
    by (auto simp: resend_prefix.simps [of n m w] wr split: if_splits)
qed

lemma framed_resend:
  assumes r: "pgr_mbuf_resend m w = (r, m1, w1)" and c: "cache_ok m w"
  shows "framed K m w m1 w1"
proof -
  obtain ok w2 where cc: "(if 0 \<le> cache m
            then copy_cache (cache m) (outfd m) (int (sys_tell (cache m) w)) (sys_rewind (cache m) w)
            else (True, w)) = (ok, w2)" by (metis surj_pair)
  have "touch {outfd m} w (sys_rewind (cache m) w)" by (auto simp: sys_rewind_def touch_def split: option.splits)
  then have t2: "touch {outfd m} w w2"
    using cc touch_trans touch_copy_cache [of "cache m" "outfd m"] by (auto split: if_splits)
  have f: "framed K m w m w2" "framed K m w (m\<lparr>start := 0\<rparr>) w2" using t2 c by (auto intro: framedI)
  then have "cache_ok (m\<lparr>start := 0\<rparr>) w2" by (simp add: framed_def)
  then show ?thesis
    using r f(1) framed_trans [OF f(2) framed_resend_prefix] by (auto simp: pgr_mbuf_resend_def cc split: if_splits)
qed

text \<open>\<^verbatim>\<open>pgr_mbuf_reset\<close> closes the overflow file and nothing else.\<close>

lemma reset_frame:
  assumes "pgr_mbuf_reset m w = (m1, w1)"
  shows "sent w1 = sent w" "cache m1 < 0" "infd m1 = infd m" "outfd m1 = outfd m" "len m1 = len m"
    "closed w1 = (if 0 \<le> cache m then cache m # closed w else closed w)"
    "fd \<noteq> cache m \<Longrightarrow> files w1 fd = files w fd"
  using assms by (auto simp: pgr_mbuf_reset_def Let_def sys_close_def split: if_splits)

lemma setfd_frame [simp]:
  "cache (pgr_mbuf_setfd m i out) = cache m" "len (pgr_mbuf_setfd m i out) = len m"
  "infd (pgr_mbuf_setfd m i out) = (if i = MBUF_SAME_FD then infd m else i)"
  "outfd (pgr_mbuf_setfd m i out) = (if out = MBUF_SAME_FD then outfd m else out)"
  "cache_ok (pgr_mbuf_setfd m i out) w = cache_ok m w"
  by (simp_all add: pgr_mbuf_setfd_def Let_def cache_ok_def)

end
