(* ===== verification/Conn_Fds.thy ===== *)
theory Conn_Fds
  imports Conn_Safety
begin

text \<open>
  The descriptors of a connection: accepting a client keeps its descriptor, a successful connect
  leaves the one \<^verbatim>\<open>pgr_connect\<close> opened.
\<close>

lemma connect_fd: "pgr_connect pton h p t w = Some (fd, w1) \<Longrightarrow> \<not> fd < 0 \<Longrightarrow> 0 \<le> fd"
  by simp

definition keeps_fd :: "int \<Rightarrow> (int \<times> CONNECTION \<times> world) run \<Rightarrow> bool" where
  "keeps_fd fd y \<longleftrightarrow> (case y of Ret (rc, c', w') \<Rightarrow> cn_fd c' = fd | Crash \<Rightarrow> True)"

lemma keeps_fd_simps [simp]:
  "keeps_fd fd Crash" "keeps_fd fd (Ret (rc, c', w')) \<longleftrightarrow> cn_fd c' = fd"
  by (simp_all add: keeps_fd_def)

lemma connect_loop_fd: "connect_loop c m w = Some y \<Longrightarrow> keeps_fd (cn_fd c) y"
proof (induction rule: connect_loop.raw_induct [rotated, consumes 1, case_names 1])
  case (1 f c m w y)
  obtain rc m1 w1 where recv: "pgr_mbuf_recv m w = (rc, m1, w1)" by (metis surj_pair)
  obtain r2 m2 w2 where dis: "pgr_mbuf_discard m1 w1 = (r2, m2, w2)" by (metis surj_pair)
  have IH: "keeps_fd fd y" if "f c1 m' w' = Some y" "cn_fd c1 = fd" for c1 m' w' fd
    using 1(1) [OF that(1)] that(2) by simp
  show ?case
    using 1(2) IH by (auto simp: recv dis Let_def split: if_splits prod.splits option.splits)
qed

lemma connected_fd:
  assumes "pgr_conn_connect pton c w = Some (Ret (0, c', w'))"
  shows "0 \<le> cn_fd c'"
  using assms connect_loop_fd
  by (fastforce simp: pgr_conn_connect_def Let_def split: option.splits prod.splits if_splits)

lemma accept_loop_fd: "accept_loop ctx c m w = Some y \<Longrightarrow> keeps_fd (cn_fd c) y"
proof (induction rule: accept_loop.raw_induct [rotated, consumes 1, case_names 1])
  case (1 f ctx c m w y)
  obtain rc m1 w1 where recv: "pgr_mbuf_recv m w = (rc, m1, w1)" by (metis surj_pair)
  obtain r2 m2 w2 where dis: "pgr_mbuf_discard m1 w1 = (r2, m2, w2)" by (metis surj_pair)
  have IH: "keeps_fd fd y" if "f ctx c1 m' w' = Some y" "cn_fd c1 = fd" for c1 m' w' fd
    using 1(1) [OF that(1)] that(2) by simp
  have ex: "cn_fd c1 = cn_fd c" if "extract_params ctx c m1 = Some (rc, c1)" for rc c1
    by (rule extract_keeps [of "\<lambda>x. cn_fd x = cn_fd c", OF _ _ that]) simp_all
  have pw: "keeps_fd (cn_fd c) (accept_password c m1 w1)"
    by (auto simp: accept_password_def accept_ok_def split: option.splits prod.splits if_splits)
  show ?case
    using 1(2) IH pw ex by (auto simp: recv dis Let_def split: if_splits prod.splits option.splits)
qed

lemma accepted_fd:
  assumes "pgr_conn_accept ctx c w = Some (Ret (rc, c', w'))"
  shows "cn_fd c' = cn_fd c"
  using accept_loop_fd [OF assms [unfolded pgr_conn_accept_def]] by simp

end
