(* ===== verification/Session_Inv.thy ===== *)
theory Session_Inv
  imports Msg_Frame Worker Conn_Fds
begin

text \<open>
  What holds of every session of \<^verbatim>\<open>handle_client\<close>, whatever the client and the backends send and
  however the system calls fail: by rule induction over the steps.
\<close>

text \<open>The state in which \<^verbatim>\<open>handle_client\<close> enters its loop.\<close>

definition started :: "session \<Rightarrow> bool" where
  "started s \<longleftrightarrow> hc_pc s = TOP \<and> in_txn s = 0 \<and>
     0 \<le> cn_fd (frontend s) \<and> 0 \<le> cn_fd (reader s) \<and> 0 \<le> cn_fd (writer s) \<and>
     infd (fe s) = cn_fd (frontend s) \<and> outfd (be s) = cn_fd (frontend s) \<and>
     mbuf_wf (fe s) \<and> mbuf_wf (be s) \<and> cache (fe s) < 0 \<and> cache (be s) < 0"

definition ends :: "session \<Rightarrow> int set" where
  "ends s = {cn_fd (reader s), cn_fd (writer s)}"

definition hc_inv :: "session \<Rightarrow> session \<Rightarrow> bool" where
  "hc_inv s0 s \<longleftrightarrow>
     frontend s = frontend s0 \<and> reader s = reader s0 \<and> writer s = writer s0 \<and>
     mbuf_wf (fe s) \<and> mbuf_wf (be s) \<and> len (fe s) = len (fe s0) \<and> len (be s) = len (be s0) \<and>
     infd (fe s) = cn_fd (frontend s0) \<and> outfd (be s) = cn_fd (frontend s0) \<and>
     in_txn s \<in> {0, 1} \<and> (in_txn s \<noteq> 0 \<longrightarrow> befd s \<in> ends s0) \<and>
     (hc_pc s \<in> {FE, BE, COPY} \<longrightarrow> befd s \<in> ends s0 \<and> outfd (fe s) \<in> ends s0 \<and> infd (be s) \<in> ends s0) \<and>
     (hc_pc s \<noteq> DONE \<longrightarrow> cache_ok (fe s) (hc_world s)) \<and> cache (be s) < 0 \<and>
     (\<forall>fd. fd \<notin> insert (cn_fd (frontend s0)) (ends s0) \<longrightarrow> sent (hc_world s) fd = sent (hc_world s0) fd) \<and>
     (hc_pc s = DONE \<longrightarrow> insert (cn_fd (frontend s0)) (ends s0) \<subseteq> set (world.closed (hc_world s)))"

lemma started_inv: "started s \<Longrightarrow> hc_inv s s"
  by (simp add: started_def hc_inv_def cache_ok_def)

text \<open>A step that runs one operation of the client's or of the backend's buffer.\<close>

lemma framed_parts:
  "framed K m w m1 w1 \<Longrightarrow> touch {outfd m} w w1 \<and> cache_ok m1 w1 \<and> infd m1 = infd m \<and> outfd m1 = outfd m \<and>
     len m1 = len m \<and> (K \<longrightarrow> cache m1 = cache m)"
  by (simp add: framed_def)

lemma hc_invD:
  assumes "hc_inv s0 s"
  shows inv_wf: "mbuf_wf (fe s)" "mbuf_wf (be s)"
    and inv_out: "outfd (be s) = cn_fd (frontend s0)"
    and inv_ends: "hc_pc s \<in> {FE, BE, COPY} \<Longrightarrow> outfd (fe s) \<in> ends s0"
    and inv_conns: "reader s = reader s0" "writer s = writer s0" "frontend s = frontend s0"
    and inv_cache: "hc_pc s \<noteq> DONE \<Longrightarrow> cache_ok (fe s) (hc_world s)" "cache (be s) < 0"
    and inv_sent: "fd \<noteq> cn_fd (frontend s0) \<Longrightarrow> fd \<notin> ends s0 \<Longrightarrow> sent (hc_world s) fd = sent (hc_world s0) fd"
  using assms by (simp_all add: hc_inv_def)

lemma cache_ok_be: "hc_inv s0 s \<Longrightarrow> cache_ok (be s) w"
  using inv_cache(2) by (fastforce simp: cache_ok_def)

lemma sent_still:
  assumes "hc_inv s0 s" "touch S (hc_world s) w" "S \<subseteq> insert (cn_fd (frontend s0)) (ends s0)"
  shows "\<forall>fd. fd \<noteq> cn_fd (frontend s0) \<and> fd \<notin> ends s0 \<longrightarrow> sent w fd = sent (hc_world s0) fd"
proof (intro allI impI)
  fix fd assume fd: "fd \<noteq> cn_fd (frontend s0) \<and> fd \<notin> ends s0"
  then have "fd \<notin> S" using assms(3) by blast
  then show "sent w fd = sent (hc_world s0) fd"
    using assms(2) inv_sent [OF assms(1), of fd] fd by (simp add: touch_def)
qed

lemma fe_step:
  assumes i: "hc_inv s0 s" "hc_pc s \<in> {FE, COPY}" and f: "framed K (fe s) (hc_world s) m w" "mbuf_wf m"
  shows "hc_inv s0 (s\<lparr>fe := m, hc_world := w\<rparr>)"
proof -
  note p = framed_parts [OF f(1)]
  have "outfd (fe s) \<in> ends s0" using inv_ends [OF i(1)] i(2) by blast
  then have "\<forall>fd. fd \<noteq> cn_fd (frontend s0) \<and> fd \<notin> ends s0 \<longrightarrow> sent w fd = sent (hc_world s0) fd"
    using sent_still [OF i(1)] p by blast
  moreover have "hc_pc s \<noteq> DONE" using i(2) by auto
  ultimately show ?thesis using i p f(2) by (simp add: hc_inv_def)
qed

lemma be_step:
  assumes i: "hc_inv s0 s" "hc_pc s = BE" and f: "framed True (be s) (hc_world s) m w" "mbuf_wf m"
  shows "hc_inv s0 (s\<lparr>be := m, hc_world := w\<rparr>)"
proof -
  note p = framed_parts [OF f(1)]
  have "\<forall>fd. fd \<noteq> cn_fd (frontend s0) \<and> fd \<notin> ends s0 \<longrightarrow> sent w fd = sent (hc_world s0) fd"
    using sent_still [OF i(1), of "{outfd (be s)}" w] p inv_out [OF i(1)] by simp
  moreover have "cache_ok (fe s) w"
    using touch_cache [of "{outfd (be s)}" "hc_world s" w "fe s" "fe s"] p inv_cache(1) [OF i(1)] i(2) by simp
  ultimately show ?thesis using i p f(2) by (simp add: hc_inv_def)
qed

lemma inv_pc:
  "hc_inv s0 s \<Longrightarrow> hc_pc s \<in> {FE, BE, COPY} \<Longrightarrow> c \<noteq> DONE \<Longrightarrow> hc_inv s0 (s\<lparr>hc_pc := c\<rparr>)"
  by (auto simp: hc_inv_def)

lemma inv_typeI: "hc_inv s0 s \<Longrightarrow> hc_inv s0 (s\<lparr>hc_type := t\<rparr>)"
  by (simp add: hc_inv_def)

lemma inv_world:
  "hc_inv s0 s \<Longrightarrow> hc_pc s \<in> {FE, BE, COPY} \<Longrightarrow> touch (insert (cn_fd (frontend s0)) (ends s0)) (hc_world s) w \<Longrightarrow>
   hc_inv s0 (s\<lparr>hc_world := w\<rparr>)"
  (is "?i \<Longrightarrow> ?p \<Longrightarrow> ?t \<Longrightarrow> ?r")
proof -
  assume i: ?i and p: ?p and t: ?t
  have "hc_pc s \<noteq> DONE" using p by auto
  moreover from this have "cache_ok (fe s) w" using touch_cache [OF t, of "fe s" "fe s"] inv_cache(1) [OF i] by simp
  ultimately show ?r using i sent_still [OF i t] by (simp add: hc_inv_def)
qed

section \<open>The steps\<close>

lemma inv_top: "started s0 \<Longrightarrow> hc_inv s0 s \<Longrightarrow> hc_pc s = TOP \<Longrightarrow> hc_inv s0 (hc_top s)"
  by (auto simp: hc_inv_def hc_top_def Let_def wf_setfd started_def MBUF_SAME_FD_def ends_def)

lemma inv_route: "started s0 \<Longrightarrow> hc_inv s0 s \<Longrightarrow> hc_pc s = FE \<Longrightarrow> hc_inv s0 (hc_route s) \<and> hc_pc (hc_route s) = FE"
  by (auto simp: hc_inv_def hc_route_def Let_def wf_setfd started_def MBUF_SAME_FD_def ends_def)

lemma inv_fe:
  assumes st: "started s0" and i: "hc_inv s0 s" and pc: "hc_pc s = FE"
  shows "hc_inv s0 (hc_fe s)"
proof -
  obtain rc m1 w1 where r: "pgr_mbuf_recv (fe s) (hc_world s) = (rc, m1, w1)" by (metis surj_pair)
  have c: "cache_ok (fe s) (hc_world s)" "mbuf_wf (fe s)" using i pc by (auto simp: hc_inv_def)
  have i1: "hc_inv s0 (s\<lparr>fe := m1, hc_world := w1\<rparr>)"
    using fe_step [OF i _ framed_recv [OF r c(1)] wf_recv [OF c(2) r]] pc by simp
  define s1 where "s1 = hc_route (s\<lparr>fe := m1, hc_world := w1, hc_type := pgr_mbuf_msgtype m1\<rparr>)"
  have i2: "hc_inv s0 s1" "hc_pc s1 = FE"
    using inv_route [OF st inv_typeI [OF i1, of "pgr_mbuf_msgtype m1"]] pc by (simp_all add: s1_def)
  obtain rc2 m2 w2 where q: "pgr_mbuf_send (fe s1) (hc_world s1) = (rc2, m2, w2)" by (metis surj_pair)
  have c2: "cache_ok (fe s1) (hc_world s1)" "mbuf_wf (fe s1)" using i2 by (auto simp: hc_inv_def)
  define s2 where "s2 = s1\<lparr>fe := m2, hc_world := w2\<rparr>"
  have i3: "hc_inv s0 s2" "hc_pc s2 = FE"
    using fe_step [OF i2(1) _ framed_send [OF q c2(1)] wf_send [OF c2(2) q]] i2(2) by (simp_all add: s2_def)
  obtain a3 w3 where t3: "pgr_sendn (cn_fd (reader s2)) terminate_msg (hc_world s2) = (a3, w3)" by (metis surj_pair)
  obtain a4 w4 where t4: "pgr_sendn (cn_fd (writer s2)) terminate_msg w3 = (a4, w4)" by (metis surj_pair)
  have fd: "cn_fd (reader s2) \<in> ends s0" "cn_fd (writer s2) \<in> ends s0" using i3 by (auto simp: hc_inv_def ends_def)
  have "touch (insert (cn_fd (frontend s0)) (ends s0)) (hc_world s2) w4"
    using touch_trans [OF touch_sendn [OF t3] touch_sendn [OF t4]] fd by blast
  then have i4: "hc_inv s0 (s2\<lparr>hc_world := w4\<rparr>)" using inv_world i3 by blast
  have "hc_fe s = (if rc < 0 then s\<lparr>fe := m1, hc_world := w1, hc_pc := SHUTDOWN\<rparr>
      else if rc2 \<noteq> 0 then s2\<lparr>hc_pc := SHUTDOWN\<rparr>
      else if hc_type s2 = schar CHR ''X'' then s2\<lparr>hc_world := w4, hc_pc := SHUTDOWN\<rparr>
      else if hc_type s2 \<noteq> schar CHR ''Q'' \<and> hc_type s2 \<noteq> schar CHR ''S'' then s2\<lparr>hc_pc := FE\<rparr>
      else s2\<lparr>hc_pc := BE\<rparr>)"
    using q t3 t4 by (simp add: hc_fe_def r Let_def s1_def [symmetric] s2_def)
  then show ?thesis
    using inv_pc [OF i1] inv_pc [OF i3(1)] inv_pc [OF i4] pc i3(2) by simp
qed

lemma inv_copy:
  assumes i: "hc_inv s0 s" and pc: "hc_pc s = COPY"
  shows "hc_inv s0 (hc_copy s)"
proof -
  obtain rc m1 w1 where r: "pgr_mbuf_recv (fe s) (hc_world s) = (rc, m1, w1)" by (metis surj_pair)
  have c: "cache_ok (fe s) (hc_world s)" "mbuf_wf (fe s)" using i pc by (auto simp: hc_inv_def)
  have i1: "hc_inv s0 (s\<lparr>fe := m1, hc_world := w1\<rparr>)"
    using fe_step [OF i _ framed_recv [OF r c(1)] wf_recv [OF c(2) r]] pc by simp
  define s1 where "s1 = s\<lparr>fe := m1, hc_world := w1, hc_type := pgr_mbuf_msgtype m1\<rparr>"
  have i2: "hc_inv s0 s1" "hc_pc s1 = COPY" using inv_typeI [OF i1] pc by (simp_all add: s1_def)
  obtain rc2 m2 w2 where q: "pgr_mbuf_relay (fe s1) (hc_world s1) = (rc2, m2, w2)" by (metis surj_pair)
  have c2: "cache_ok (fe s1) (hc_world s1)" "mbuf_wf (fe s1)" using i2 inv_cache(1) inv_wf(1) by auto
  have i3: "hc_inv s0 (s1\<lparr>fe := m2, hc_world := w2\<rparr>)"
    using fe_step [OF i2(1) _ framed_relay [OF q c2(1)] wf_relay [OF c2(2) q]] i2(2) by simp
  have "hc_copy s = (if rc < 0 then s\<lparr>fe := m1, hc_world := w1, hc_pc := SHUTDOWN\<rparr>
      else if rc2 \<noteq> 0 then s1\<lparr>fe := m2, hc_world := w2, hc_pc := SHUTDOWN\<rparr>
      else if hc_type s1 \<noteq> schar CHR ''c'' \<and> hc_type s1 \<noteq> schar CHR ''F''
      then s1\<lparr>fe := m2, hc_world := w2, hc_pc := COPY\<rparr>
      else s1\<lparr>fe := m2, hc_world := w2, hc_pc := BE\<rparr>)"
    using q by (simp add: hc_copy_def r Let_def s1_def)
  then show ?thesis
    using inv_pc [OF i1] inv_pc [OF i3] pc i2(2) by simp
qed

lemma inv_reroute:
  assumes st: "started s0" and i: "hc_inv s0 s" and pc: "hc_pc s = BE" and r: "hc_reroute s = Some s'"
  shows "hc_inv s0 s'"
proof -
  let ?z = "schar CHR ''Z''" and ?fd = "cn_fd (writer s)"
  obtain rc m1 w1 where d: "pgr_mbuf_drain (be s) ?z (hc_world s) = Some (rc, m1, w1)"
    using r by (auto simp: hc_reroute_def split: option.splits)
  have i1: "hc_inv s0 (s\<lparr>be := m1, hc_world := w1\<rparr>)"
    by (rule be_step [OF i pc framed_drain [OF d cache_ok_be [OF i]] wf_drain [OF d inv_wf(2) [OF i]]])
  define fe1 where "fe1 = pgr_mbuf_setfd (fe s) MBUF_SAME_FD ?fd"
  have fd: "?fd \<noteq> MBUF_SAME_FD" "?fd \<in> ends s0"
    using st inv_conns [OF i] by (auto simp: started_def MBUF_SAME_FD_def ends_def)
  have c1: "cache_ok fe1 w1" "mbuf_wf fe1"
    using inv_cache(1) [OF i1] inv_wf(1) [OF i1] pc by (simp_all add: fe1_def wf_setfd)
  obtain rc2 fe2 w2 where q: "pgr_mbuf_resend fe1 w1 = (rc2, fe2, w2)" by (metis surj_pair)
  obtain fe3 w3 where z: "pgr_mbuf_reset fe2 w2 = (fe3, w3)" by (metis surj_pair)
  note f = framed_parts [OF framed_resend [OF q c1(1)]]
  have t: "touch {?fd} w1 w2" using f fd(1) by (simp add: fe1_def)
  have "\<forall>x. x \<noteq> cn_fd (frontend s0) \<and> x \<notin> ends s0 \<longrightarrow> sent w2 x = sent (hc_world s0) x"
    using sent_still [OF i1, of "{?fd}" w2] t fd(2) by simp
  then have s3: "\<forall>x. x \<noteq> cn_fd (frontend s0) \<and> x \<notin> ends s0 \<longrightarrow> sent w3 x = sent (hc_world s0) x"
    using reset_frame(1) [OF z] by simp
  have wf3: "mbuf_wf fe3" using wf_reset [OF wf_resend [OF c1(2) q], of w2] z by simp
  have "cache_ok fe3 w3" using reset_frame(2) [OF z] by (simp add: cache_ok_def)
  moreover have "infd fe3 = infd (fe s)" "outfd fe3 = ?fd" "len fe3 = len (fe s)"
    using reset_frame(3-5) [OF z] f fd(1) by (simp_all add: fe1_def)
  moreover have "s' = s\<lparr>befd := ?fd, fe := fe3, be := pgr_mbuf_setfd m1 ?fd MBUF_SAME_FD, hc_world := w3, hc_pc := BE\<rparr>"
    using r by (simp add: hc_reroute_def d q z Let_def fe1_def [symmetric])
  moreover have "mbuf_wf (pgr_mbuf_setfd m1 ?fd MBUF_SAME_FD)" using inv_wf(2) [OF i1] by (simp add: wf_setfd)
  ultimately show ?thesis
    using i1 s3 wf3 fd pc by (simp add: hc_inv_def)
qed

lemma inv_be:
  assumes st: "started s0" and i: "hc_inv s0 s" and pc: "hc_pc s = BE" and n: "hc_be s = Some s'"
  shows "hc_inv s0 s'"
proof -
  obtain rc m1 w1 where r: "pgr_mbuf_recv (be s) (hc_world s) = (rc, m1, w1)" by (metis surj_pair)
  have i1: "hc_inv s0 (s\<lparr>be := m1, hc_world := w1\<rparr>)"
    by (rule be_step [OF i pc framed_recv [OF r cache_ok_be [OF i]] wf_recv [OF inv_wf(2) [OF i] r]])
  define s1 where "s1 = s\<lparr>be := m1, hc_world := w1, hc_type := pgr_mbuf_msgtype m1\<rparr>"
  have i2: "hc_inv s0 s1" "hc_pc s1 = BE" using inv_typeI [OF i1] pc by (simp_all add: s1_def)
  obtain rc2 m2 w2 where q: "pgr_mbuf_relay (be s1) (hc_world s1) = (rc2, m2, w2)" by (metis surj_pair)
  have i3: "hc_inv s0 (s1\<lparr>be := m2, hc_world := w2\<rparr>)"
    by (rule be_step [OF i2 framed_relay [OF q cache_ok_be [OF i2(1)]] wf_relay [OF inv_wf(2) [OF i2(1)] q]])
  have "hc_be s = (if rc < 0 then Some (s\<lparr>be := m1, hc_world := w1, hc_pc := SHUTDOWN\<rparr>)
      else if pgr_mbuf_iserror m1 (Some ''25006'') = 0 \<and> befd s1 = cn_fd (reader s1) then hc_reroute s1
      else if rc2 \<noteq> 0 then Some (s1\<lparr>be := m2, hc_world := w2, hc_pc := SHUTDOWN\<rparr>)
      else if hc_type s1 = schar CHR ''G'' then Some (s1\<lparr>be := m2, hc_world := w2, hc_pc := COPY\<rparr>)
      else if hc_type s1 \<noteq> schar CHR ''Z'' then Some (s1\<lparr>be := m2, hc_world := w2, hc_pc := BE\<rparr>)
      else Some (s1\<lparr>be := m2, hc_world := w2, hc_pc := TOP\<rparr>))"
    using q by (simp add: hc_be_def r Let_def s1_def)
  then show ?thesis
    using n inv_pc [OF i1] inv_pc [OF i3] inv_reroute [OF st i2] pc i2(2) by (auto split: if_splits)
qed

lemma inv_shutdown:
  assumes st: "started s0" and i: "hc_inv s0 s"
  shows "hc_inv s0 (hc_shutdown s)"
  using i st
  by (auto simp: hc_inv_def hc_shutdown_def pgr_conn_deinit_def sys_close_def started_def ends_def)

lemma inv_step: "hc_step s s' \<Longrightarrow> started s0 \<Longrightarrow> hc_inv s0 s \<Longrightarrow> hc_inv s0 s'"
  by (cases "hc_pc s")
     (auto simp: hc_step_iff hc_next_def inv_top inv_fe inv_be inv_copy inv_shutdown)

lemma inv_reach: "hc_reach s0 s \<Longrightarrow> started s0 \<Longrightarrow> hc_inv s0 s"
  by (induction rule: rtranclp_induct) (auto intro: started_inv inv_step)

section \<open>Whole runs\<close>

lemma run_reach: "hc_run s = Some s' \<Longrightarrow> hc_reach s s' \<and> hc_pc s' = DONE"
proof (induction rule: hc_run.raw_induct [rotated, consumes 1, case_names 1])
  case (1 f s s')
  show ?case
  proof (cases "hc_pc s = DONE")
    case True
    then show ?thesis using 1(2) by simp
  next
    case False
    then obtain s1 where n: "hc_next s = Some s1" "f s1 = Some s'"
      using 1(2) by (auto split: option.splits)
    then show ?thesis using 1(1) [of s1 s'] hc_step.step [OF n(1)] by (metis converse_rtranclp_into_rtranclp)
  qed
qed

lemma cache_new: "cache (pgr_mbuf_new l) = -1"
  by (simp add: pgr_mbuf_new_def)

text \<open>\<open>hc_open\<close> leaves a session in its loop in the state \<open>started\<close>.\<close>

lemma open_fds:
  assumes o: "hc_open pton rnd c fd w = Some (Ret s)"
  shows "cn_fd (frontend s) = fd" and "hc_pc s \<in> {TOP, SHUTDOWN}"
    and "hc_pc s = TOP \<Longrightarrow> 0 \<le> cn_fd (reader s) \<and> 0 \<le> cn_fd (writer s)"
proof -
  have f: "cn_fd x = fd" if "pgr_conn_accept c (pgr_conn_frontend (pgr_conn_init (rnd 0)) fd) w = Some (Ret (rc, x, w'))" for rc x w'
    using accepted_fd [OF that] by (simp add: pgr_conn_frontend_def)
  show "cn_fd (frontend s) = fd" and "hc_pc s \<in> {TOP, SHUTDOWN}"
    and "hc_pc s = TOP \<Longrightarrow> 0 \<le> cn_fd (reader s) \<and> 0 \<le> cn_fd (writer s)"
    using o by (auto simp: hc_open_def hc_connect_def Let_def dest: f connected_fd
        split: option.splits run.splits prod.splits if_splits)
qed

lemma open_started:
  assumes o: "hc_open pton rnd c fd w = Some (Ret s)" and pc: "hc_pc s = TOP" and fd: "0 \<le> fd"
  shows "started s"
proof -
  have fds: "0 \<le> cn_fd (frontend s)" "0 \<le> cn_fd (reader s)" "0 \<le> cn_fd (writer s)"
    using open_fds [OF o] pc fd by auto
  have "infd (fe s) = cn_fd (frontend s) \<and> outfd (be s) = cn_fd (frontend s) \<and> mbuf_wf (fe s) \<and> mbuf_wf (be s) \<and>
      cache (fe s) < 0 \<and> cache (be s) < 0 \<and> in_txn s = 0"
    using o pc fds
    by (auto simp: hc_open_def hc_connect_def Let_def wf_setfd wf_new cache_new MBUF_SAME_FD_def
        split: option.splits run.splits prod.splits if_splits)
  then show ?thesis using pc fds by (simp add: started_def)
qed

text \<open>
  C4: In every state a session reaches from the start of its loop, whatever the peers send and
  however system calls fail: the two buffers are well formed, the connections are the ones the
  session began with, the client's buffer reads from the client and writes to the reader or
  the writer, the backend's buffer reads from one of them and writes to the client, and
  nothing was ever sent on any other descriptor.
\<close>

lemma session_isolated:
  assumes st: "started s0" and r: "hc_reach s0 s"
  shows "mbuf_wf (fe s) \<and> mbuf_wf (be s) \<and> frontend s = frontend s0 \<and> reader s = reader s0 \<and> writer s = writer s0 \<and>
    infd (fe s) = cn_fd (frontend s0) \<and> outfd (be s) = cn_fd (frontend s0) \<and>
    (hc_pc s \<in> {FE, BE, COPY} \<longrightarrow> outfd (fe s) \<in> {cn_fd (reader s0), cn_fd (writer s0)} \<and>
       infd (be s) \<in> {cn_fd (reader s0), cn_fd (writer s0)}) \<and>
    (\<forall>x. x \<notin> {cn_fd (frontend s0), cn_fd (reader s0), cn_fd (writer s0)} \<longrightarrow>
       sent (hc_world s) x = sent (hc_world s0) x)"
  using inv_reach [OF r st] by (simp add: hc_inv_def ends_def)

lemma shutdown_run: "hc_pc s = SHUTDOWN \<Longrightarrow> hc_run s = Some (hc_shutdown s)"
  using hc_run.simps [of s] hc_run.simps [of "hc_shutdown s"] by (simp add: hc_next_def) (simp add: hc_shutdown_def)

lemma handle_closes:
  assumes h: "handle_client pton rnd c fd w = Some (Ret s)" and fd: "0 \<le> fd"
  shows "hc_pc s = DONE \<and>
    (\<forall>x \<in> {fd, cn_fd (reader s), cn_fd (writer s)}. 0 \<le> x \<longrightarrow> x \<in> set (world.closed (hc_world s)))"
proof -
  obtain s0 where o: "hc_open pton rnd c fd w = Some (Ret s0)" and r: "hc_run s0 = Some s"
    using h by (auto simp: handle_client_def split: option.splits run.splits)
  show ?thesis
  proof (cases "hc_pc s0 = TOP")
    case True
    have "hc_inv s0 s" "hc_pc s = DONE"
      using run_reach [OF r] inv_reach [OF _ open_started [OF o True fd]] by auto
    then show ?thesis using open_fds(1) [OF o] by (simp add: hc_inv_def ends_def)
  next
    case False
    then have "s = hc_shutdown s0" using open_fds(2) [OF o] r shutdown_run by simp
    then show ?thesis
      using open_fds(1) [OF o] by (auto simp: hc_shutdown_def pgr_conn_deinit_def sys_close_def)
  qed
qed

end
