(* ===== verification/Serving.thy ===== *)
theory Serving
  imports Session_Inv Monitor
begin

text \<open>
  The loop of a worker (\<^verbatim>\<open>do_worker\<close> of \<^verbatim>\<open>src/worker.c\<close>): the two listening sockets, the count of
  clients, and a call of \<^verbatim>\<open>handle_client\<close> for each client. What \<^verbatim>\<open>select\<close> and \<^verbatim>\<open>accept\<close> return is
  given; \<open>rnd x i\<close> is what the \<open>i\<close>-th \<^verbatim>\<open>rand_r\<close> returns for the client of the socket \<open>x\<close>.
\<close>

definition worker_serve ::
    "pton \<Rightarrow> (nat \<Rightarrow> int) \<Rightarrow> int \<Rightarrow> CONTEXT \<Rightarrow> world \<Rightarrow> (CONTEXT \<times> world) run option" where
  "worker_serve pton rnd connfd c w =
     (let c1 = c\<lparr>fe_conns := fe_conns c + 1\<rparr>
      in case handle_client pton rnd c1 connfd w of
           None \<Rightarrow> None
         | Some Crash \<Rightarrow> Some Crash
         | Some (Ret s) \<Rightarrow> Some (Ret (c1\<lparr>fe_conns := fe_conns c1 - 1\<rparr>, sys_close connfd (hc_world s))))"

fun worker_ready ::
    "pton \<Rightarrow> (int \<Rightarrow> nat \<Rightarrow> int) \<Rightarrow> (int \<Rightarrow> bool) \<Rightarrow> (int \<Rightarrow> int) \<Rightarrow> int list \<Rightarrow> CONTEXT \<Rightarrow> world \<Rightarrow>
     (CONTEXT \<times> world) run option" where
  "worker_ready pton rnd ready acc [] c w = Some (Ret (c, w))"
| "worker_ready pton rnd ready acc (x # xs) c w =
     (if 0 \<le> x \<and> ready x then
        (case worker_serve pton (rnd x) (acc x) c w of
           None \<Rightarrow> None
         | Some Crash \<Rightarrow> Some Crash
         | Some (Ret (c1, w1)) \<Rightarrow> worker_ready pton rnd ready acc xs c1 w1)
      else worker_ready pton rnd ready acc xs c w)"

text \<open>One round; \<open>Crash\<close> is also the end of the process by \<^verbatim>\<open>pgr_abort\<close>.\<close>

definition worker_round ::
    "pton \<Rightarrow> (int \<Rightarrow> nat \<Rightarrow> int) \<Rightarrow> select_result \<Rightarrow> (int \<Rightarrow> int) \<Rightarrow> CONTEXT \<Rightarrow> world \<Rightarrow>
     (CONTEXT \<times> world) run option" where
  "worker_round pton rnd sel acc c w =
     (case sel of
        SelectError \<Rightarrow> Some Crash
      | Interrupted \<Rightarrow> Some (Ret (c, w))
      | Readable ready \<Rightarrow> worker_ready pton rnd ready acc [cx_frontend4 c, cx_frontend6 c] c w)"

section \<open>Clients that have been served\<close>

text \<open>
  C5: Serving a client that was accepted: when it returns, the count of clients is what it
  was, handle_client has closed the client's descriptor and that of each backend connection
  that was opened, on every path through the function, and the client's descriptor has been
  closed twice.
\<close>

lemma client_served:
  assumes "worker_serve pton rnd connfd c w = Some (Ret (c1, w1))" and "0 \<le> connfd"
  shows "\<exists>s. handle_client pton rnd (c\<lparr>fe_conns := fe_conns c + 1\<rparr>) connfd w = Some (Ret s) \<and> c1 = c \<and> hc_pc s = DONE \<and>
     (\<forall>x \<in> {connfd, cn_fd (reader s), cn_fd (writer s)}. 0 \<le> x \<longrightarrow> x \<in> set (world.closed w1)) \<and>
     2 \<le> count_list (world.closed w1) connfd"
proof -
  from assms(1) obtain s where h: "handle_client pton rnd (c\<lparr>fe_conns := fe_conns c + 1\<rparr>) connfd w = Some (Ret s)"
    and c1: "c1 = c" and w1: "w1 = sys_close connfd (hc_world s)"
    by (auto simp: worker_serve_def Let_def split: option.splits run.splits)
  note closes = handle_closes [OF h assms(2)]
  then have "connfd \<in> set (world.closed (hc_world s))" using assms(2) by simp
  then have "0 < count_list (world.closed (hc_world s)) connfd" by (metis count_list_0_iff gr0I)
  then have "2 \<le> count_list (world.closed w1) connfd" by (simp add: w1 sys_close_def)
  moreover have "set (world.closed (hc_world s)) \<subseteq> set (world.closed w1)" by (auto simp: w1 sys_close_def)
  ultimately show ?thesis using h c1 closes by blast
qed

end
