(* ===== verification/Opening.thy ===== *)
theory Opening
  imports Serving Connect_Run Routing
begin

text \<open>
  Whole runs of \<^verbatim>\<open>handle_client\<close> (\<^verbatim>\<open>src/worker.c\<close>): the login of a client, the choice of the
  backends, the login at both of them, any number of queries answered by the reader, and the end of
  the session; and what happens when the log of the queries has filled the client's buffer.
\<close>

section \<open>A conversation of queries\<close>

definition plain_query :: "bytes \<Rightarrow> bool" where
  "plain_query q \<longleftrightarrow> whole q \<and> q ! 0 = CHR ''Q'' \<and> NUL \<in> set (drop 5 q) \<and>
     \<not> strncaseeq (drop 5 q) ''begin'' 5 \<and> \<not> strncaseeq (drop 5 q) ''commit'' 6"

fun exchange_ok :: "bytes \<times> bytes list \<times> bytes \<Rightarrow> bool" where
  "exchange_ok (q, ms, rfq) \<longleftrightarrow> plain_query q \<and> list_all plain ms \<and> whole rfq \<and> rfq ! 0 = CHR ''Z''"

definition requests :: "(bytes \<times> bytes list \<times> bytes) list \<Rightarrow> bytes" where
  "requests es = concat (map fst es)"

definition responses :: "(bytes \<times> bytes list \<times> bytes) list \<Rightarrow> bytes" where
  "responses es = concat (map (\<lambda>(q, ms, rfq). concat ms @ rfq) es)"

lemma requests_simps [simp]: "requests [] = []" "requests ((q, e) # es) = q @ requests es"
  by (simp_all add: requests_def)

lemma responses_simps [simp]: "responses [] = []" "responses ((q, ms, rfq) # es) = concat ms @ rfq @ responses es"
  by (simp_all add: responses_def)

lemma strncaseeq_more:
  "NUL \<in> set a \<Longrightarrow> NUL \<notin> set b \<Longrightarrow> length b = n \<Longrightarrow> strncaseeq (a @ x) b n = strncaseeq a b n"
proof (induction a b n rule: strncaseeq.induct)
  case (2 a b n)
  obtain c a' where a: "a = c # a'" using 2(2) by (cases a) auto
  obtain d b' where b: "b = d # b'" using 2(4) by (cases b) auto
  show ?case
  proof (cases "c = NUL")
    case False
    then show ?thesis using 2(1) [OF refl refl] 2(2-4) a b by (simp add: strncaseeq.simps(2) Let_def)
  qed (simp add: a strncaseeq.simps(2) Let_def)
qed (simp add: strncaseeq.simps)

lemma plain_query_followed:
  assumes "plain_query q"
  shows "\<not> strncaseeq (drop 5 (q @ l)) ''begin'' 5" "\<not> strncaseeq (drop 5 (q @ l)) ''commit'' 6"
proof -
  have "drop 5 (q @ l) = drop 5 q @ l" using assms by (simp add: plain_query_def whole_def)
  moreover have "NUL \<notin> set ''begin''" "NUL \<notin> set ''commit''" by simp_all
  ultimately show "\<not> strncaseeq (drop 5 (q @ l)) ''begin'' 5" "\<not> strncaseeq (drop 5 (q @ l)) ''commit'' 6"
    using assms strncaseeq_more [of "drop 5 q"] by (simp_all add: plain_query_def)
qed

text \<open>The sent prefix of the client's buffer is a part of the log.\<close>

lemma start_log:
  assumes "session_ok s"
  shows "start (fe s) \<le> length (log_of s)"
proof -
  have "sendable ((fe s)\<lparr>outfd := cn_fd (reader s)\<rparr>) (hc_world s)" using assms by (simp add: session_ok_def)
  then have "0 \<le> cache (fe s) \<and> start (fe s) = 0 \<or> cache (fe s) < 0 \<and> start (fe s) \<le> length (buf (fe s))"
    by (auto simp: sendable_def overflow_ok_def mbuf_wf_def split: if_splits)
  then show ?thesis by (auto simp: log_of_def history_def)
qed

lemma queries_routed:
  assumes st: "started s0" "hc_reach s0 s" and s: "session_ok s" "hc_pc s = TOP" "in_txn s = 0"
    and es: "list_all exchange_ok es" "length (log_of s) + length (requests es) + 5 \<le> len (fe s0)"
    and a: "asked s = requests es @ later" "answers s (cn_fd (reader s)) = responses es @ rest"
  shows "\<exists>s'. hc_reach s s' \<and> hc_pc s' = TOP \<and> session_ok s' \<and> same_conns s s' \<and> in_txn s' = 0 \<and>
    asked s' = later \<and> answers s' (cn_fd (reader s)) = rest \<and> log_of s' = log_of s @ requests es \<and>
    out_of s' (cn_fd (reader s)) = out_of s (cn_fd (reader s)) @ requests es \<and>
    out_of s' (cn_fd (frontend s)) = out_of s (cn_fd (frontend s)) @ responses es \<and>
    out_of s' (cn_fd (writer s)) = out_of s (cn_fd (writer s))"
  using assms(2-)
proof (induction es arbitrary: s)
  case Nil
  then show ?case by (intro exI [of _ s]) (simp add: same_conns_def)
next
  case (Cons e es)
  obtain q ms rfq where e: "e = (q, ms, rfq)" by (cases e)
  have q: "plain_query q" "list_all plain ms" "whole rfq" "rfq ! 0 = CHR ''Z''"
    using Cons.prems(5) e by auto
  have len: "len (fe s) = len (fe s0)" using inv_reach [OF Cons.prems(1) st(1)] by (simp add: hc_inv_def)
  have l: "asked s = q @ (requests es @ later)" "answers s (cn_fd (reader s)) = concat ms @ rfq @ (responses es @ rest)"
    using Cons.prems e by simp_all
  have room: "start (fe s) + 5 \<le> len (fe s)"
    using start_log [OF Cons.prems(2)] Cons.prems(6) len by simp
  have no: "\<not> strncaseeq (drop 5 (asked s)) ''begin'' 5" "\<not> strncaseeq (drop 5 (asked s)) ''commit'' 6"
    unfolding l(1) by (rule plain_query_followed [OF q(1)])+
  have q2: "whole q" "q ! 0 = CHR ''Q''" "\<And>m. m \<in> set ms \<Longrightarrow> plain m"
    using q by (simp_all add: plain_query_def list_all_iff)
  from query_routed [OF Cons.prems(2-4) q2(1,2) l(1) room no q2(3) q(3,4) l(2)]
  obtain s1 where s1: "hc_reach s s1" "hc_pc s1 = TOP" "session_ok s1" "same_conns s s1" "in_txn s1 = 0"
    "asked s1 = requests es @ later" "answers s1 (cn_fd (reader s)) = responses es @ rest" "log_of s1 = log_of s @ q"
    "out_of s1 (cn_fd (reader s)) = out_of s (cn_fd (reader s)) @ q"
    "out_of s1 (cn_fd (frontend s)) = out_of s (cn_fd (frontend s)) @ concat ms @ rfq"
    "out_of s1 (cn_fd (writer s)) = out_of s (cn_fd (writer s))"
    by blast
  have c: "reader s1 = reader s" "writer s1 = writer s" "frontend s1 = frontend s"
    using s1(4) by (simp_all add: same_conns_def)
  have r: "hc_reach s0 s1" using Cons.prems(1) s1(1) by simp
  have "length (log_of s1) + length (requests es) + 5 \<le> len (fe s0)" using Cons.prems(6) s1(8) e by simp
  from Cons.IH [OF r s1(3,2,5) _ this s1(6)] s1(7) Cons.prems(5) obtain s2 where
    s2: "hc_reach s1 s2" "hc_pc s2 = TOP" "session_ok s2" "same_conns s1 s2" "in_txn s2 = 0"
    "asked s2 = later" "answers s2 (cn_fd (reader s1)) = rest" "log_of s2 = log_of s1 @ requests es"
    "out_of s2 (cn_fd (reader s1)) = out_of s1 (cn_fd (reader s1)) @ requests es"
    "out_of s2 (cn_fd (frontend s1)) = out_of s1 (cn_fd (frontend s1)) @ responses es"
    "out_of s2 (cn_fd (writer s1)) = out_of s1 (cn_fd (writer s1))"
    by (auto simp: c)
  have "hc_reach s s2" using s1(1) s2(1) by simp
  then show ?case
    using s1 s2 same_conns_trans [OF s1(4) s2(4)] by (intro exI [of _ s2]) (simp add: e c)
qed

section \<open>The end of a session\<close>

lemma pgr_sendn_open:
  "wrq w fd = [] \<Longrightarrow> b \<noteq> [] \<Longrightarrow> pgr_sendn fd b w = (0, put fd b w)"
  by (subst pgr_sendn.simps) (simp add: io_simps pgr_sendn.simps [of fd "[]"])

lemma terminates:
  assumes s: "session_ok s" "hc_pc s = TOP" "in_txn s = 0" "start (fe s) + 5 \<le> len (fe s)"
    and x: "whole x" "x ! 0 = CHR ''X''" "asked s = x @ later"
  shows "\<exists>s'. hc_reach s s' \<and> hc_pc s' = SHUTDOWN \<and> same_conns s s' \<and>
    out_of s' (cn_fd (reader s)) = out_of s (cn_fd (reader s)) @ x @ terminate_msg \<and>
    out_of s' (cn_fd (writer s)) = out_of s (cn_fd (writer s)) @ terminate_msg \<and>
    out_of s' (cn_fd (frontend s)) = out_of s (cn_fd (frontend s))"
proof -
  let ?r = "cn_fd (reader s)" and ?wr = "cn_fd (writer s)" and ?f = "cn_fd (frontend s)"
  from top_session [OF s(1,2), of ?r] s(3) obtain s1 where
    s1: "hc_next s = Some s1" "hc_pc s1 = FE" "session_ok s1" "same_conns s s1" "befd s1 = ?r" "in_txn s1 = 0"
    "outfd (fe s1) = ?r" "start (fe s1) = start (fe s)" "len (fe s1) = len (fe s)"
    "asked s1 = asked s" "\<forall>x. out_of s1 x = out_of s x"
    by auto
  have c1: "reader s1 = reader s" "writer s1 = writer s" "frontend s1 = frontend s"
    using s1(4) by (simp_all add: same_conns_def)
  let ?m = "fe s1" and ?w = "hc_world s1"
  have "?m\<lparr>outfd := ?r\<rparr> = ?m" using s1(7) by (cases ?m) simp
  then have ok: "sendable ?m ?w" using sendable_fe [OF s1(3), of ?r] c1 by simp
  have x5: "complete (asked s1)" "first_msg (asked s1) = x" using x s1(10) by (simp_all add: whole_complete)
  have l5: "5 \<le> length (unread ?m ?w)" using x5(1) by (simp add: complete_def asked_def)
  have room: "start ?m + 5 \<le> len ?m" using s(4) s1(8,9) by simp
  from recv_log [OF ok room l5] obtain r m1 w1 where recv: "pgr_mbuf_recv ?m ?w = (r, m1, w1)"
    "0 \<le> r" "5 \<le> available m1" "sent_on [] ?m ?w m1 w1" "unread m1 w1 = asked s1"
    by (auto simp: asked_def)
  then have ok1: "sendable m1 w1" "mbuf_wf m1" by (auto simp: sent_on_def sendable_def)
  from send_log [OF ok1(1) recv(3)] x5 recv(5) obtain m2 w2 where
    send: "pgr_mbuf_send m1 w1 = (0, m2, w2)" "sent_on x m1 w1 m2 w2" by auto
  have on: "sent_on x ?m ?w m2 w2" using sent_on_trans [OF recv(4) send(2)] by simp
  have "asked s1 ! 0 = CHR ''X''" using x s1(10) by simp
  then have type: "pgr_mbuf_msgtype m1 = schar (CHR ''X'')"
    using type_unread [OF ok1(2) recv(3), of w1] recv(5) by simp
  have base: "session_base s1" using s1(3) by (rule session_ok_base)
  have ne: "?f \<noteq> ?r" "?f \<noteq> ?wr" "?r \<noteq> ?wr" and wq: "wrq w2 ?r = []" "wrq w2 ?wr = []"
    and fl: "files w2 ?r = None" "files w2 ?wr = None"
    using base on c1 by (auto simp: session_base_def sent_on_def socket_def Let_def)
  have sw: "sent w2 = (sent ?w)(?r := sent ?w ?r @ x)" using on s1(7) by (simp add: sent_on_def)
  have tm: "terminate_msg \<noteq> []" by (simp add: terminate_msg_def)
  let ?w3 = "put ?r terminate_msg w2" let ?w4 = "put ?wr terminate_msg ?w3"
  have "wrq ?w3 ?wr = []" using wq by (simp add: put_fields)
  then have sn: "pgr_sendn ?r terminate_msg w2 = (0, ?w3)" "pgr_sendn ?wr terminate_msg ?w3 = (0, ?w4)"
    using pgr_sendn_open [OF _ tm] wq by simp_all
  define s' where "s' = s1\<lparr>fe := m2, hc_world := ?w4, hc_type := schar CHR ''X'', hc_pc := SHUTDOWN\<rparr>"
  have "schar CHR ''X'' \<noteq> schar CHR ''Q''" by simp
  then have "hc_fe s1 = s'"
    using recv(2) by (simp add: hc_fe_def recv(1) type hc_route_def send(1) Let_def s'_def c1 sn)
  then have "hc_next s1 = Some s'" by (simp add: hc_next_def s1(2))
  then have reach: "hc_reach s s'"
    using s1(1) by (meson converse_rtranclp_into_rtranclp hc_step.step rtranclp.rtrancl_refl)
  have "sent ?w4 = (sent w2)(?r := sent w2 ?r @ terminate_msg, ?wr := sent w2 ?wr @ terminate_msg)"
    using fl ne by (simp add: put_def)
  then have "out_of s' ?r = out_of s ?r @ x @ terminate_msg" "out_of s' ?wr = out_of s ?wr @ terminate_msg"
    "out_of s' ?f = out_of s ?f"
    using sw ne s1(11) by (simp_all add: out_of_def s'_def)
  then show ?thesis
    using reach c1 by (intro exI [of _ s']) (simp add: s'_def same_conns_def)
qed

lemma run_step: "hc_step s s' \<Longrightarrow> hc_run s = hc_run s'"
  by (subst hc_run.simps) (auto simp: hc_step_iff hc_next_def)

lemma run_reached: "hc_reach s s' \<Longrightarrow> hc_run s = hc_run s'"
  by (induction rule: rtranclp_induct) (auto dest: run_step)

section \<open>Opening a session\<close>

text \<open>
  The answers of a backend that lets a client in, and what the program sends to it meanwhile,
  after the startup message.
\<close>

fun admits :: "bytes \<Rightarrow> reply list \<Rightarrow> bytes option" where
  "admits h [] = None"
| "admits h (r # rs) =
     (if \<not> reply_ok r \<or> 512 < length (reply_bytes r) then None
      else (case r of
              Ready b \<Rightarrow> if rs = [] then Some [] else None
            | Auth_salt s \<Rightarrow> map_option (\<lambda>b. pw_bytes (md5_answer h s) @ b) (admits h rs)
            | Auth_granted \<Rightarrow> admits h rs
            | Key_data b \<Rightarrow> admits h rs
            | Parameter b \<Rightarrow> admits h rs
            | _ \<Rightarrow> None))"

lemma admits_handshake:
  "admits h rs = Some out \<Longrightarrow>
     list_all reply_ok rs \<and> list_all (\<lambda>r. length (reply_bytes r) \<le> 512) rs \<and> later_replies rs = [] \<and>
     (\<exists>s. handshake c h rs = Some (0, c\<lparr>cn_salt := s\<rparr>, out))"
proof (induction rs arbitrary: c out)
  case (Cons r rs)
  show ?case
  proof (cases r)
    case (Auth_salt x)
    with Cons.prems obtain b where b: "admits h rs = Some b" "out = pw_bytes (md5_answer h x) @ b"
      by (auto split: if_splits)
    from Cons.IH [OF b(1), of "c\<lparr>cn_salt := x\<rparr>"] Cons.prems Auth_salt b show ?thesis by (auto split: if_splits)
  next
    case (Ready x)
    then show ?thesis using Cons.prems by (auto split: if_splits intro!: exI [of _ "cn_salt c"])
  qed (use Cons in \<open>auto split: if_splits\<close>)
qed simp

definition resolves :: "pton \<Rightarrow> CONNECTION \<Rightarrow> bool" where
  "resolves pton c \<longleftrightarrow>
     (case cn_hostname c of
        None \<Rightarrow> False
      | Some host \<Rightarrow> fst (ipv4_hostport pton (SIN 0 INADDR_ANY) host (cn_port c)) = 0 \<or>
          fst (ipv6_hostport pton (SIN6 0 in6addr_any) host (cn_port c)) = 0)"

lemma pgr_connect_ok:
  assumes "resolves pton c" "netq w = fd # a # 0 # ns" "0 \<le> fd"
  shows "\<exists>l. pgr_connect pton (cn_hostname c) (cn_port c) t w = Some (fd, w\<lparr>netq := ns, netlog := l\<rparr>)"
  using assms
  by (auto simp: resolves_def pgr_connect_def sys_net_def Let_def split: option.splits prod.splits)

lemma dialogue_net [simp]: "dialogue fd bs (w\<lparr>netq := n, netlog := l\<rparr>) \<longleftrightarrow> dialogue fd bs w"
  by (simp add: dialogue_def)

text \<open>One backend, from the socket to ReadyForQuery.\<close>

lemma backend_opens:
  assumes "resolves pton c" "netq w = fd # a # 0 # ns" "0 \<le> fd"
    and "cn_pwhash c = Some h" "length h = 32" "startup_len (cn_params c) \<le> 512"
    and "admits h rs = Some out" "dialogue fd (map reply_bytes rs @ qs) w"
  shows "\<exists>s l. pgr_conn_connect pton c w = Some (Ret (0, c\<lparr>cn_fd := fd, cn_salt := s\<rparr>,
      talked fd qs (startup_bytes (cn_params c) @ out) (w\<lparr>netq := ns, netlog := l\<rparr>)))"
proof -
  from pgr_connect_ok [OF assms(1-3)] obtain l where
    l: "pgr_connect pton (cn_hostname c) (cn_port c) (int32 (cn_timeout c * 1000)) w = Some (fd, w\<lparr>netq := ns, netlog := l\<rparr>)"
    by blast
  from admits_handshake [OF assms(7), of "c\<lparr>cn_fd := fd\<rparr>"] obtain s where
    hs: "list_all reply_ok rs" "list_all (\<lambda>r. length (reply_bytes r) \<le> 512) rs" "later_replies rs = []"
      "handshake (c\<lparr>cn_fd := fd\<rparr>) h rs = Some (0, c\<lparr>cn_fd := fd, cn_salt := s\<rparr>, out)" by auto
  from connect_dialogue [OF l assms(3-6,8) hs(1,2,4)] hs(3) show ?thesis by auto
qed

definition newcomer :: "(nat \<Rightarrow> int) \<Rightarrow> int \<Rightarrow> CONNECTION" where
  "newcomer rnd fd = pgr_conn_frontend (pgr_conn_init (rnd 0)) fd"

lemma newcomer_fields [simp]:
  "cn_fd (newcomer rnd fd) = fd" "cn_salt (newcomer rnd fd) = cn_salt (pgr_conn_init (rnd 0))"
  "length (cn_salt (pgr_conn_init k)) = 4" "cn_params (newcomer rnd fd) = []"
  by (simp_all add: newcomer_def pgr_conn_frontend_def pgr_conn_init_def le32_def)

lemma note_params_list: "cn_params (note_params ctx ps c) = cn_params c @ ps"
proof (induction ps rule: rev_induct)
  case (snoc p ps)
  then show ?case by (cases p) (simp add: note_params_def note_param_def Let_def)
qed (simp add: note_params_def)

lemma copy_params_id: "copy_params ps = ps"
  by (induction ps rule: copy_params.induct) simp_all

text \<open>The session that \<^verbatim>\<open>handle_client\<close> has opened when both backends have let the client in.\<close>

lemma session_opens:
  assumes fd: "0 \<le> fd" "0 \<le> rfd" "0 \<le> wfd" "distinct [fd, rfd, wfd]"
    and client: "dialogue fd (startup_bytes ps # pw_bytes (md5_answer h (cn_salt (pgr_conn_init (rnd 0)))) # qs) w"
    and ps: "list_all param_ok ps" "startup_len ps \<le> 512" "startup_len ps \<noteq> 16"
    and user: "map_of (rev ps) ''user'' = Some u" "pgr_auth_find c u = Some h" "length h = 32"
    and choice: "determine_backends (rnd 3) c (pgr_conn_init (rnd 1)) (pgr_conn_init (rnd 2)) = (0, r, wr)"
    and net: "resolves pton r" "resolves pton wr" "netq w = rfd # a # 0 # wfd # b # 0 # ns"
    and srv: "admits h rs = Some out" "dialogue rfd (map reply_bytes rs @ qs1) w"
      "admits h rs' = Some out'" "dialogue wfd (map reply_bytes rs' @ qs2) w"
  shows "\<exists>s l. hc_open pton rnd c fd w = Some (Ret s) \<and> hc_pc s = TOP \<and> in_txn s = 0 \<and>
    cn_fd (frontend s) = fd \<and> cn_fd (reader s) = rfd \<and> cn_fd (writer s) = wfd \<and>
    fe s = (pgr_mbuf_new 16384)\<lparr>infd := fd, outfd := MBUF_NO_FD\<rparr> \<and>
    be s = (pgr_mbuf_new 4096)\<lparr>infd := MBUF_NO_FD, outfd := fd\<rparr> \<and>
    hc_world s = (talked wfd qs2 (startup_bytes ps @ out') (talked rfd qs1 (startup_bytes ps @ out)
      (talked fd qs (auth_request (cn_salt (pgr_conn_init (rnd 0))) @ auth_done) w)))\<lparr>netq := ns, netlog := l\<rparr>"
proof -
  let ?f = "note_params c ps (newcomer rnd fd)"
  let ?w1 = "talked fd qs (auth_request (cn_salt (pgr_conn_init (rnd 0))) @ auth_done) w"
  have ps0: "ps \<noteq> []" using user(1) by auto
  have hash: "cn_pwhash ?f = Some h" and params: "cn_params ?f = ps"
    using user by (simp_all add: note_params_user note_params_list)
  have "pgr_conn_accept c (newcomer rnd fd) w = Some (Ret (0, ?f,
      talked fd qs (auth_request (cn_salt (newcomer rnd fd)) @ auth_done) w))"
    using fd client ps user hash
    by (intro accept_granted) (auto simp: MBUF_SAME_FD_def list_all_iff answer_ok_def)
  then have acc: "pgr_conn_accept c (newcomer rnd fd) w = Some (Ret (0, ?f, ?w1))" by simp
  have cp: "snd (pgr_conn_copy x ?f) = x\<lparr>cn_pwhash := Some h, cn_params := ps\<rparr>" for x
    using ps0 by (simp add: pgr_conn_copy_def hash params copy_params_id Let_def)
  let ?r = "r\<lparr>cn_pwhash := Some h, cn_params := ps\<rparr>" and ?v = "wr\<lparr>cn_pwhash := Some h, cn_params := ps\<rparr>"
  have res: "resolves pton ?r" "resolves pton ?v" using net by (simp_all add: resolves_def split: option.splits)
  have d1: "dialogue rfd (map reply_bytes rs @ qs1) ?w1" using srv(2) fd by simp
  have "netq ?w1 = rfd # a # 0 # wfd # b # 0 # ns" using net by (simp add: talked_def)
  from backend_opens [OF res(1) this fd(2) _ user(3) _ srv(1) d1] ps(2) obtain x l1 where
    o1: "pgr_conn_connect pton ?r ?w1 = Some (Ret (0, ?r\<lparr>cn_fd := rfd, cn_salt := x\<rparr>,
      talked rfd qs1 (startup_bytes ps @ out) (?w1\<lparr>netq := wfd # b # 0 # ns, netlog := l1\<rparr>)))"
    by auto
  let ?w2 = "talked rfd qs1 (startup_bytes ps @ out) (?w1\<lparr>netq := wfd # b # 0 # ns, netlog := l1\<rparr>)"
  have d2: "dialogue wfd (map reply_bytes rs' @ qs2) ?w2" using srv(4) fd by simp
  have "netq ?w2 = wfd # b # 0 # ns" by (simp add: talked_def)
  from backend_opens [OF res(2) this fd(3) _ user(3) _ srv(3) d2] ps(2) obtain y l2 where
    o2: "pgr_conn_connect pton ?v ?w2 = Some (Ret (0, ?v\<lparr>cn_fd := wfd, cn_salt := y\<rparr>,
      talked wfd qs2 (startup_bytes ps @ out') (?w2\<lparr>netq := ns, netlog := l2\<rparr>)))"
    by auto
  have w: "talked wfd qs2 (startup_bytes ps @ out') (?w2\<lparr>netq := ns, netlog := l2\<rparr>) =
    (talked wfd qs2 (startup_bytes ps @ out') (talked rfd qs1 (startup_bytes ps @ out) ?w1))\<lparr>netq := ns, netlog := l2\<rparr>"
    by (simp add: talked_def)
  have "cn_fd (pgr_conn_frontend x fd) = fd" for x by (simp add: pgr_conn_frontend_def)
  then show ?thesis
    using fd acc [unfolded newcomer_def]
    by (simp add: hc_open_def Let_def choice hc_connect_def cp [unfolded newcomer_def] o1 [unfolded newcomer_def]
        o2 [unfolded newcomer_def] w pgr_mbuf_setfd_def MBUF_NO_FD_def MBUF_SAME_FD_def
        del: One_nat_def) blast
qed

text \<open>The world in which the three sockets and the overflow file of the session are as they should be.\<close>

definition sockets_ok :: "int list \<Rightarrow> world \<Rightarrow> bool" where
  "sockets_ok fds w \<longleftrightarrow> distinct fds \<and> list_all (\<lambda>fd. socket fd w \<and> wrq w fd = []) fds \<and>
     (case tmpq w of [] \<Rightarrow> False | t # _ \<Rightarrow> 0 \<le> t \<and> wrq w t = [])"

lemma opened_ok:
  assumes fds: "cn_fd (frontend s) = fd" "cn_fd (reader s) = rfd" "cn_fd (writer s) = wfd"
    and fe: "fe s = (pgr_mbuf_new 16384)\<lparr>infd := fd, outfd := x\<rparr>" and be: "be s = (pgr_mbuf_new 4096)\<lparr>infd := y, outfd := fd\<rparr>"
    and w: "sockets_ok [fd, rfd, wfd] (hc_world s)"
  shows "session_ok s" and "asked s = input fd (hc_world s)" and "log_of s = []"
    and "answers s z = input z (hc_world s)"
proof -
  have wf: "mbuf_wf ((pgr_mbuf_new k)\<lparr>infd := i, outfd := j\<rparr>)" for k i j
    by (simp add: mbuf_wf_def pgr_mbuf_new_def)
  have w': "socket fd (hc_world s)" "socket rfd (hc_world s)" "socket wfd (hc_world s)" "wrq (hc_world s) fd = []"
    "wrq (hc_world s) rfd = []" "wrq (hc_world s) wfd = []" "fd \<noteq> rfd" "fd \<noteq> wfd" "rfd \<noteq> wfd"
    using w by (simp_all add: sockets_ok_def)
  obtain t q where t: "tmpq (hc_world s) = t # q" "0 \<le> t" "wrq (hc_world s) t = []"
    using w by (auto simp: sockets_ok_def split: list.splits)
  have base: "session_base s"
    using w' wf by (simp add: session_base_def fds fe be Let_def writable_def) (simp add: pgr_mbuf_new_def)
  have "sendable ((fe s)\<lparr>outfd := rfd\<rparr>) (hc_world s)"
    using w' t wf [where k = 16384 and i = fd and j = rfd] by (simp add: sendable_def fe overflow_ok_def socket_def) (auto simp: pgr_mbuf_new_def)
  with base show "session_ok s" by (simp add: session_ok_def fds)
  show "asked s = input fd (hc_world s)" "log_of s = []" "answers s z = input z (hc_world s)"
    by (simp_all add: asked_def fe unread_def window_def available_def log_of_def history_def answers_def be)
       (simp_all add: pgr_mbuf_new_def)
qed

section \<open>From the first octet to the last\<close>

lemma talked_fields [simp]:
  "files (talked fd q b w) = files w" "wrq (talked fd q b w) = wrq w" "tmpq (talked fd q b w) = tmpq w"
  "rdq (talked fd q b w) x = (if x = fd then map Chunk q else rdq w x)"
  by (simp_all add: talked_def)

text \<open>
  C1: A whole session, with all its parts together: a client that logs in with the right
  digest is connected to the two backends determine_backends has chosen, each of its queries
  that is not BEGIN or COMMIT is sent to the reader and answered with all of the reader's
  messages, in order, and when it sends Terminate handle_client returns with the three
  descriptors closed. The writer is sent the startup message, the answer to its MD5 request
  and Terminate only; the reader is sent Terminate twice.
\<close>

lemma session_run:
  assumes fd: "sockets_ok [fd, rfd, wfd] w"
    and client: "dialogue fd (startup_bytes ps # pw_bytes (md5_answer h (cn_salt (pgr_conn_init (rnd 0)))) # qs) w"
    and ps: "list_all param_ok ps" "startup_len ps \<le> 512" "startup_len ps \<noteq> 16"
    and user: "map_of (rev ps) ''user'' = Some u" "pgr_auth_find c u = Some h" "length h = 32"
    and choice: "determine_backends (rnd 3) c (pgr_conn_init (rnd 1)) (pgr_conn_init (rnd 2)) = (0, r, wr)"
    and net: "resolves pton r" "resolves pton wr" "netq w = rfd # a # 0 # wfd # b # 0 # ns"
    and srv: "admits h rs = Some out" "dialogue rfd (map reply_bytes rs @ qs1) w"
      "admits h rs' = Some out'" "dialogue wfd (map reply_bytes rs' @ qs2) w"
    and es: "list_all exchange_ok es" "length (requests es) + 5 \<le> 16384" "whole x" "x ! 0 = CHR ''X''"
    and io: "stream (map Chunk qs) = requests es @ x @ later" "stream (map Chunk qs1) = responses es @ rest"
  shows "\<exists>s. handle_client pton rnd c fd w = Some (Ret s) \<and> hc_pc s = DONE \<and>
    sent (hc_world s) fd =
      sent w fd @ auth_request (cn_salt (pgr_conn_init (rnd 0))) @ auth_done @ responses es \<and>
    sent (hc_world s) rfd = sent w rfd @ startup_bytes ps @ out @ requests es @ x @ terminate_msg \<and>
    sent (hc_world s) wfd = sent w wfd @ startup_bytes ps @ out' @ terminate_msg \<and>
    {fd, rfd, wfd} \<subseteq> set (world.closed (hc_world s))"
proof -
  have pos: "0 \<le> fd" "0 \<le> rfd" "0 \<le> wfd" "distinct [fd, rfd, wfd]" using fd by (simp_all add: sockets_ok_def socket_def)
  from session_opens [OF pos client ps user choice net srv] obtain s l where
    o: "hc_open pton rnd c fd w = Some (Ret s)" "hc_pc s = TOP" "in_txn s = 0" and
    f: "cn_fd (frontend s) = fd" "cn_fd (reader s) = rfd" "cn_fd (writer s) = wfd" and
    m: "fe s = (pgr_mbuf_new 16384)\<lparr>infd := fd, outfd := MBUF_NO_FD\<rparr>"
      "be s = (pgr_mbuf_new 4096)\<lparr>infd := MBUF_NO_FD, outfd := fd\<rparr>" and
    w: "hc_world s = (talked wfd qs2 (startup_bytes ps @ out') (talked rfd qs1 (startup_bytes ps @ out)
      (talked fd qs (auth_request (cn_salt (pgr_conn_init (rnd 0))) @ auth_done) w)))\<lparr>netq := ns, netlog := l\<rparr>"
    by blast
  have "sockets_ok [fd, rfd, wfd] (hc_world s)" using fd by (simp add: w sockets_ok_def socket_def split: list.splits)
  note ok = opened_ok [OF f m this]
  have st: "started s" by (rule open_started [OF o(1,2) pos(1)])
  have ask: "asked s = requests es @ (x @ later)" "answers s (cn_fd (reader s)) = responses es @ rest"
    using pos io by (simp_all add: ok f input_def w)
  have len: "len (fe s) = 16384" by (simp add: m pgr_mbuf_new_def)
  from queries_routed [OF st rtranclp.rtrancl_refl ok(1) o(2,3) es(1) _ ask] es(2) len ok(3) obtain s1 where
    s1: "hc_reach s s1" "hc_pc s1 = TOP" "session_ok s1" "same_conns s s1" "in_txn s1 = 0"
    "asked s1 = x @ later" "log_of s1 = requests es"
    "out_of s1 rfd = out_of s rfd @ requests es" "out_of s1 fd = out_of s fd @ responses es"
    "out_of s1 wfd = out_of s wfd"
    by (auto simp: f)
  have f1: "cn_fd (frontend s1) = fd" "cn_fd (reader s1) = rfd" "cn_fd (writer s1) = wfd"
    using s1(4) f by (simp_all add: same_conns_def)
  have "len (fe s1) = 16384" using inv_reach [OF s1(1) st] len by (simp add: hc_inv_def)
  then have "start (fe s1) + 5 \<le> len (fe s1)" using start_log [OF s1(3)] s1(7) es(2) by simp
  from terminates [OF s1(3,2,5) this es(3,4) s1(6)] obtain s2 where
    s2: "hc_reach s1 s2" "hc_pc s2 = SHUTDOWN" "same_conns s1 s2"
    "out_of s2 rfd = out_of s1 rfd @ x @ terminate_msg" "out_of s2 wfd = out_of s1 wfd @ terminate_msg"
    "out_of s2 fd = out_of s1 fd"
    by (auto simp: f1)
  have "hc_run s = hc_run s2" using run_reached s1(1) s2(1) by simp
  then have "hc_run s = Some (hc_shutdown s2)" using shutdown_run [OF s2(2)] by simp
  then have h: "handle_client pton rnd c fd w = Some (Ret (hc_shutdown s2))" by (simp add: handle_client_def o)
  have sh: "hc_pc (hc_shutdown s2) = DONE" "sent (hc_world (hc_shutdown s2)) = sent (hc_world s2)"
    by (simp_all add: hc_shutdown_def pgr_conn_deinit_def sys_close_def)
  have "reader (hc_shutdown s2) = reader s2" "writer (hc_shutdown s2) = writer s2" by (simp_all add: hc_shutdown_def)
  then have "{fd, rfd, wfd} \<subseteq> set (world.closed (hc_world (hc_shutdown s2)))"
    using handle_closes [OF h pos(1)] pos s2(3) f1 by (simp add: same_conns_def)
  moreover have "sent (hc_world s2) fd = sent (hc_world s) fd @ responses es"
    "sent (hc_world s2) rfd = sent (hc_world s) rfd @ requests es @ x @ terminate_msg"
    "sent (hc_world s2) wfd = sent (hc_world s) wfd @ terminate_msg"
    using s1(8-10) s2(4-6) by (simp_all add: out_of_def)
  ultimately show ?thesis using h sh pos by (intro exI [of _ "hc_shutdown s2"]) (simp add: w)
qed

section \<open>A full log\<close>

text \<open>
  When the queries sent so far end less than five octets before the end of the client's buffer,
  no further header fits: the read of \<^verbatim>\<open>pgr_mbuf_recv\<close> has the size 0 in the end.
\<close>

lemma sys_read_sent: "sys_read fd k w = (n, bs, w1) \<Longrightarrow> sent w1 = sent w"
  by (auto simp: sys_read_def split: option.splits list.splits rd.splits if_splits)

lemma recv_full:
  assumes "mbuf_wf m" "available m < 5" "len m < start m + 5" "pgr_mbuf_recv m w = (rc, m1, w1)"
  shows "rc \<le> 0 \<and> available m1 < 5 \<and> sent w1 = sent w"
  using assms
proof (induction m w arbitrary: rc m1 w1 rule: pgr_mbuf_recv.induct)
  case (1 m w)
  obtain n bs w2 where rd: "sys_read (infd m) (room m) w = (n, bs, w2)" by (metis surj_pair)
  show ?case
  proof (cases "n \<le> 0")
    case True
    then have "rc = n" "m1 = m" "w1 = w2" using 1(3,5) rd by (simp_all add: pgr_mbuf_recv.simps [of m] room_def)
    then show ?thesis using True 1(3) sys_read_sent [OF rd] by simp
  next
    case False
    then have len: "n = int (length bs)" "length bs \<le> room m" using sys_read_length [OF rd] sys_read_bound [OF rd] by auto
    have wf: "mbuf_wf (take_in bs m)" using wf_take_in [OF 1(2)] len(2) by (simp add: room_def)
    have av: "available (take_in bs m) < 5"
      using 1(2,4) len(2) by (auto simp: take_in_def available_def room_def mbuf_wf_def)
    have rec: "pgr_mbuf_recv (take_in bs m) w2 = (rc, m1, w1)" 
      using 1(3,5) rd False by (simp add: pgr_mbuf_recv.simps [of m] room_def)
    have "len (take_in bs m) < start (take_in bs m) + 5" using 1(4) by (simp add: take_in_def)
    with 1(1) [OF 1(3) rd [unfolded room_def, symmetric] refl False wf av _ rec] show ?thesis using sys_read_sent [OF rd] by simp
  qed
qed

lemma full_log:
  assumes "mbuf_wf (fe s)" "hc_pc s = FE" "available (fe s) < 5" "len (fe s) < start (fe s) + 5"
  shows "\<exists>s'. hc_next s = Some s' \<and> hc_pc s' = SHUTDOWN \<and> sent (hc_world s') = sent (hc_world s)"
proof -
  obtain rc m1 w1 where r: "pgr_mbuf_recv (fe s) (hc_world s) = (rc, m1, w1)" by (metis surj_pair)
  from recv_full [OF assms(1,3,4) r] have av: "rc \<le> 0" "available m1 < 5" "sent w1 = sent (hc_world s)" by auto
  have send: "pgr_mbuf_send m w = (1, m, w)" if "available m < 5" for m w using that by (simp add: pgr_mbuf_send_def)
  have sd: "available (pgr_mbuf_setfd m i j) = available m" for m i j by (simp add: pgr_mbuf_setfd_def available_def)
  have "available (fe (hc_route (s\<lparr>fe := m1, hc_world := w1, hc_type := t\<rparr>))) < 5" for t
    using av(2) by (simp add: hc_route_def Let_def sd)
  moreover have "hc_world (hc_route (s\<lparr>fe := m1, hc_world := w1, hc_type := t\<rparr>)) = w1" for t
    by (simp add: hc_route_def Let_def)
  ultimately have "hc_pc (hc_fe s) = SHUTDOWN \<and> sent (hc_world (hc_fe s)) = sent (hc_world s)"
    using av(3) by (simp add: hc_fe_def r Let_def send)
  then show ?thesis by (simp add: hc_next_def assms(2))
qed

text \<open>
  C35: A client is dropped without a message when the log of its queries ends in the last four
  octets of the client's buffer (16384 octets in handle_client) or just fills it: from the
  head of the loop the session goes to its end whatever the client sends next, and nothing is
  written to anyone.
\<close>

lemma full_log_drops:
  assumes s: "session_ok s" "hc_pc s = TOP" "in_txn s = 0"
    and log: "cache (fe s) < 0" "len (fe s) < length (log_of s) + 5" "available (fe s) < 5"
  shows "\<exists>s'. hc_reach s s' \<and> hc_pc s' = SHUTDOWN \<and> (\<forall>x. out_of s' x = out_of s x)"
proof -
  from top_session [OF s(1,2), of "cn_fd (reader s)"] s(3) obtain s1 where
    s1: "hc_next s = Some s1" "hc_pc s1 = FE" "session_ok s1" "start (fe s1) = start (fe s)" "len (fe s1) = len (fe s)"
    "window (fe s1) = window (fe s)" "\<forall>x. out_of s1 x = out_of s x"
    by auto
  have wf: "mbuf_wf (fe s)" "mbuf_wf (fe s1)"
    using s(1) s1(3) by (auto simp: session_ok_def sendable_def mbuf_wf_def)
  have "length (log_of s) \<le> start (fe s)" using log(1) by (simp add: log_of_def history_def)
  then have full: "len (fe s1) < start (fe s1) + 5" using log(2) s1(4,5) by simp
  have "available (fe s1) < 5" using log(3) s1(6) length_window [OF wf(1)] length_window [OF wf(2)] by simp
  from full_log [OF wf(2) s1(2) this full] obtain s2 where
    s2: "hc_next s1 = Some s2" "hc_pc s2 = SHUTDOWN" "sent (hc_world s2) = sent (hc_world s1)" by auto
  have "hc_reach s s2"
    using s1(1) s2(1) by (meson converse_rtranclp_into_rtranclp hc_step.step rtranclp.rtrancl_refl)
  then show ?thesis using s1(7) s2 by (intro exI [of _ s2]) (simp add: out_of_def)
qed

end
