(* ===== verification/Transactions.thy ===== *)
theory Transactions
  imports Opening
begin

text \<open>
  The beginning of a transaction in \<^verbatim>\<open>handle_client\<close> (\<^verbatim>\<open>src/worker.c\<close>): where BEGIN is sent,
  and from where its answer is read.
\<close>

section \<open>The beginning of a transaction\<close>

declare strncaseeq.simps [simp del]

text \<open>The letters of a query are looked for among the octets that have arrived.\<close>

lemma query_is_iff:
  assumes "mbuf_wf m" "unread m w ! 0 \<noteq> NUL" "5 \<le> available m" "length kw = n"
  shows "query_is m kw \<longleftrightarrow> 5 + n \<le> available m \<and> strncaseeq (drop 5 (unread m w)) kw n"
proof -
  have b0: "buf m ! start m \<noteq> NUL" using unread_nth [OF assms(1), of 0 w] assms(2,3) by simp
  show ?thesis
  proof (cases "5 + n \<le> available m")
    case True
    have "take n (drop 5 (window m)) = take n (drop (start m + 5) (buf m))"
      using True by (simp add: window_def drop_take min_def add.commute)
    moreover have "take n (drop 5 (unread m w)) = take n (drop 5 (window m))"
      using True length_window [OF assms(1)] by (simp add: unread_def)
    ultimately have "strncaseeq (drop (start m + 5) (buf m)) kw n = strncaseeq (drop 5 (unread m w)) kw n"
      by (metis strncaseeq_take)
    then show ?thesis using True b0 assms(4) by (simp add: query_is_def pgr_mbuf_data_def data_mem_def)
  next
    case False
    then show ?thesis using b0 assms(4) by (simp add: query_is_def pgr_mbuf_data_def)
  qed
qed

lemma begin_not_commit: "strncaseeq x ''begin'' 5 \<Longrightarrow> \<not> strncaseeq x ''commit'' 6"
proof -
  have "tolower (CHR ''b'') \<noteq> tolower (CHR ''c'')" by code_simp
  moreover have "(5 :: nat) = Suc 4" "(6 :: nat) = Suc 5" by simp_all
  ultimately show "strncaseeq x ''begin'' 5 \<Longrightarrow> \<not> strncaseeq x ''commit'' 6"
    by (simp only: strncaseeq.simps(2) Let_def list.case) auto
qed

text \<open>The octets of the first read, when the buffer is empty.\<close>

lemma recv_first:
  assumes "mbuf_wf m" "window m = []" "files w (infd m) = None" "rdq w (infd m) = Chunk c # q"
    and "5 \<le> length c" "start m + length c \<le> len m"
  shows "\<exists>m1. pgr_mbuf_recv m w = (int (length c), m1, w\<lparr>rdq := (rdq w)(infd m := q)\<rparr>) \<and> available m1 = length c"
proof -
  have f: "fill m = start m" using assms(1,2) length_window [OF assms(1)] by (simp add: available_def mbuf_wf_def)
  have "sys_read (infd m) (len m - start m) w = (int (length c), c, w\<lparr>rdq := (rdq w)(infd m := q)\<rparr>)"
    using assms(3-6) by (auto simp: sys_read_def)
  moreover have t: "available (take_in c m) = length c" using f by (simp add: take_in_def available_def)
  moreover have "c \<noteq> []" using assms(5) by auto
  ultimately have "pgr_mbuf_recv m w = (int (length c), take_in c m, w\<lparr>rdq := (rdq w)(infd m := q)\<rparr>)"
    using assms(5) f by (subst pgr_mbuf_recv.simps) (simp add: available_def recv_ready room_def)
  then show ?thesis using t by blast
qed

lemma begin_sent:
  assumes s: "session_ok s" "hc_pc s = TOP" "in_txn s = 0"
    and q: "whole q" "q ! 0 = CHR ''Q''" "asked s = q @ later" "strncaseeq (drop 5 q) ''begin'' 5" "10 \<le> length q"
    and c: "window (fe s) = []" "rdq (hc_world s) (cn_fd (frontend s)) = Chunk c # cs" "5 \<le> length c"
      "start (fe s) + length c \<le> len (fe s)"
    and o': "o' = (if 10 \<le> length c then cn_fd (writer s) else cn_fd (reader s))"
  shows "\<exists>s'. hc_reach s s' \<and> hc_pc s' = BE \<and> session_ok s' \<and> same_conns s s' \<and> befd s' = o' \<and>
    in_txn s' = (if 10 \<le> length c then 1 else 0) \<and> infd (be s') = cn_fd (reader s) \<and> asked s' = later \<and>
    window (be s') = window (be s) \<and>
    (\<forall>x. out_of s' x = out_of s x @ (if x = o' then q else [])) \<and>
    (\<forall>x. x \<noteq> cn_fd (frontend s) \<longrightarrow> answers s' x = answers s x \<and> rdq (hc_world s') x = rdq (hc_world s) x)"
proof -
  let ?r = "cn_fd (reader s)" and ?v = "cn_fd (writer s)" and ?f = "cn_fd (frontend s)"
  from top_session [OF s(1,2), of ?r] s(3) obtain s1 where
    s1: "hc_next s = Some s1" "hc_pc s1 = FE" "session_ok s1" "same_conns s s1" "befd s1 = ?r" "in_txn s1 = 0"
    "outfd (fe s1) = ?r" "infd (be s1) = ?r" "start (fe s1) = start (fe s)" "len (fe s1) = len (fe s)"
    "window (fe s1) = window (fe s)" "window (be s1) = window (be s)" "hc_world s1 = hc_world s"
    "asked s1 = asked s" "log_of s1 = log_of s" "\<forall>x. out_of s1 x = out_of s x \<and> answers s1 x = answers s x"
    by auto
  have c1: "reader s1 = reader s" "writer s1 = writer s" "frontend s1 = frontend s"
    using s1(4) by (simp_all add: same_conns_def)
  let ?m = "fe s1" and ?w = "hc_world s1"
  have "?m\<lparr>outfd := ?r\<rparr> = ?m" using s1(7) by (cases ?m) simp
  then have ok: "sendable ?m ?w" using sendable_fe [OF s1(3), of ?r] c1 by simp
  have inf: "infd ?m = ?f" "files ?w ?f = None" using s1(3) c1 by (auto simp: session_defs socket_def Let_def)
  have l5: "5 \<le> length (unread ?m ?w)" using q s1(14) by (simp add: asked_def)
  from recv_log [OF ok _ l5] c(3,4) s1(9,10) obtain r m1 w1 where recv: "pgr_mbuf_recv ?m ?w = (r, m1, w1)"
    "0 \<le> r" "5 \<le> available m1" "sent_on [] ?m ?w m1 w1" "unread m1 w1 = asked s1"
    by (auto simp: asked_def)
  have wfm: "mbuf_wf ?m" using ok by (simp add: sendable_def)
  have "window ?m = []" "files ?w (infd ?m) = None" "rdq ?w (infd ?m) = Chunk c # cs" "start ?m + length c \<le> len ?m"
    using c s1(9-13) inf by simp_all
  from recv_first [OF wfm this(1-3) c(3) this(4)] recv(1) have av: "available m1 = length c" by auto
  have ok1: "sendable m1 w1" "mbuf_wf m1" using recv(4) by (auto simp: sent_on_def sendable_def)
  have u0: "unread m1 w1 ! 0 \<noteq> NUL" "asked s1 = q @ later" using recv(5) q(1-3) s1(14) by simp_all
  have "length q + length later = length (asked s1)" using u0 by simp
  have "drop 5 (q @ later) = drop 5 q @ later" using q(5) by simp
  moreover have "strncaseeq (drop 5 q @ later) ''begin'' 5"
  proof -
    have "take 5 (drop 5 q @ later) = take 5 (drop 5 q)" using q(5) by simp
    then show ?thesis using q(4) by (metis strncaseeq_take)
  qed
  ultimately have l: "strncaseeq (drop 5 (unread m1 w1)) ''begin'' 5" using recv(5) u0(2) by simp
  have b: "query_is m1 ''begin'' \<longleftrightarrow> 10 \<le> length c" "\<not> query_is m1 ''commit''"
    using query_is_iff [OF ok1(2) u0(1) recv(3), of "''begin''" 5] query_is_iff [OF ok1(2) u0(1) recv(3), of "''commit''" 6]
      av l begin_not_commit [OF l] by simp_all
  have type: "pgr_mbuf_msgtype m1 = schar (CHR ''Q'')"
    using type_unread [OF ok1(2) recv(3) u0(1)] recv(5) q(1-3) s1(14) by simp
  define sA where "sA = s1\<lparr>fe := m1, hc_world := w1, hc_type := schar CHR ''Q''\<rparr>"
  have A: "same_conns s1 sA" "fe sA = m1" "be sA = be s1" "hc_world sA = w1"
    by (simp_all add: sA_def same_conns_def)
  note fA = sent_on_session [OF s1(3) _ s1(7) recv(4) A]
  define sB where "sB = sA\<lparr>fe := m1\<lparr>outfd := o'\<rparr>, befd := o', in_txn := (if 10 \<le> length c then 1 else 0)\<rparr>"
  have "session_ok sA" using fA(1) c1 by simp
  then have okB: "session_ok sB" by (simp add: sB_def session_defs Let_def A(2))
  have B: "reader sB = reader s" "writer sB = writer s" "frontend sB = frontend s" "outfd (fe sB) = o'"
    "hc_world sB = w1" "be sB = be s1" "fe sB = m1\<lparr>outfd := o'\<rparr>"
    using c1 by (simp_all add: sB_def sA_def)
  have route: "hc_route sA = sB"
  proof (cases "10 \<le> length c")
    case True
    have "query_is (m1\<lparr>outfd := x\<rparr>) kw = query_is m1 kw" for x kw
      by (simp add: query_is_def pgr_mbuf_data_def data_mem_def available_def)
    moreover have "?v \<noteq> MBUF_SAME_FD" using s(1) by (auto simp: session_defs socket_def MBUF_SAME_FD_def Let_def)
    ultimately show ?thesis
      using b True c1 by (simp add: hc_route_def sB_def sA_def o' pgr_mbuf_setfd_def Let_def)
  next
    case False
    have "m1\<lparr>outfd := ?r\<rparr> = m1" using recv(4) s1(7) by (cases m1) (simp add: sent_on_def)
    then show ?thesis using b False s1(5,6) by (simp add: hc_route_def sB_def sA_def o' Let_def)
  qed
  have okS: "sendable (fe sB) w1"
    using sendable_fe [OF okB, of o'] B o' by (auto split: if_splits)
  have uB: "unread (fe sB) w1 = asked s1" "5 \<le> available (fe sB)"
    using recv(3,5) by (simp_all add: B unread_def window_def available_def)
  from send_log [OF okS uB(2)] uB q(1) u0(2) obtain m2 w2 where
    send: "pgr_mbuf_send (fe sB) w1 = (0, m2, w2)" "sent_on q (fe sB) w1 m2 w2" "unread m2 w2 = later"
    by (auto simp: whole_complete)
  define s' where "s' = sB\<lparr>fe := m2, hc_world := w2, hc_pc := BE\<rparr>"
  have qx: "schar CHR ''Q'' \<noteq> schar CHR ''X''" by simp
  have "hc_type sB = schar CHR ''Q''" by (simp add: sB_def sA_def)
  moreover have "hc_route (s1\<lparr>fe := m1, hc_world := w1, hc_type := pgr_mbuf_msgtype m1\<rparr>) = sB"
    using route by (simp only: sA_def type)
  moreover have "pgr_mbuf_send (fe sB) (hc_world sB) = (0, m2, w2)" using send(1) by (simp only: B)
  ultimately have "hc_fe s1 = s'"
    using recv(2) by (simp add: hc_fe_def recv(1) Let_def s'_def)
  then have n1: "hc_next s1 = Some s'" by (simp add: hc_next_def s1(2))
  have C: "same_conns sB s'" "fe s' = m2" "be s' = be sB" "hc_world s' = w2" by (simp_all add: s'_def same_conns_def)
  have "sent_on q (fe sB) (hc_world sB) m2 w2" using send(2) by (simp add: B)
  note fB = sent_on_session [OF okB _ B(4) this C]
  have oB: "o' = cn_fd (reader sB) \<or> o' = cn_fd (writer sB)" using o' B by simp
  have "hc_reach s s'"
    using s1(1) n1 by (meson converse_rtranclp_into_rtranclp hc_step.step rtranclp.rtrancl_refl)
  moreover have "out_of s' x = out_of s x @ (if x = o' then q else [])" for x
    using fB(3) [OF oB, of x] fA(3) [of x] s1(16) c1 by (simp add: out_of_def B A sB_def)
  moreover have "answers s' x = answers s x \<and> rdq (hc_world s') x = rdq (hc_world s) x" if "x \<noteq> ?f" for x
    using fB(2,5) [OF oB, of x] fA(2,5) [of x] s1(13,16) c1 that B by (simp add: answers_def A sB_def)
  ultimately show ?thesis
    using fB(1) [OF oB] s1(8,12) send(3) c1 B
    by (intro exI [of _ s']) (simp add: s'_def same_conns_def asked_def sB_def sA_def)
qed

text \<open>A backend that has nothing to say and closes ends the session.\<close>

lemma backend_silent:
  assumes s: "session_ok s" "hc_pc s = BE" and b: "window (be s) = []" "infd (be s) = cn_fd (reader s)"
    "rdq (hc_world s) (cn_fd (reader s)) = []"
  shows "\<exists>s'. hc_next s = Some s' \<and> hc_pc s' = SHUTDOWN \<and> (\<forall>x. out_of s' x = out_of s x)"
proof -
  let ?m = "be s" and ?w = "hc_world s"
  have base: "mbuf_wf ?m" "start ?m = 0" "5 \<le> len ?m" "files ?w (cn_fd (reader s)) = None"
    using s(1) by (simp_all add: session_defs socket_def Let_def)
  have av: "available ?m = 0" "fill ?m = 0"
    using b(1) base(1,2) length_window [OF base(1)] by (simp_all add: available_def)
  have "pgr_mbuf_recv ?m ?w = (0, ?m, ?w)"
    using base b av by (subst pgr_mbuf_recv.simps) (simp add: sys_read_def room_def)
  moreover have "pgr_mbuf_msgtype ?m = -1" by (simp add: pgr_mbuf_msgtype_def av)
  moreover have "schar CHR ''E'' \<noteq> -1" by (simp add: schar_def uchar_def)
  ultimately have "hc_be s = Some (s\<lparr>be := ?m, hc_world := ?w, hc_type := -1, hc_pc := SHUTDOWN\<rparr>)"
    using av by (simp add: hc_be_def pgr_mbuf_iserror_def pgr_mbuf_relay_def Let_def)
  then show ?thesis by (simp add: hc_next_def s(2) out_of_def)
qed

text \<open>
  C34: BEGIN is sent to the writer when its five letters arrive together with the header, and
  to the reader otherwise; in both cases the session goes on to read the answer from the
  reader: what the writer answers stays unread, and when the reader is silent and closes, the
  session ends without an answer to the client.
\<close>

lemma begin_waits:
  assumes s: "session_ok s" "hc_pc s = TOP" "in_txn s = 0" "window (be s) = []"
    and q: "whole q" "q ! 0 = CHR ''Q''" "asked s = q @ later" "strncaseeq (drop 5 q) ''begin'' 5" "10 \<le> length q"
    and c: "window (fe s) = []" "rdq (hc_world s) (cn_fd (frontend s)) = Chunk c # cs" "5 \<le> length c"
      "start (fe s) + length c \<le> len (fe s)"
  shows "\<exists>s'. hc_reach s s' \<and> hc_pc s' = BE \<and> infd (be s') = cn_fd (reader s) \<and>
    (\<forall>x. out_of s' x = out_of s x @
      (if x = (if 10 \<le> length c then cn_fd (writer s) else cn_fd (reader s)) then q else [])) \<and>
    answers s' (cn_fd (writer s)) = answers s (cn_fd (writer s)) \<and>
    (rdq (hc_world s) (cn_fd (reader s)) = [] \<longrightarrow>
       (\<exists>s2. hc_next s' = Some s2 \<and> hc_pc s2 = SHUTDOWN \<and> (\<forall>x. out_of s2 x = out_of s' x)))"
proof -
  from begin_sent [OF s(1-3) q c refl] obtain s' where
    s': "hc_reach s s'" "hc_pc s' = BE" "session_ok s'" "same_conns s s'" "infd (be s') = cn_fd (reader s)"
    "window (be s') = window (be s)"
    "\<forall>x. out_of s' x = out_of s x @
      (if x = (if 10 \<le> length c then cn_fd (writer s) else cn_fd (reader s)) then q else [])"
    "\<forall>x. x \<noteq> cn_fd (frontend s) \<longrightarrow> answers s' x = answers s x \<and> rdq (hc_world s') x = rdq (hc_world s) x"
    by blast
  have r: "reader s' = reader s" using s'(4) by (simp add: same_conns_def)
  have ne: "cn_fd (frontend s) \<noteq> cn_fd (reader s)" "cn_fd (frontend s) \<noteq> cn_fd (writer s)"
    using s(1) by (simp_all add: session_defs Let_def)
  have "\<exists>s2. hc_next s' = Some s2 \<and> hc_pc s2 = SHUTDOWN \<and> (\<forall>x. out_of s2 x = out_of s' x)"
    if "rdq (hc_world s) (cn_fd (reader s)) = []"
    using that s'(5,6,8) ne s(4) by (intro backend_silent [OF s'(3,2)]) (auto simp: r)
  then show ?thesis using s' ne by (intro exI [of _ s']) (simp add: r)
qed

end
