(* ===== verification/Msg_Test.thy ===== *)
theory Msg_Test
  imports Msg_Replay
begin

text \<open>
  The test program of the message buffers (the part of \<^verbatim>\<open>src/msg.c\<close> under \<^verbatim>\<open>PTEST\<close>). A test is a
  function on the buffer and the world, \<open>None\<close> is its \<^verbatim>\<open>exit(1)\<close>. The two temporary files are
  streams: the input is one chunk from which every read gets as much as it asks for, the contents
  of the output is what was sent.
\<close>

type_synonym mstate = "mbuf \<times> world"
type_synonym mtest = "mstate \<Rightarrow> mstate option"

definition TEST_IN :: int where "TEST_IN = 3"
definition TEST_OUT :: int where "TEST_OUT = 4"

section \<open>Checks\<close>

definition so_that :: "bool \<Rightarrow> mstate \<Rightarrow> mstate option" where
  "so_that x s = (if x then Some s else None)"

fun test_run :: "mtest list \<Rightarrow> mtest" where
  "test_run [] s = Some s"
| "test_run (t # ts) s = (case t s of None \<Rightarrow> None | Some s1 \<Rightarrow> test_run ts s1)"

definition returns :: "(int \<Rightarrow> bool) \<Rightarrow> (mbuf \<Rightarrow> world \<Rightarrow> int \<times> mbuf \<times> world) \<Rightarrow> mtest" where
  "returns p f s = (case f (fst s) (snd s) of (rc, m, w) \<Rightarrow> so_that (p rc) (m, w))"

abbreviation succeeds :: "(mbuf \<Rightarrow> world \<Rightarrow> int \<times> mbuf \<times> world) \<Rightarrow> mtest" where
  "succeeds \<equiv> returns (\<lambda>rc. rc = 0)"

abbreviation recv_ok :: mtest where "recv_ok \<equiv> returns (\<lambda>rc. 0 < rc) pgr_mbuf_recv"

definition buffer_is :: "(mbuf \<Rightarrow> bool) \<Rightarrow> mtest" where
  "buffer_is p s = so_that (p (fst s)) s"

definition msg_is :: "int \<Rightarrow> u32 \<Rightarrow> mtest" where
  "msg_is t l s = so_that (pgr_mbuf_msgtype (fst s) = t \<and> pgr_mbuf_msglength (fst s) = l) s"

definition fileok :: "bytes \<Rightarrow> mtest" where
  "fileok x s = so_that (sent (snd s) TEST_OUT = x) s"

definition written :: "nat \<Rightarrow> mtest" where
  "written n s = so_that (length (sent (snd s) TEST_OUT) = n) s"

definition truncate_out :: mtest where
  "truncate_out s = Some (fst s, (snd s)\<lparr>sent := (sent (snd s))(TEST_OUT := [])\<rparr>)"

definition drain_ok :: "int \<Rightarrow> mtest" where
  "drain_ok until s =
     (case pgr_mbuf_drain (fst s) until (snd s) of
        None \<Rightarrow> None
      | Some (rc, m, w) \<Rightarrow> so_that (rc = 0) (m, w))"

section \<open>The messages\<close>

definition test_ssl :: bytes where
  "test_ssl = [NUL, NUL, NUL, byte_of 0x08, byte_of 0x04, byte_of 0xd2, byte_of 0x16, byte_of 0x2f]"
definition test_startup :: bytes where
  "test_startup = [NUL, NUL, NUL, byte_of 0x09, NUL, byte_of 0x03, NUL, NUL, NUL]"
definition test_I :: bytes where
  "test_I = [CHR ''I'', NUL, NUL, NUL, byte_of 0x04]"
definition test_Q :: bytes where
  "test_Q = [CHR ''Q'', NUL, NUL, NUL, byte_of 0x25] @ ''Do you know the way to San Jose?'' @ [NUL]"
definition test_L :: bytes where
  "test_L = [CHR ''L'', NUL, NUL, byte_of 0x80, byte_of 0x04] @ replicate 0x8000 (CHR ''.'')"
definition test_S :: bytes where
  "test_S = [CHR ''S'', NUL, NUL, NUL, byte_of 0x04]"
definition test_E :: bytes where
  "test_E = take 35 ([CHR ''E'', NUL, NUL, NUL, byte_of 0x22] @ ''SFATAL'' @ [NUL] @ ''C12345'' @ [NUL] @
     ''Dstuffs broke yo'' @ [NUL, NUL])"
definition test_cat :: bytes where
  "test_cat = [CHR ''Q'', NUL, NUL, NUL, byte_of 0x12] @ ''SELECT THINGS'' @ [NUL]"

definition init_test :: "world \<Rightarrow> mstate" where
  "init_test w = (pgr_mbuf_setfd (pgr_mbuf_new 512) TEST_IN TEST_OUT, w)"

definition reset_test :: mtest where
  "reset_test s = Some ((fst s)\<lparr>fill := 0\<rparr>, (snd s)\<lparr>
     rdq := (rdq (snd s))(TEST_IN := [Chunk (test_ssl @ test_startup @ test_I @ test_Q @ test_L @ test_S @ test_E)]),
     sent := (sent (snd s))(TEST_OUT := [])\<rparr>)"

section \<open>The tests\<close>

definition test_empty :: "mtest list" where
  "test_empty =
     [buffer_is (\<lambda>m. fill m = 0),
      returns (\<lambda>rc. rc \<noteq> 0) pgr_mbuf_discard,
      buffer_is (\<lambda>m. pgr_mbuf_msgtype m = -1),
      buffer_is (\<lambda>m. pgr_mbuf_msglength m = 0),
      buffer_is (\<lambda>m. pgr_mbuf_data m 0 0 = None)]"

text \<open>In the third check \<^verbatim>\<open>==\<close> binds tighter than \<^verbatim>\<open>|\<close>.\<close>

definition test_access :: "mtest list" where
  "test_access =
     [reset_test, recv_ok,
      buffer_is (\<lambda>m. pgr_mbuf_u16 m 0 = 1234),
      buffer_is (\<lambda>m. pgr_mbuf_u16 m 2 = 5679),
      buffer_is (\<lambda>m. (if pgr_mbuf_u32 m 0 = push_bit 16 1234 then 1 else 0) OR 5679 \<noteq> (0 :: int))]"

definition test_discard :: "mtest list" where
  "test_discard =
     [reset_test, recv_ok, msg_is MSG_SSLREQ 4,
      succeeds pgr_mbuf_discard, recv_ok, msg_is MSG_STARTUP 5,
      succeeds pgr_mbuf_discard, recv_ok, msg_is (schar CHR ''I'') 0,
      succeeds pgr_mbuf_discard, recv_ok, msg_is (schar CHR ''Q'') 33,
      buffer_is (\<lambda>m. case pgr_mbuf_data m 0 0 of
                       None \<Rightarrow> False
                     | Some p \<Rightarrow> memcmp (take 33 (data_mem m p)) (''Do you know the way to San Jose?'' @ [NUL]) = 0),
      succeeds pgr_mbuf_discard, recv_ok, msg_is (schar CHR ''L'') 0x8000,
      succeeds pgr_mbuf_discard, recv_ok, msg_is (schar CHR ''S'') 0,
      succeeds pgr_mbuf_discard, recv_ok, msg_is (schar CHR ''E'') 30,
      succeeds pgr_mbuf_discard, returns (\<lambda>rc. rc = 0) pgr_mbuf_recv]"

definition test_relay :: "mtest list" where
  "test_relay =
     [reset_test, recv_ok, succeeds pgr_mbuf_relay, fileok test_ssl, msg_is MSG_STARTUP 5,
      recv_ok, succeeds pgr_mbuf_relay, fileok (test_ssl @ test_startup), msg_is (schar CHR ''I'') 0,
      recv_ok, succeeds pgr_mbuf_relay, fileok (test_ssl @ test_startup @ test_I), msg_is (schar CHR ''Q'') 33,
      recv_ok, succeeds pgr_mbuf_relay, fileok (test_ssl @ test_startup @ test_I @ test_Q), msg_is (schar CHR ''L'') 0x8000,
      recv_ok, succeeds pgr_mbuf_relay, written (8+9+5+38+0x8000+5), msg_is (schar CHR ''S'') 0]"

definition test_resend :: "mtest list" where
  "test_resend =
     [reset_test, recv_ok, succeeds pgr_mbuf_send, fileok test_ssl, msg_is MSG_STARTUP 5,
      recv_ok, succeeds pgr_mbuf_send, fileok (test_ssl @ test_startup), msg_is (schar CHR ''I'') 0,
      recv_ok, succeeds pgr_mbuf_send, fileok (test_ssl @ test_startup @ test_I), msg_is (schar CHR ''Q'') 33,
      recv_ok, succeeds pgr_mbuf_send, fileok (test_ssl @ test_startup @ test_I @ test_Q),
      truncate_out, succeeds pgr_mbuf_resend, fileok (test_ssl @ test_startup @ test_I @ test_Q), msg_is (schar CHR ''L'') 0x8000,
      recv_ok, succeeds pgr_mbuf_send, written (8+9+5+38+0x8000+5),
      truncate_out, succeeds pgr_mbuf_resend, written (8+9+5+38+0x8000+5), msg_is (schar CHR ''S'') 0]"

definition test_drain :: "mtest list" where
  "test_drain =
     [reset_test, recv_ok, succeeds pgr_mbuf_relay, fileok test_ssl, msg_is MSG_STARTUP 5,
      drain_ok (schar CHR ''L''), msg_is (schar CHR ''S'') 0,
      recv_ok, msg_is (schar CHR ''S'') 0,
      succeeds pgr_mbuf_relay, fileok (test_ssl @ test_S)]"

definition test_errors :: "mtest list" where
  "test_errors =
     [reset_test, recv_ok,
      buffer_is (\<lambda>m. pgr_mbuf_iserror m None \<noteq> 0),
      buffer_is (\<lambda>m. pgr_mbuf_iserror m (Some ''12345'') \<noteq> 0),
      drain_ok (schar CHR ''S''), msg_is (schar CHR ''E'') 30,
      buffer_is (\<lambda>m. pgr_mbuf_iserror m None = 0),
      buffer_is (\<lambda>m. pgr_mbuf_iserror m (Some ''12345'') = 0),
      buffer_is (\<lambda>m. pgr_mbuf_iserror m (Some ''x2600'') \<noteq> 0)]"

definition test_concat :: "mtest list" where
  "test_concat =
     [reset_test, (\<lambda>s. Some (snd (pgr_mbuf_cat (fst s) test_cat), snd s)),
      succeeds pgr_mbuf_relay, fileok test_cat]"

definition msg_main :: mtest where
  "msg_main = test_run (test_empty @ test_access @ test_discard @ test_relay @ test_resend @ test_drain @ test_errors @ test_concat)"

end
