(* ===== verification/Msg_Test_File.thy ===== *)
theory Msg_Test_File
  imports Msg_Test Conn_Laws Session_Laws
begin

text \<open>
  The buffer in front of a file from which every read gets whole blocks: what relay, discard and
  send leave in it.
\<close>

section \<open>The buffer in front of a file\<close>

text \<open>
  \<open>a\<close> octets of what is still to come (\<open>u\<close>) are in the buffer; the file was read in blocks of 512
  octets from its beginning, so the block that was read last ends at a multiple of 512 or at the
  end of the file.
\<close>

definition block_end :: "nat \<Rightarrow> bytes \<Rightarrow> bool" where
  "block_end a u \<longleftrightarrow> a = length u \<or> (32873 - length u + a) mod 512 = 0"

definition on_file :: "nat \<Rightarrow> bytes \<Rightarrow> mbuf \<Rightarrow> world \<Rightarrow> bool" where
  "on_file a u m w \<longleftrightarrow> mbuf_wf m \<and> len m = 512 \<and> infd m = TEST_IN \<and> outfd m = TEST_OUT \<and>
     window m = take a u \<and> a \<le> length u \<and> length u \<le> 32873 \<and>
     block_end a u \<and>
     rdq w TEST_IN = (if a < length u then [Chunk (drop a u)] else []) \<and>
     wrq w = (\<lambda>_. []) \<and> files w TEST_IN = None \<and> files w TEST_OUT = None"

lemma test_fds [simp]: "TEST_IN \<noteq> TEST_OUT" "TEST_OUT \<noteq> TEST_IN" "0 \<le> TEST_IN" "0 \<le> TEST_OUT"
  by (simp_all add: TEST_IN_def TEST_OUT_def)

lemma on_fileD:
  assumes "on_file a u m w"
  shows "mbuf_wf m" "len m = 512" "infd m = TEST_IN" "outfd m = TEST_OUT" "window m = take a u" "a \<le> length u"
    "length u \<le> 32873" "wrq w = (\<lambda>_. [])" "files w TEST_IN = None" "files w TEST_OUT = None"
    "available m = a" "unread m w = u"
proof -
  show *: "mbuf_wf m" "len m = 512" "infd m = TEST_IN" "outfd m = TEST_OUT" "window m = take a u" "a \<le> length u"
    "length u \<le> 32873" "wrq w = (\<lambda>_. [])" "files w TEST_IN = None" "files w TEST_OUT = None"
    using assms by (simp_all add: on_file_def)
  show "available m = a" using length_window [OF *(1)] *(5,6) by simp
  have "a < length u \<Longrightarrow> drop a u \<noteq> []" by simp
  then show "unread m w = u" using assms by (auto simp: on_file_def unread_def input_def)
qed

lemma on_file_put: "on_file a u m w \<Longrightarrow> on_file a u m (put TEST_OUT b w)"
  by (auto simp: on_file_def put_fields) (simp_all add: put_def)

lemma put_out: "on_file a u m w \<Longrightarrow> files (put TEST_OUT b w) = files w \<and> sent (put TEST_OUT b w) TEST_OUT = sent w TEST_OUT @ b"
  by (simp add: put_def on_file_def)

lemma on_file_write: "on_file a u m w \<Longrightarrow> write_all TEST_OUT b w = (True, if b = [] then w else put TEST_OUT b w)"
  by (cases "b = []") (simp_all add: write_all_open on_file_def write_all.simps [of TEST_OUT "[]"])

text \<open>The next block, when the buffer has been emptied.\<close>

lemma next_block:
  assumes f: "on_file a u m w" and s: "start m = 0" and l: "a < length u"
  obtains bs w1 where "sys_read (infd m) (room (drop_window m)) w = (int (length bs), bs, w1)" "bs \<noteq> []"
    "on_file (min 512 (length u - a)) (drop a u) (take_in bs (drop_window m)) w1"
    "sent w1 = sent w" "files w1 = files w" "tmpq w1 = tmpq w"
proof -
  let ?d = "drop a u" and ?b = "take 512 (drop a u)"
  let ?w = "w\<lparr>rdq := (rdq w)(TEST_IN := (if 512 < length ?d then [Chunk (drop 512 ?d)] else []))\<rparr>"
  note d = on_fileD [OF f]
  have r: "room (drop_window m) = 512" using d s by (simp add: room_def drop_window_def)
  have q: "rdq w TEST_IN = [Chunk ?d]" using f l by (simp add: on_file_def)
  have "sys_read TEST_IN 512 w = (int (length ?b), ?b, ?w)"
    using d(9) q by (auto simp: sys_read_def)
  moreover have "?b \<noteq> []" using l by simp
  moreover have "on_file (min 512 (length u - a)) ?d (take_in ?b (drop_window m)) ?w"
  proof -
    have m: "mbuf_wf (take_in ?b (drop_window m))" "window (take_in ?b (drop_window m)) = ?b"
      using d r wf_drop_window [OF d(1)] by (simp_all add: wf_take_in window_take_in)
    have "(32873 - length u + a) mod 512 = 0" using f l by (auto simp: on_file_def block_end_def)
    moreover have "32873 - (length u - a) + 512 = (32873 - length u + a) + 512" using d(6,7) by simp
    ultimately have "(32873 - (length u - a) + 512) mod 512 = 0" by simp
    then have "block_end (min 512 (length u - a)) ?d" using d(6) by (auto simp: block_end_def min_def)
    then show ?thesis
      using d m by (auto simp: on_file_def take_in_def drop_window_def min_def)
  qed
  ultimately show thesis using r d(3) by (intro that [of ?b ?w]) simp_all
qed

lemma block_end_drop:
  assumes f: "on_file a u m w" and l: "l \<le> a"
  shows "block_end (a - l) (drop l u)"
proof -
  have "a \<le> length u" "length u \<le> 32873" "block_end a u" using f by (simp_all add: on_file_def)
  moreover from this have "32873 - (length u - l) + (a - l) = 32873 - length u + a" using l by simp
  ultimately show ?thesis using l by (auto simp: block_end_def)
qed

lemma on_file_cut:
  assumes f: "on_file a u m w" and l: "l \<le> a"
  shows "on_file (a - l) (drop l u) (cut_front l m) w"
proof -
  note d = on_fileD [OF f]
  have "block_end (a - l) (drop l u)" by (rule block_end_drop [OF f l])
  moreover have "window (cut_front l m) = take (a - l) (drop l u)"
    using window_cut [OF d(1)] d(5,11) l by (simp add: drop_take)
  ultimately show ?thesis
    using f d wf_cut_front [OF d(1), of l] l by (auto simp: on_file_def cut_front_def)
qed

lemma cut_fields: "start (cut_front l m) = start m" "cache (cut_front l m) = cache m" "outfd (cut_front l m) = outfd m"
  by (simp_all add: cut_front_def)

section \<open>Relay and discard\<close>

lemma relay_file:
  assumes "on_file a u m w" "start m = 0" "l \<le> length u"
  shows "\<exists>a' m' w'. relay_loop l True m w = (0, m', w') \<and> on_file a' (drop l u) m' w' \<and> start m' = 0 \<and>
    cache m' = cache m \<and> tmpq w' = tmpq w \<and> (l \<le> a \<longrightarrow> a' = a - l) \<and>
    sent w' TEST_OUT = sent w TEST_OUT @ take l u"
  using assms
proof (induction l "True" m w arbitrary: a u rule: relay_loop.induct)
  case (1 l m w)
  note d = on_fileD [OF "1.prems"(1)]
  show ?case
  proof (cases "a < l")
    case True
    let ?w = "if window m = [] then w else put TEST_OUT (window m) w"
    have wr: "write_all (outfd m) (window m) w = (True, ?w)" using on_file_write [OF "1.prems"(1)] d(4) by simp
    have fw: "on_file a u m ?w" using "1.prems"(1) on_file_put by simp
    have sw: "sent ?w TEST_OUT = sent w TEST_OUT @ take a u" "tmpq ?w = tmpq w"
      using put_out [OF "1.prems"(1)] d(5) by (auto simp: put_fields)
    have "a < length u" using True "1.prems"(3) by simp
    from next_block [OF fw "1.prems"(2) this] obtain bs w1 where
      rd: "sys_read (infd m) (room (drop_window m)) ?w = (int (length bs), bs, w1)" "bs \<noteq> []" and
      nb: "on_file (min 512 (length u - a)) (drop a u) (take_in bs (drop_window m)) w1"
        "sent w1 = sent ?w" "tmpq w1 = tmpq ?w" by metis
    have s0: "start (take_in bs (drop_window m)) = 0" "cache (take_in bs (drop_window m)) = cache m"
      using "1.prems"(2) by (simp_all add: take_in_def drop_window_def)
    have c: "available m < l" "\<not> int (length bs) \<le> 0" using True d(11) rd(2) by simp_all
    have lq: "l - available m \<le> length (drop a u)" using "1.prems"(3) d(11) by simp
    have wt: "(True, ?w) = (if True then write_all (outfd m) (window m) w else (False, w))" by (simp only: wr if_True)
    from "1.hyps" [OF c(1) wt rd(1) [symmetric] refl c(2) nb(1) s0(1) lq, unfolded d(11) s0(2)]
    obtain a' m' w' where ih: "relay_loop (l - a) True (take_in bs (drop_window m)) w1 = (0, m', w')"
      "on_file a' (drop (l - a) (drop a u)) m' w'" "start m' = 0" "cache m' = cache m" "tmpq w' = tmpq w1"
      "sent w' TEST_OUT = sent w1 TEST_OUT @ take (l - a) (drop a u)"
      by blast
    have "relay_loop l True m w = (0, m', w')"
      using c rd wr ih(1) d(11) by (simp add: relay_loop.simps [of l True m w])
    moreover have "take a u @ take (l - a) (drop a u) = take l u"
      using True by (metis le_add_diff_inverse less_imp_le take_add)
    ultimately show ?thesis using ih nb(2,3) sw True
      by (intro exI [of _ a'] exI [of _ m'] exI [of _ w']) (simp add: add.commute)
  next
    case False
    show ?thesis
    proof (cases "l = 0")
      case True
      then show ?thesis using "1.prems"
        by (intro exI [of _ a] exI [of _ m] exI [of _ w]) (simp add: relay_loop.simps [of 0])
    next
      case l0: False
      have t: "take l (window m) = take l u" "take l u \<noteq> []" using False l0 d(5) "1.prems"(3) by auto
      then have "write_all (outfd m) (take l (window m)) w = (True, put TEST_OUT (take l u) w)"
        using on_file_write [OF "1.prems"(1), of "take l u"] d(4) by simp
      then have "relay_loop l True m w = (0, cut_front l m, put TEST_OUT (take l u) w)"
        using False l0 d(11) by (simp add: relay_loop.simps [of l])
      moreover have "on_file (a - l) (drop l u) (cut_front l m) (put TEST_OUT (take l u) w)"
        using False by (intro on_file_put on_file_cut "1.prems"(1)) simp
      ultimately show ?thesis using put_out [OF "1.prems"(1)] "1.prems"(2)
        by (intro exI [of _ "a - l"] exI [of _ "cut_front l m"] exI [of _ "put TEST_OUT (take l u) w"])
           (simp add: cut_fields put_fields)
    qed
  qed
qed

lemma discard_file:
  assumes "on_file a u m w" "start m = 0" "l \<le> length u"
  shows "\<exists>a' m' w'. discard_loop l m w = (0, m', w') \<and> on_file a' (drop l u) m' w' \<and> start m' = 0 \<and>
    cache m' = cache m \<and> tmpq w' = tmpq w \<and> (l \<le> a \<longrightarrow> a' = a - l) \<and> sent w' = sent w"
  using assms
proof (induction l m w arbitrary: a u rule: discard_loop.induct)
  case (1 l m w)
  note d = on_fileD [OF "1.prems"(1)]
  show ?case
  proof (cases "a < l")
    case True
    have "a < length u" using True "1.prems"(3) by simp
    from next_block [OF "1.prems"(1,2) this] obtain bs w1 where
      rd: "sys_read (infd m) (room (drop_window m)) w = (int (length bs), bs, w1)" "bs \<noteq> []" and
      nb: "on_file (min 512 (length u - a)) (drop a u) (take_in bs (drop_window m)) w1"
        "sent w1 = sent w" "tmpq w1 = tmpq w" by metis
    have s0: "start (take_in bs (drop_window m)) = 0" "cache (take_in bs (drop_window m)) = cache m"
      using "1.prems"(2) by (simp_all add: take_in_def drop_window_def)
    have c: "available m < l" "\<not> int (length bs) \<le> 0" using True d(11) rd(2) by simp_all
    have lq: "l - available m \<le> length (drop a u)" using "1.prems"(3) d(11) by simp
    from "1.IH" [OF c(1) rd(1) [symmetric] refl c(2) nb(1) s0(1) lq, unfolded d(11) s0(2)]
    obtain a' m' w' where ih: "discard_loop (l - a) (take_in bs (drop_window m)) w1 = (0, m', w')"
      "on_file a' (drop (l - a) (drop a u)) m' w'" "start m' = 0" "cache m' = cache m" "tmpq w' = tmpq w1" "sent w' = sent w1"
      by blast
    have "discard_loop l m w = (0, m', w')"
      using c rd ih(1) d(11) by (simp add: discard_loop.simps [of l m w])
    then show ?thesis using ih nb(2,3) True
      by (intro exI [of _ a'] exI [of _ m'] exI [of _ w']) simp
  next
    case False
    show ?thesis
    proof (cases "l = 0")
      case True
      then show ?thesis using "1.prems"
        by (intro exI [of _ a] exI [of _ m] exI [of _ w]) (simp add: discard_loop.simps [of 0])
    next
      case l0: False
      have "discard_loop l m w = (0, cut_front l m, w)"
        using False l0 d(11) by (simp add: discard_loop.simps [of l])
      moreover have "on_file (a - l) (drop l u) (cut_front l m) w"
        using False by (intro on_file_cut "1.prems"(1)) simp
      ultimately show ?thesis using "1.prems"(2)
        by (intro exI [of _ "a - l"] exI [of _ "cut_front l m"] exI [of _ w]) (simp add: cut_fields)
    qed
  qed
qed

section \<open>Send\<close>

lemma send_small:
  assumes f: "on_file a u m w" and c: "cache m < 0" and l: "0 < l" "l \<le> a"
  shows "\<exists>m' w'. send_loop l True m w = (0, m', w') \<and> on_file (a - l) (drop l u) m' w' \<and> cache m' = cache m"
proof -
  note d = on_fileD [OF f]
  let ?m = "m\<lparr>start := start m + l\<rparr>" and ?w = "put TEST_OUT (take l u) w"
  have t: "take l (drop (start m) (buf m)) = take l u" "l \<le> length (drop (start m) (buf m))"
    using take_len_window [OF d(1), of l] d(1,5,11) l by (auto simp: mbuf_wf_def available_def)
  have "writen 0 (outfd m) (drop (start m) (buf m)) l w = (int l, ?w)"
    using d(4,8) l t by (simp add: writen_whole)
  then have "send_loop l True m w = (0, ?m, ?w)"
    using l c d(11) by (simp add: send_loop.simps [of l])
  moreover have "on_file (a - l) (drop l u) ?m ?w"
  proof (rule on_file_put)
    have "window ?m = drop l (window m)" by (simp add: window_def available_def drop_take add.commute)
    moreover have "block_end (a - l) (drop l u)" by (rule block_end_drop [OF f l(2)])
    moreover have "mbuf_wf ?m" using d(1,11) l by (auto simp: mbuf_wf_def available_def)
    ultimately show "on_file (a - l) (drop l u) ?m w"
      using f d(5) l by (auto simp: on_file_def drop_take)
  qed
  ultimately show ?thesis by (intro exI [of _ ?m] exI [of _ ?w]) simp
qed

lemma on_file_sent:
  assumes "on_file a u m w" "sent_on b m w m w1" "rdq w1 = rdq w"
  shows "on_file a u m w1"
proof -
  have "sendable m w1" "wrq w1 = wrq w" using assms(2) by (simp_all add: sent_on_def)
  then show ?thesis using assms(1,3) by (simp add: on_file_def sendable_def)
qed

lemma send_cached:
  assumes "on_file a u m w" "sendable m w" "0 \<le> cache m" "0 < a" "0 < l" "l \<le> length u"
  shows "\<exists>rc a' m' w'. send_loop l ok m w = (rc, m', w') \<and> on_file a' (drop l u) m' w' \<and> start m' = 0"
  using assms
proof (induction l ok m w arbitrary: a u rule: send_loop.induct)
  case (1 l ok m w)
  note d = on_fileD [OF "1.prems"(1)]
  have s0: "start m = 0" using "1.prems"(2,3) by (simp add: sendable_def overflow_ok_def)
  show ?case
  proof (cases "a < l")
    case True
    have av: "0 < available m" "available m \<le> available m" using d(11) "1.prems"(4) by simp_all
    from write_both [OF "1.prems"(2,3) av] obtain w1 w2 where
      wr: "writen 0 (outfd m) (drop (start m) (buf m)) (available m) w = (int (available m), w1)"
        "writen 0 (cache m) (drop (start m) (buf m)) (available m) w1 = (int (available m), w2)" and
      so: "sent_on (take (available m) (window m)) m w m w2" and rq: "rdq w2 = rdq w" .
    have f2: "on_file a u m w2" by (rule on_file_sent [OF "1.prems"(1) so rq])
    have "a < length u" using True "1.prems"(6) by simp
    from next_block [OF f2 s0 this] obtain bs w3 where
      rd: "sys_read (infd m) (room (drop_window m)) w2 = (int (length bs), bs, w3)" "bs \<noteq> []" and
      nb: "on_file (min 512 (length u - a)) (drop a u) (take_in bs (drop_window m)) w3"
        "files w3 = files w2" "tmpq w3 = tmpq w2" by metis
    let ?m = "take_in bs (drop_window m)"
    have mf: "start ?m = 0" "cache ?m = cache m" "infd ?m = infd m" "outfd ?m = outfd m"
      using s0 by (simp_all add: take_in_def drop_window_def)
    have "sendable m w2" using so by (simp add: sent_on_def)
    then have ok3: "sendable ?m w3"
      using nb mf s0 "1.prems"(3) on_fileD(8) [OF nb(1)] on_fileD(1,2) [OF nb(1)]
      by (simp add: sendable_def overflow_ok_def)
    have c: "available m < l" "\<not> int (length bs) \<le> 0" "\<not> int (available m) \<le> 0" using True d(11) rd(2) av by simp_all
    have wc: "warm_cache m w = Inr (m, w)" using "1.prems"(3) by (simp add: warm_cache_def)
    have pos: "0 < min 512 (length u - a)" "0 < l - available m" "l - available m \<le> length (drop a u)" "0 \<le> cache ?m"
      using True "1.prems"(3,6) d(11) mf by simp_all
    from "1.IH" [OF c(1) wc refl wr(1) [symmetric] wr(2) [symmetric] c(3) rd(1) [symmetric] refl c(2) nb(1) ok3 pos(4,1,2,3)]
    obtain rc a' m' w' where ih: "send_loop (l - available m) (0 < int (available m)) ?m w3 = (rc, m', w')"
      "on_file a' (drop (l - available m) (drop a u)) m' w'" "start m' = 0" by blast
    have "send_loop l ok m w = (rc, m', w')"
      using c wc wr rd(1) ih(1) by (simp add: send_loop.simps [of l ok m w])
    moreover have "drop (l - available m) (drop a u) = drop l u" using True d(11) by simp
    ultimately show ?thesis using ih(2,3) by auto
  next
    case False
    then have l: "l \<le> available m" using d(11) by simp
    from write_both [OF "1.prems"(2,3,5) l] obtain w1 w2 where
      wr: "writen 0 (outfd m) (drop (start m) (buf m)) l w = (int l, w1)"
        "writen 0 (cache m) (drop (start m) (buf m)) l w1 = (int l, w2)" and
      so: "sent_on (take l (window m)) m w m w2" and rq: "rdq w2 = rdq w" .
    have "send_loop l ok m w = (0, cut_front l m, w2)"
      using wr l "1.prems"(3,5) by (simp add: send_loop.simps [of l ok m w])
    moreover have "on_file (a - l) (drop l u) (cut_front l m) w2"
      using False by (intro on_file_cut on_file_sent [OF "1.prems"(1) so rq]) simp
    ultimately show ?thesis using s0 by (auto simp: cut_fields)
  qed
qed

lemma writen_rdq: "wrq w = (\<lambda>_. []) \<Longrightarrow> 0 < l \<Longrightarrow> l \<le> length b \<Longrightarrow> writen n fd b l w = (k, w1) \<Longrightarrow> rdq w1 = rdq w"
  using writen_whole [of w fd l b n] by (auto simp: put_fields)

lemma warm_rdq:
  assumes "warm_cache m w = Inr (m1, w1)" "wrq w = (\<lambda>_. [])" "mbuf_wf m"
  shows "rdq w1 = rdq w"
proof (cases "0 \<le> cache m")
  case True
  then show ?thesis using assms(1) by (simp add: warm_cache_def)
next
  case False
  obtain t v where t: "sys_tmpfile w = (t, v)" by (metis surj_pair)
  have v: "rdq v = rdq w" "wrq v = wrq w" using t by (auto simp: sys_tmpfile_def split: list.splits)
  have "start m \<le> length (buf m)" using assms(3) by (simp add: mbuf_wf_def)
  moreover obtain k z where k: "writen 0 t (buf m) (start m) v = (k, z)" by (metis surj_pair)
  ultimately have "0 < start m \<Longrightarrow> rdq z = rdq w" using writen_rdq [OF _ _ _ k] assms(2) v by simp
  then show ?thesis using assms(1) False t v k
    by (auto simp: warm_cache_def Let_def split: if_splits)
qed

lemma warm_send:
  assumes "warm_cache m w = Inr (m1, w1)" "0 \<le> cache m1" "available m < l"
  shows "send_loop l ok m w = send_loop l ok m1 w1"
proof -
  have "warm_cache m1 w1 = Inr (m1, w1)" using assms(2) by (simp add: warm_cache_def)
  then show ?thesis
    unfolding send_loop.simps [of l ok m w] send_loop.simps [of l ok m1 w1]
    by (simp only: assms(1,3) warm_cache_available [OF assms(1)] if_True sum.case prod.case)
qed

lemma send_big:
  assumes f: "on_file a u m w" and ok: "sendable m w" and l: "0 < a" "a < l" "l \<le> length u"
  shows "\<exists>rc a' m' w'. send_loop l True m w = (rc, m', w') \<and> on_file a' (drop l u) m' w' \<and> start m' = 0"
proof -
  note d = on_fileD [OF f]
  from warm_cache_log [OF ok] obtain m1 w1 where wc: "warm_cache m w = Inr (m1, w1)" "0 \<le> cache m1"
    "sent_on [] m w m1 w1" "window m1 = window m" by blast
  have "sendable m1 w1" "infd m1 = infd m" "outfd m1 = outfd m" "len m1 = len m" "wrq w1 = wrq w"
    using wc(3) by (simp_all add: sent_on_def)
  moreover have "rdq w1 = rdq w" by (rule warm_rdq [OF wc(1) d(8,1)])
  ultimately have "on_file a u m1 w1" using f wc(4) by (simp add: on_file_def sendable_def)
  from send_cached [OF this \<open>sendable m1 w1\<close> wc(2) l(1) _ l(3), of True] l(1,2) warm_send [OF wc(1,2), of l True] d(11)
  show ?thesis by auto
qed

end
