(* ===== verification/Msg_Test_Pass.thy ===== *)
theory Msg_Test_Pass
  imports Msg_Test_File
begin

text \<open>
  The messages of the test program, one operation on the message at the front, and triples
  (\<open>passes P ts Q\<close>: from a state with \<open>P\<close> the tests \<open>ts\<close> succeed and lead to \<open>Q\<close>).
\<close>

section \<open>The messages of the tests\<close>

definition is_msg :: "bytes \<Rightarrow> int \<Rightarrow> u32 \<Rightarrow> bool" where
  "is_msg x t l \<longleftrightarrow> 5 \<le> length x \<and> wire_size x = length x \<and>
     (if x ! 0 = NUL
      then 8 \<le> length x \<and> u32_at x 0 - 4 = l \<and>
           t = (if l = 4 \<and> u16_at x 4 = 1234 \<and> u16_at x 6 = 5679 then MSG_SSLREQ
                else if l = 12 then MSG_CANCEL else if 5 \<le> l then MSG_STARTUP else -1)
      else u32_at x 1 - 4 = l \<and> t = schar (x ! 0))"

lemma is_msgs:
  "is_msg test_ssl MSG_SSLREQ 4" "is_msg test_startup MSG_STARTUP 5" "is_msg test_I (schar CHR ''I'') 0"
  "is_msg test_Q (schar CHR ''Q'') 33" "is_msg test_S (schar CHR ''S'') 0" "is_msg test_E (schar CHR ''E'') 30"
  by code_simp+

lemma is_msg_L: "is_msg test_L (schar CHR ''L'') 0x8000"
proof -
  have n: "u32_of NUL NUL (byte_of 0x80) (byte_of 0x04) = 0x8004" by code_simp
  have "u32_at test_L 1 = 0x8004" by (simp add: test_L_def u32_at_def n)
  moreover have "test_L ! 0 = CHR ''L''" "length test_L = 32773" by (simp_all add: test_L_def)
  ultimately show ?thesis by (simp add: is_msg_def wire_size_def)
qed

lemma test_lengths [simp]:
  "length test_ssl = 8" "length test_startup = 9" "length test_I = 5" "length test_Q = 38" "length test_S = 5"
  "length test_E = 35" "length test_L = 32773"
  by (simp_all add: test_ssl_def test_startup_def test_I_def test_Q_def test_S_def test_E_def test_L_def)

lemma is_msgD: "is_msg x t l \<Longrightarrow> 5 \<le> length x" "is_msg x t l \<Longrightarrow> wire_size (x @ u) = length x"
  by (simp_all add: is_msg_def wire_size_append)

text \<open>What the operations see of the message at the front.\<close>

lemma seen:
  assumes f: "on_file a (x @ u) m w" and i: "i < a" "i < length x"
  shows "buf m ! (start m + i) = x ! i"
proof -
  note d = on_fileD [OF f]
  have "buf m ! (start m + i) = (x @ u) ! i" using unread_nth [OF d(1), of i w] d(11,12) i by simp
  then show ?thesis using i by (simp add: nth_append)
qed

lemma seen_msg:
  assumes f: "on_file a (x @ u) m w" "8 \<le> a" and x: "is_msg x t l"
  shows "pgr_mbuf_msgtype m = t" "pgr_mbuf_msglength m = l"
proof -
  note d = on_fileD [OF f(1)] and n = seen [OF f(1)]
  have x5: "5 \<le> length x" using x by (simp add: is_msg_def)
  have b0: "buf m ! start m = x ! 0" using n [of 0] f(2) x5 by force
  have u32: "u32_at (buf m) (start m + i) = u32_at x i" if "i + 3 < length x" "i \<le> 1" for i
    using n [of i] n [of "i + 1"] n [of "i + 2"] n [of "i + 3"] that f(2) by (simp add: u32_at_def add.assoc)
  have u16: "u16_at (buf m) (start m + i) = u16_at x i" if "i + 1 < length x" "i \<le> 6" for i
    using n [of i] n [of "i + 1"] that f(2) by (simp add: u16_at_def add.assoc)
  have len: "pgr_mbuf_msglength m = l"
    using x u32 [of 0] u32 [of 1] x5 b0 f(2) d(11) by (auto simp: pgr_mbuf_msglength_def is_msg_def split: if_splits)
  then show "pgr_mbuf_msglength m = l" .
  show "pgr_mbuf_msgtype m = t"
    using x u16 [of 4] u16 [of 6] b0 f(2) d(11) len by (auto simp: pgr_mbuf_msgtype_def is_msg_def Let_def split: if_splits)
qed

lemma seen_size:
  assumes f: "on_file a (x @ u) m w" "8 \<le> a" and x: "is_msg x t l"
  shows "unat (msize m) = length x"
  using msize_wire [of m w] on_fileD(1,11,12) [OF f(1)] f(2) is_msgD(2) [OF x] by simp

section \<open>One operation on the message at the front\<close>

lemma recv_x: "on_file a u m w \<Longrightarrow> 5 \<le> a \<Longrightarrow> pgr_mbuf_recv m w = (int a, m, w)"
  using recv_ready [of m w] on_fileD(11) by simp

lemma discard_x:
  assumes f: "on_file a (x @ u) m w" "start m = 0" "8 \<le> a" and x: "is_msg x t l"
  obtains a' m' w' where "pgr_mbuf_discard m w = (0, m', w')" "on_file a' u m' w'" "start m' = 0"
    "cache m' = cache m" "tmpq w' = tmpq w" "length x \<le> a \<Longrightarrow> a' = a - length x" "sent w' = sent w"
proof -
  have "length x \<le> length (x @ u)" by simp
  from discard_file [OF f(1,2) this] seen_size [OF f(1,3) x] on_fileD(11) [OF f(1)] f(3) show thesis
    by (auto simp: pgr_mbuf_discard_def intro: that)
qed

lemma relay_x:
  assumes f: "on_file a (x @ u) m w" "start m = 0" "8 \<le> a" and x: "is_msg x t l"
  obtains a' m' w' where "pgr_mbuf_relay m w = (0, m', w')" "on_file a' u m' w'" "start m' = 0"
    "cache m' = cache m" "tmpq w' = tmpq w" "length x \<le> a \<Longrightarrow> a' = a - length x"
    "sent w' TEST_OUT = sent w TEST_OUT @ x"
proof -
  have "length x \<le> length (x @ u)" by simp
  from relay_file [OF f(1,2) this] seen_size [OF f(1,3) x] on_fileD(11) [OF f(1)] f(3) show thesis
    by (auto simp: pgr_mbuf_relay_def intro: that)
qed

lemma send_x:
  assumes f: "on_file a (x @ u) m w" "8 \<le> a" and x: "is_msg x t l" and s: "sendable m w"
    and c: "length x \<le> a \<Longrightarrow> cache m < 0"
  obtains a' m' w' where "pgr_mbuf_send m w = (0, m', w')" "on_file a' u m' w'" "sent_on x m w m' w'"
    "length x \<le> a \<Longrightarrow> a' = a - length x \<and> cache m' = cache m" "a < length x \<Longrightarrow> start m' = 0"
proof -
  note d = on_fileD [OF f(1)] and sz = seen_size [OF f x]
  have x5: "5 \<le> length x" using x by (simp add: is_msg_def)
  then have "Msg_Stream.complete (unread m w)" using d(12) is_msgD(2) [OF x, of u] by (auto simp: Msg_Stream.complete_def)
  from send_log [OF s _ this] d(11,12) f(2) is_msgD(2) [OF x] obtain m' w' where
    o: "pgr_mbuf_send m w = (0, m', w')" "sent_on x m w m' w'" by auto
  have sl: "send_loop (length x) True m w = (0, m', w')"
    using o(1) d(11) f(2) sz by (simp add: pgr_mbuf_send_def)
  show thesis
  proof (cases "length x \<le> a")
    case True
    have "0 < length x" using x5 by linarith
    from send_small [OF f(1) c [OF True] this True] sl
    have "on_file (a - length x) u m' w'" "cache m' = cache m" by auto
    then show thesis using True by (intro that [OF o(1) _ o(2)]) auto
  next
    case False
    from send_big [OF f(1) s, of "length x"] False f(2) sl show thesis by (auto intro: that [OF o(1) _ o(2)])
  qed
qed

section \<open>The sections\<close>

abbreviation test_input :: bytes where
  "test_input \<equiv> test_ssl @ test_startup @ test_I @ test_Q @ test_L @ test_S @ test_E"

definition prepared :: "mstate \<Rightarrow> bool" where
  "prepared s = (case s of (m, w) \<Rightarrow> mbuf_wf m \<and> start m = 0 \<and> len m = 512 \<and> infd m = TEST_IN \<and> outfd m = TEST_OUT \<and>
     wrq w = (\<lambda>_. []) \<and> files w TEST_IN = None \<and> files w TEST_OUT = None)"

lemma on_file_prepared: "on_file a u m w \<Longrightarrow> start m = 0 \<Longrightarrow> prepared (m, w)"
  by (simp add: prepared_def on_file_def)

lemma run_tests_append:
  "test_run (ts @ us) s = (case test_run ts s of None \<Rightarrow> None | Some s1 \<Rightarrow> test_run us s1)"
  by (induction ts arbitrary: s) (simp_all split: option.splits)

lemmas checks = returns_def so_that_def msg_is_def fileok_def written_def buffer_is_def truncate_out_def drain_ok_def

text \<open>The first block of the file.\<close>

lemma first_block:
  assumes "prepared (m, w)" "reset_test (m, w) = Some (m0, w0)"
  obtains m1 w1 where "pgr_mbuf_recv m0 w0 = (512, m1, w1)" "on_file 512 test_input m1 w1" "start m1 = 0"
    "cache m1 = cache m" "tmpq w1 = tmpq w" "sent w1 TEST_OUT = []"
proof -
  have m0: "m0 = m\<lparr>fill := 0\<rparr>" and
    w0: "w0 = w\<lparr>rdq := (rdq w)(TEST_IN := [Chunk test_input]), sent := (sent w)(TEST_OUT := [])\<rparr>"
    using assms(2) by (simp_all add: reset_test_def)
  have wf: "mbuf_wf m0" "fill m0 = 0" "len m0 = 512" "infd m0 = TEST_IN" "start m0 = 0"
    using assms(1) by (auto simp: m0 prepared_def mbuf_wf_def)
  have l: "length test_input = 32873" by simp
  let ?b = "take 512 test_input" and ?w = "w0\<lparr>rdq := (rdq w0)(TEST_IN := [Chunk (drop 512 test_input)])\<rparr>"
  have lb: "length ?b = 512" using l by (simp only: length_take)
  have q: "rdq w0 TEST_IN = [Chunk test_input]" "files w0 TEST_IN = None" using assms(1) by (simp_all add: w0 prepared_def)
  have "sys_read TEST_IN 512 w0 = (int 512, ?b, ?w)"
    using q l unfolding sys_read_def by (simp del: append_assoc length_append)
  moreover have av: "available (take_in ?b m0) = 512" using wf lb by (simp add: available_def take_in_def del: take_append)
  ultimately have "pgr_mbuf_recv m0 w0 = (512, take_in ?b m0, ?w)"
    using wf by (subst pgr_mbuf_recv.simps) (simp add: available_def recv_ready del: take_append drop_append)
  moreover have "on_file 512 test_input (take_in ?b m0) ?w"
  proof -
    have "length ?b \<le> room m0" using lb wf by (simp add: room_def del: take_append)
    from wf_take_in [OF wf(1) this] window_take_in [OF wf(1) this]
    have "mbuf_wf (take_in ?b m0)" "window (take_in ?b m0) = ?b"
      using wf by (simp_all add: window_def available_def del: take_append)
    moreover have "block_end 512 test_input" unfolding block_end_def l by simp
    ultimately show ?thesis
      using wf assms(1) l unfolding on_file_def by (simp add: take_in_def m0 w0 prepared_def del: take_append drop_append length_append)
  qed
  ultimately show thesis
    using wf(5) by (intro that [of "take_in ?b m0" ?w]) (simp_all add: take_in_def m0 w0)
qed

lemma L_left:
  assumes "on_file a (test_S @ test_E) m w"
  shows "a = 40"
proof -
  have "a \<le> 40" "a = 40 \<or> (32833 + a) mod 512 = 0"
    using assms by (auto simp: on_file_def block_end_def)
  then show ?thesis by presburger
qed

section \<open>Triples\<close>

definition passes :: "(mstate \<Rightarrow> bool) \<Rightarrow> mtest list \<Rightarrow> (mstate \<Rightarrow> bool) \<Rightarrow> bool" where
  "passes P ts Q \<longleftrightarrow> (\<forall>s. P s \<longrightarrow> (\<exists>s'. test_run ts s = Some s' \<and> Q s'))"

lemma passes_Nil: "(\<And>s. P s \<Longrightarrow> Q s) \<Longrightarrow> passes P [] Q"
  by (simp add: passes_def)

lemma passes_append: "passes P ts Q \<Longrightarrow> passes Q us R \<Longrightarrow> passes P (ts @ us) R"
  unfolding passes_def run_tests_append by (metis option.case(2))

lemma passes_Cons: "passes P [t] Q \<Longrightarrow> passes Q us R \<Longrightarrow> passes P (t # us) R"
  using passes_append [of P "[t]"] by simp

lemma passesI:
  assumes "\<And>m w. P (m, w) \<Longrightarrow> \<exists>m' w'. t (m, w) = Some (m', w') \<and> Q (m', w')"
  shows "passes P [t] Q"
  using assms by (fastforce simp: passes_def)

text \<open>A check of the buffer does not change it.\<close>

lemma passes_buffer: "(\<And>m w. P (m, w) \<Longrightarrow> p m) \<Longrightarrow> passes P [buffer_is p] P"
  by (auto intro!: passesI simp: buffer_is_def so_that_def)

lemma passes_recv:
  assumes "\<And>m w. P (m, w) \<Longrightarrow> on_file a u m w" and "5 \<le> a"
  shows "passes P [recv_ok] P"
  using recv_x [OF assms(1,2)] assms(2) by (auto intro!: passesI simp: returns_def so_that_def)

lemma passes_msg:
  assumes "\<And>m w. P (m, w) \<Longrightarrow> on_file a (x @ u) m w" and "8 \<le> a" and "is_msg x t l"
  shows "passes P [msg_is t l] P"
  using seen_msg [OF assms(1,2,3)] by (auto intro!: passesI simp: msg_is_def so_that_def)

lemma passes_written:
  assumes "\<And>m w. P (m, w) \<Longrightarrow> sent w TEST_OUT = x"
  shows "y = x \<Longrightarrow> passes P [fileok y] P" "n = length x \<Longrightarrow> passes P [written n] P"
  using assms by (auto intro!: passesI simp: fileok_def written_def so_that_def)

section \<open>The states between the tests\<close>

definition ready :: "int \<Rightarrow> int list \<Rightarrow> mstate \<Rightarrow> bool" where
  "ready c q s \<longleftrightarrow> prepared s \<and> cache (fst s) = c \<and> tmpq (snd s) = q"

definition at_front :: "int \<Rightarrow> int list \<Rightarrow> nat \<Rightarrow> bytes \<Rightarrow> bytes \<Rightarrow> mstate \<Rightarrow> bool" where
  "at_front c q a u out s \<longleftrightarrow> on_file a u (fst s) (snd s) \<and> start (fst s) = 0 \<and> cache (fst s) = c \<and> tmpq (snd s) = q \<and>
     sent (snd s) TEST_OUT = out"

definition logged :: "bool \<Rightarrow> nat \<Rightarrow> bytes \<Rightarrow> bytes \<Rightarrow> bytes \<Rightarrow> mstate \<Rightarrow> bool" where
  "logged small a u out h s \<longleftrightarrow> on_file a u (fst s) (snd s) \<and> sendable (fst s) (snd s) \<and>
     (if small then cache (fst s) < 0 else start (fst s) = 0) \<and>
     sent (snd s) TEST_OUT = out \<and> history (fst s) (snd s) = h"

lemma frontD: "at_front c q a u out (m, w) \<Longrightarrow> on_file a u m w" "at_front c q a u out (m, w) \<Longrightarrow> sent w TEST_OUT = out"
  by (simp_all add: at_front_def)

lemma loggedD: "logged k a u out h (m, w) \<Longrightarrow> on_file a u m w" "logged k a u out h (m, w) \<Longrightarrow> sent w TEST_OUT = out"
  by (simp_all add: logged_def)

lemma front_recv: "5 \<le> a \<Longrightarrow> passes (at_front c q a u out) [recv_ok] (at_front c q a u out)"
  by (rule passes_recv) (erule frontD(1), assumption)

lemma front_msg: "is_msg x t l \<Longrightarrow> 8 \<le> a \<Longrightarrow> passes (at_front c q a (x @ u) out) [msg_is t l] (at_front c q a (x @ u) out)"
  by (rule passes_msg) (erule frontD(1), assumption+)

lemma front_file: "y = out \<Longrightarrow> passes (at_front c q a u out) [fileok y] (at_front c q a u out)"
  by (rule passes_written(1)) (erule frontD(2), assumption)

lemma front_written: "n = length out \<Longrightarrow> passes (at_front c q a u out) [written n] (at_front c q a u out)"
  by (rule passes_written(2)) (erule frontD(2), assumption)

lemma logged_recv: "5 \<le> a \<Longrightarrow> passes (logged k a u out h) [recv_ok] (logged k a u out h)"
  by (rule passes_recv) (erule loggedD(1), assumption)

lemma logged_msg: "is_msg x t l \<Longrightarrow> 8 \<le> a \<Longrightarrow> passes (logged k a (x @ u) out h) [msg_is t l] (logged k a (x @ u) out h)"
  by (rule passes_msg) (erule loggedD(1), assumption+)

lemma logged_file: "y = out \<Longrightarrow> passes (logged k a u out h) [fileok y] (logged k a u out h)"
  by (rule passes_written(1)) (erule loggedD(2), assumption)

lemma logged_written: "n = length out \<Longrightarrow> passes (logged k a u out h) [written n] (logged k a u out h)"
  by (rule passes_written(2)) (erule loggedD(2), assumption)

lemma ready_front: "at_front c q a u out s \<Longrightarrow> ready c q s"
  by (cases s) (auto simp: ready_def at_front_def intro: on_file_prepared)

lemma run_start: "passes (ready c q) [reset_test, recv_ok] (at_front c q 512 test_input [])"
proof -
  have "\<exists>s'. test_run [reset_test, recv_ok] (m, w) = Some s' \<and> at_front c q 512 test_input [] s'" if "ready c q (m, w)" for m w
  proof -
    obtain m0 w0 where r: "reset_test (m, w) = Some (m0, w0)" by (simp add: reset_test_def)
    have "prepared (m, w)" using that by (simp add: ready_def)
    from first_block [OF this r] obtain m1 w1 where
      b: "pgr_mbuf_recv m0 w0 = (512, m1, w1)" "on_file 512 test_input m1 w1" "start m1 = 0" "cache m1 = cache m"
        "tmpq w1 = tmpq w" "sent w1 TEST_OUT = []" .
    then show ?thesis using that by (simp add: r returns_def so_that_def at_front_def ready_def)
  qed
  then show ?thesis by (auto simp: passes_def)
qed

section \<open>Operations\<close>

lemma succeedsI: "f m w = (0, m', w') \<Longrightarrow> Q (m', w') \<Longrightarrow> \<exists>m' w'. succeeds f (m, w) = Some (m', w') \<and> Q (m', w')"
  by (simp add: returns_def so_that_def)

lemma run_discard:
  assumes x: "is_msg x t l" and a: "8 \<le> a" "length x \<le> a"
  shows "passes (at_front c q a (x @ u) out) [succeeds pgr_mbuf_discard] (at_front c q (a - length x) u out)"
proof (rule passesI)
  fix m w assume f: "at_front c q a (x @ u) out (m, w)"
  then have "start m = 0" by (simp add: at_front_def)
  from discard_x [OF frontD(1) [OF f] this a(1) x] obtain a' m' w' where
    o: "pgr_mbuf_discard m w = (0, m', w')" "on_file a' u m' w'" "start m' = 0" "cache m' = cache m"
      "tmpq w' = tmpq w" "length x \<le> a \<Longrightarrow> a' = a - length x" "sent w' = sent w" by blast
  then have "at_front c q (a - length x) u out (m', w')" using f a by (simp add: at_front_def)
  then show "\<exists>m' w'. succeeds pgr_mbuf_discard (m, w) = Some (m', w') \<and> at_front c q (a - length x) u out (m', w')"
    by (rule succeedsI [of pgr_mbuf_discard, OF o(1)])
qed

lemma run_discard_L:
  assumes a: "8 \<le> a"
  shows "passes (at_front c q a (test_L @ test_S @ test_E) out) [succeeds pgr_mbuf_discard] (at_front c q 40 (test_S @ test_E) out)"
proof (rule passesI)
  fix m w assume f: "at_front c q a (test_L @ test_S @ test_E) out (m, w)"
  then have "start m = 0" by (simp add: at_front_def)
  from discard_x [OF frontD(1) [OF f] this a is_msg_L] obtain a' m' w' where
    o: "pgr_mbuf_discard m w = (0, m', w')" "on_file a' (test_S @ test_E) m' w'" "start m' = 0" "cache m' = cache m"
      "tmpq w' = tmpq w" "sent w' = sent w" by blast
  then have "at_front c q 40 (test_S @ test_E) out (m', w')" using f L_left [OF o(2)] by (simp add: at_front_def)
  then show "\<exists>m' w'. succeeds pgr_mbuf_discard (m, w) = Some (m', w') \<and> at_front c q 40 (test_S @ test_E) out (m', w')"
    by (rule succeedsI [of pgr_mbuf_discard, OF o(1)])
qed

lemma run_relay:
  assumes x: "is_msg x t l" and a: "8 \<le> a" "length x \<le> a"
  shows "passes (at_front c q a (x @ u) out) [succeeds pgr_mbuf_relay] (at_front c q (a - length x) u (out @ x))"
proof (rule passesI)
  fix m w assume f: "at_front c q a (x @ u) out (m, w)"
  then have "start m = 0" by (simp add: at_front_def)
  from relay_x [OF frontD(1) [OF f] this a(1) x] obtain a' m' w' where
    o: "pgr_mbuf_relay m w = (0, m', w')" "on_file a' u m' w'" "start m' = 0" "cache m' = cache m"
      "tmpq w' = tmpq w" "length x \<le> a \<Longrightarrow> a' = a - length x" "sent w' TEST_OUT = sent w TEST_OUT @ x" by blast
  then have "at_front c q (a - length x) u (out @ x) (m', w')" using f a by (simp add: at_front_def)
  then show "\<exists>m' w'. succeeds pgr_mbuf_relay (m, w) = Some (m', w') \<and> at_front c q (a - length x) u (out @ x) (m', w')"
    by (rule succeedsI [of pgr_mbuf_relay, OF o(1)])
qed

lemma run_relay_L:
  assumes a: "8 \<le> a"
  shows "passes (at_front c q a (test_L @ test_S @ test_E) out) [succeeds pgr_mbuf_relay]
     (at_front c q 40 (test_S @ test_E) (out @ test_L))"
proof (rule passesI)
  fix m w assume f: "at_front c q a (test_L @ test_S @ test_E) out (m, w)"
  then have "start m = 0" by (simp add: at_front_def)
  from relay_x [OF frontD(1) [OF f] this a is_msg_L] obtain a' m' w' where
    o: "pgr_mbuf_relay m w = (0, m', w')" "on_file a' (test_S @ test_E) m' w'" "start m' = 0" "cache m' = cache m"
      "tmpq w' = tmpq w" "sent w' TEST_OUT = sent w TEST_OUT @ test_L" by blast
  then have "at_front c q 40 (test_S @ test_E) (out @ test_L) (m', w')" using f L_left [OF o(2)] by (simp add: at_front_def)
  then show "\<exists>m' w'. succeeds pgr_mbuf_relay (m, w) = Some (m', w') \<and> at_front c q 40 (test_S @ test_E) (out @ test_L) (m', w')"
    by (rule succeedsI [of pgr_mbuf_relay, OF o(1)])
qed

lemma run_send:
  assumes x: "is_msg x t l" and a: "8 \<le> a" "length x \<le> a"
  shows "passes (logged True a (x @ u) out h) [succeeds pgr_mbuf_send] (logged True (a - length x) u (out @ x) (h @ x))"
proof (rule passesI)
  fix m w assume f: "logged True a (x @ u) out h (m, w)"
  then have s: "sendable m w" "cache m < 0" "outfd m = TEST_OUT" using on_fileD(4) by (auto simp: logged_def)
  from send_x [OF loggedD(1) [OF f] a(1) x s(1) s(2)] obtain a' m' w' where
    o: "pgr_mbuf_send m w = (0, m', w')" "on_file a' u m' w'" "sent_on x m w m' w'"
    "length x \<le> a \<Longrightarrow> a' = a - length x \<and> cache m' = cache m" by blast
  then have "logged True (a - length x) u (out @ x) (h @ x) (m', w')"
    using f s a by (simp add: logged_def sent_on_def)
  then show "\<exists>m' w'. succeeds pgr_mbuf_send (m, w) = Some (m', w') \<and> logged True (a - length x) u (out @ x) (h @ x) (m', w')"
    by (rule succeedsI [of pgr_mbuf_send, OF o(1)])
qed

lemma run_send_L:
  assumes a: "8 \<le> a" "a \<le> 512"
  shows "passes (logged True a (test_L @ test_S @ test_E) out h) [succeeds pgr_mbuf_send]
     (logged False 40 (test_S @ test_E) (out @ test_L) (h @ test_L))"
proof (rule passesI)
  fix m w assume f: "logged True a (test_L @ test_S @ test_E) out h (m, w)"
  then have s: "sendable m w" "cache m < 0" "outfd m = TEST_OUT" using on_fileD(4) by (auto simp: logged_def)
  from send_x [OF loggedD(1) [OF f] a(1) is_msg_L s(1) s(2)] obtain a' m' w' where
    o: "pgr_mbuf_send m w = (0, m', w')" "on_file a' (test_S @ test_E) m' w'" "sent_on test_L m w m' w'"
    "a < length test_L \<Longrightarrow> start m' = 0" by blast
  then have "logged False 40 (test_S @ test_E) (out @ test_L) (h @ test_L) (m', w')"
    using f s a L_left [OF o(2)] by (simp add: logged_def sent_on_def)
  then show "\<exists>m' w'. succeeds pgr_mbuf_send (m, w) = Some (m', w') \<and>
      logged False 40 (test_S @ test_E) (out @ test_L) (h @ test_L) (m', w')"
    by (rule succeedsI [of pgr_mbuf_send, OF o(1)])
qed

lemma run_truncate: "passes (logged k a u out h) [truncate_out] (logged k a u [] h)"
  by (auto intro!: passesI simp: truncate_out_def logged_def on_file_def sendable_def overflow_ok_def history_def)

lemma run_resend: "passes (logged k a u out h) [succeeds pgr_mbuf_resend] (logged k a u (out @ h) h)"
proof (rule passesI)
  fix m w assume f: "logged k a u out h (m, w)"
  then have s: "sendable m w" "outfd m = TEST_OUT" "history m w = h" using on_fileD(4) by (auto simp: logged_def)
  let ?w = "w\<lparr>sent := (sent w)(TEST_OUT := sent w TEST_OUT @ h)\<rparr>"
  have "pgr_mbuf_resend m w = (0, m, ?w)" using resend_exact [OF s(1)] s(2,3) by simp
  moreover have "logged k a u (out @ h) h (m, ?w)"
    using f by (auto simp: logged_def on_file_def sendable_def overflow_ok_def history_def)
  ultimately show "\<exists>m' w'. succeeds pgr_mbuf_resend (m, w) = Some (m', w') \<and> logged k a u (out @ h) h (m', w')"
    by (simp add: returns_def so_that_def)
qed

end
