(* ===== verification/Msg_Test_Laws.thy ===== *)
theory Msg_Test_Laws
  imports Msg_Test_Pass
begin

text \<open>
  The sections of the test program, each a chain of triples, and the whole program.
\<close>

section \<open>The remaining operations\<close>

text \<open>The memory from the front of the message.\<close>

lemma front_mem:
  assumes f: "at_front c q a (x @ u) out (m, w)" and l: "length x \<le> a"
  shows "take (length x) (buf m) = x" "fill m = a" "a \<le> length (buf m)" "start m = 0"
proof -
  have s: "start m = 0" and o: "on_file a (x @ u) m w" using f by (simp_all add: at_front_def)
  note d = on_fileD [OF o]
  show "fill m = a" "a \<le> length (buf m)" "start m = 0" using d(1,11) s by (simp_all add: available_def mbuf_wf_def)
  then have "take (length x) (buf m) = take (length x) (window m)" using l s by (simp add: window_def available_def)
  then show "take (length x) (buf m) = x" using d(5) l by simp
qed

lemma run_end: "a = 0 \<Longrightarrow> passes (at_front c q a [] out) [returns (\<lambda>rc. rc = 0) pgr_mbuf_recv] (at_front c q a [] out)"
proof (rule passesI)
  fix m w assume a: "a = 0" and f: "at_front c q a [] out (m, w)"
  then have o: "on_file 0 [] m w" by (simp add: at_front_def)
  note d = on_fileD [OF o]
  have q: "rdq w TEST_IN = []" using o by (simp add: on_file_def)
  have "sys_read TEST_IN (512 - fill m) w = (0, [], w)" using d(9) q by (simp add: sys_read_def)
  then have "pgr_mbuf_recv m w = (0, m, w)" using d by (subst pgr_mbuf_recv.simps) simp
  with f show "\<exists>m' w'. returns (\<lambda>rc. rc = 0) pgr_mbuf_recv (m, w) = Some (m', w') \<and> at_front c q a [] out (m', w')"
    by (simp add: checks)
qed

lemma run_Q_data:
  assumes "38 \<le> a"
  shows "passes (at_front c q a (test_Q @ u) out)
    [buffer_is (\<lambda>m. case pgr_mbuf_data m 0 0 of
                       None \<Rightarrow> False
                     | Some p \<Rightarrow> memcmp (take 33 (data_mem m p)) (''Do you know the way to San Jose?'' @ [NUL]) = 0)]
    (at_front c q a (test_Q @ u) out)"
proof (rule passes_buffer)
  fix m w assume "at_front c q a (test_Q @ u) out (m, w)"
  from front_mem [OF this] assms have t: "take 38 (buf m) = test_Q" "fill m = a" "start m = 0" by simp_all
  have "buf m ! 0 = take 38 (buf m) ! 0" by simp
  also have "\<dots> \<noteq> NUL" unfolding t(1) by (simp add: test_Q_def)
  finally have "pgr_mbuf_data m 0 0 = Some 5" using t assms by (simp add: pgr_mbuf_data_def available_def)
  moreover have "take 33 (drop 5 (buf m)) = drop 5 (take 38 (buf m))" by (simp add: drop_take)
  then have "take 33 (data_mem m 5) = ''Do you know the way to San Jose?'' @ [NUL]"
    unfolding t(1) by (simp add: data_mem_def test_Q_def)
  ultimately show "case pgr_mbuf_data m 0 0 of None \<Rightarrow> False
      | Some p \<Rightarrow> memcmp (take 33 (data_mem m p)) (''Do you know the way to San Jose?'' @ [NUL]) = 0"
    by simp
qed

text \<open>Draining, message by message.\<close>

lemma drain_discard:
  assumes d: "passes (at_front c q a (x @ u) out) [succeeds pgr_mbuf_discard] (at_front c q b u out)"
    and x: "is_msg x t l" and a: "8 \<le> a" and t: "0 \<le> t" and f: "at_front c q a (x @ u) out (m, w)"
  obtains m1 w1 where "at_front c q b u out (m1, w1)"
    "t = k \<Longrightarrow> pgr_mbuf_drain m k w = Some (0, m1, w1)"
    "t \<noteq> k \<Longrightarrow> 5 \<le> b \<Longrightarrow> pgr_mbuf_drain m k w = pgr_mbuf_drain m1 k w1"
proof -
  obtain rc m1 w1 where r: "pgr_mbuf_discard m w = (rc, m1, w1)" by (metis surj_pair)
  from d f have "\<exists>s'. test_run [succeeds pgr_mbuf_discard] (m, w) = Some s' \<and> at_front c q b u out s'"
    unfolding passes_def by blast
  then have "rc = 0" "at_front c q b u out (m1, w1)" by (auto simp: r checks split: if_splits)
  moreover have "pgr_mbuf_msgtype m = t" by (rule seen_msg [OF frontD(1) [OF f] a x])
  moreover from \<open>at_front c q b u out (m1, w1)\<close> have "5 \<le> b \<Longrightarrow> pgr_mbuf_recv m1 w1 = (int b, m1, w1)"
    using recv_x [OF frontD(1)] by blast
  ultimately show thesis using that t
    by (simp add: pgr_mbuf_drain.simps [of m k w] r)
qed

lemma drain_last:
  assumes "passes (at_front c q a (x @ u) out) [succeeds pgr_mbuf_discard] (at_front c q b u out)"
    and "is_msg x k l" and "8 \<le> a" and "0 \<le> k"
  shows "passes (at_front c q a (x @ u) out) [drain_ok k] (at_front c q b u out)"
proof (rule passesI)
  fix m w assume "at_front c q a (x @ u) out (m, w)"
  from drain_discard [OF assms this, of k] obtain m1 w1 where
    "at_front c q b u out (m1, w1)" "pgr_mbuf_drain m k w = Some (0, m1, w1)" by blast
  then show "\<exists>m' w'. drain_ok k (m, w) = Some (m', w') \<and> at_front c q b u out (m', w')" by (simp add: checks)
qed

lemma drain_next:
  assumes "passes (at_front c q a (x @ u) out) [succeeds pgr_mbuf_discard] (at_front c q b u out)"
    and "is_msg x t l" and "8 \<le> a" and "0 \<le> t" "t \<noteq> k" "5 \<le> b" and n: "passes (at_front c q b u out) [drain_ok k] Q"
  shows "passes (at_front c q a (x @ u) out) [drain_ok k] Q"
proof (rule passesI)
  fix m w assume "at_front c q a (x @ u) out (m, w)"
  from drain_discard [OF assms(1-4) this, of k] assms(5,6) obtain m1 w1 where
    "at_front c q b u out (m1, w1)" "pgr_mbuf_drain m k w = pgr_mbuf_drain m1 k w1" by metis
  moreover from this n have "\<exists>s'. test_run [drain_ok k] (m1, w1) = Some s' \<and> Q s'" unfolding passes_def by blast
  ultimately show "\<exists>m' w'. drain_ok k (m, w) = Some (m', w') \<and> Q (m', w')"
    by (auto simp: drain_ok_def split: option.splits)
qed

section \<open>The sections of the test program\<close>

lemma passes_start:
  "passes (at_front c q 512 test_input []) ts Q \<Longrightarrow> passes (ready c q) (reset_test # recv_ok # ts) Q"
  using passes_append [OF run_start, of c q ts Q] by simp

lemmas relay_steps = is_msgs [THEN run_relay, THEN passes_Cons] run_relay_L [THEN passes_Cons]
lemmas discard_steps = is_msgs [THEN run_discard, THEN passes_Cons] run_discard_L [THEN passes_Cons]
  is_msgs(6) [THEN run_discard [where u = "[]"], unfolded append_Nil2, THEN passes_Cons]
lemmas send_steps = is_msgs [THEN run_send, THEN passes_Cons] run_send_L [THEN passes_Cons]
  passes_Cons [OF run_truncate] passes_Cons [OF run_resend]
lemmas front_msgs = is_msgs [THEN front_msg, THEN passes_Cons] is_msg_L [THEN front_msg, THEN passes_Cons]
  is_msgs(6) [THEN front_msg [where u = "[]"], unfolded append_Nil2, THEN passes_Cons]
lemmas logged_msgs = is_msgs [THEN logged_msg, THEN passes_Cons] is_msg_L [THEN logged_msg, THEN passes_Cons]
lemmas front_steps = front_recv [THEN passes_Cons] front_msgs front_file [THEN passes_Cons] front_written [THEN passes_Cons]
  passes_Nil [OF ready_front]
lemmas logged_steps = logged_recv [THEN passes_Cons] logged_msgs logged_file [THEN passes_Cons] logged_written [THEN passes_Cons]

lemma pass_relay: "passes (ready c q) test_relay (ready c q)"
  unfolding test_relay_def
  by (rule passes_start) (rule relay_steps front_steps | (simp; fail))+

lemma pass_discard: "passes (ready c q) test_discard (ready c q)"
  unfolding test_discard_def
  by (rule passes_start) (rule discard_steps front_steps run_Q_data [THEN passes_Cons] run_end [THEN passes_Cons] | (simp; fail))+

lemma send_start: "passes (at_front (-1) (t # q) 512 test_input []) ts Q"
  if "passes (logged True 512 test_input [] []) ts Q" "0 \<le> t" "t \<noteq> TEST_IN" "t \<noteq> TEST_OUT"
proof -
  have "logged True 512 test_input [] [] (m, w)" if "at_front (-1) (t # q) 512 test_input [] (m, w)" for m w
  proof -
    have f: "on_file 512 test_input m w" "start m = 0" "cache m = -1" "tmpq w = t # q" "sent w TEST_OUT = []"
      using that by (simp_all add: at_front_def)
    note d = on_fileD [OF f(1)]
    show ?thesis using f(2-) d(1-4,8-10) \<open>0 \<le> t\<close> \<open>t \<noteq> TEST_IN\<close> \<open>t \<noteq> TEST_OUT\<close>
      by (simp add: logged_def f(1) sendable_def overflow_ok_def history_def)
  qed
  then show ?thesis using \<open>passes (logged True 512 test_input [] []) ts Q\<close> by (auto simp: passes_def)
qed

lemma logged_ready: "logged k a u out h (m, w) \<Longrightarrow> \<not> k \<Longrightarrow> \<exists>c q. ready c q (m, w)"
  by (auto simp: logged_def ready_def intro: on_file_prepared)

lemma pass_resend:
  assumes "0 \<le> t" "t \<noteq> TEST_IN" "t \<noteq> TEST_OUT"
  shows "passes (ready (-1) (t # q)) test_resend (\<lambda>s. \<exists>c q. ready c q s)"
  unfolding test_resend_def
  by (rule passes_start, rule send_start [OF _ assms])
     (rule send_steps logged_steps passes_Nil | (simp; fail) | (auto intro: logged_ready; fail))+

text \<open>The types of the messages.\<close>

lemma type_values [simp]:
  "schar CHR ''I'' = 73" "schar CHR ''Q'' = 81" "schar CHR ''L'' = 76" "schar CHR ''S'' = 83" "schar CHR ''E'' = 69"
  by code_simp+

lemmas drain_steps =
  drain_next [OF run_discard [OF is_msgs(1)] is_msgs(1)] drain_next [OF run_discard [OF is_msgs(2)] is_msgs(2)]
  drain_next [OF run_discard [OF is_msgs(3)] is_msgs(3)] drain_next [OF run_discard [OF is_msgs(4)] is_msgs(4)]
  drain_next [OF run_discard_L is_msg_L]

lemma drain_to_L:
  "a = 504 \<Longrightarrow> passes (at_front c q a (test_startup @ test_I @ test_Q @ test_L @ test_S @ test_E) out) [drain_ok (schar CHR ''L'')]
     (at_front c q 40 (test_S @ test_E) out)"
  by (simp, rule drain_steps(2), simp_all add: MSG_STARTUP_def, rule drain_steps(3), simp_all, rule drain_steps(4), simp_all,
      rule drain_last [OF run_discard_L is_msg_L, simplified], simp_all)

lemma drain_to_S:
  "passes (at_front c q 512 test_input out) [drain_ok (schar CHR ''S'')] (at_front c q 35 test_E out)"
  by (rule drain_steps(1), simp_all add: MSG_SSLREQ_def, rule drain_steps(2), simp_all add: MSG_STARTUP_def,
      rule drain_steps(3), simp_all, rule drain_steps(4), simp_all, rule drain_steps(5), simp_all,
      rule drain_last [OF run_discard [OF is_msgs(5)] is_msgs(5), of 40, simplified])

lemma pass_drain: "passes (ready c q) test_drain (ready c q)"
  unfolding test_drain_def
  by (rule passes_start) (rule relay_steps front_steps drain_to_L [THEN passes_Cons] | (simp; fail))+

text \<open>The scan of the error message: \<open>S\<close> is passed over, \<open>C\<close> decides.\<close>

lemma scan_E: "scan_fields (test_E @ r) 35 code 5 = memcmp ''12345'' (take 5 code)"
proof -
  have k: "skip_field (test_E @ r) 35 6 = 11"
    by (simp add: test_E_def skip_field.simps [of _ 35])
  show ?thesis
    by (subst scan_fields.simps, subst scan_fields.simps) (simp add: test_E_def k [unfolded test_E_def, simplified])
qed

lemma iserror_front:
  assumes "at_front c q a (x @ u) out (m, w)" "8 \<le> a" "is_msg x t l"
  shows "t \<noteq> schar CHR ''E'' \<Longrightarrow> pgr_mbuf_iserror m code = 1"
    and "t = schar CHR ''E'' \<Longrightarrow> pgr_mbuf_iserror m None = 0"
    and "t = schar CHR ''E'' \<Longrightarrow> x = test_E \<Longrightarrow> a = 35 \<Longrightarrow>
      pgr_mbuf_iserror m (Some cd) = memcmp ''12345'' (take 5 cd)"
proof -
  have t: "pgr_mbuf_msgtype m = t" by (rule seen_msg(1) [OF frontD(1) [OF assms(1)] assms(2,3)])
  show "t \<noteq> schar CHR ''E'' \<Longrightarrow> pgr_mbuf_iserror m code = 1" "t = schar CHR ''E'' \<Longrightarrow> pgr_mbuf_iserror m None = 0"
    by (simp_all add: pgr_mbuf_iserror_def t)
  assume "t = schar CHR ''E''" "x = test_E" "a = 35"
  with front_mem [OF assms(1)] have "buf m = test_E @ drop 35 (buf m)" "fill m = 35" "start m = 0"
    by simp_all (metis append_take_drop_id)
  then show "pgr_mbuf_iserror m (Some cd) = memcmp ''12345'' (take 5 cd)"
    using t \<open>t = schar CHR ''E''\<close> scan_E [of "drop 35 (buf m)" cd] by (simp add: pgr_mbuf_iserror_def)
qed

lemma run_iserror:
  "passes (at_front c q 512 test_input out) [buffer_is (\<lambda>m. pgr_mbuf_iserror m code \<noteq> 0)] (at_front c q 512 test_input out)"
  "passes (at_front c q 35 test_E out) [buffer_is (\<lambda>m. pgr_mbuf_iserror m None = 0)] (at_front c q 35 test_E out)"
  "passes (at_front c q 35 test_E out) [buffer_is (\<lambda>m. pgr_mbuf_iserror m (Some ''12345'') = 0)] (at_front c q 35 test_E out)"
  "passes (at_front c q 35 test_E out) [buffer_is (\<lambda>m. pgr_mbuf_iserror m (Some ''x2600'') \<noteq> 0)] (at_front c q 35 test_E out)"
proof -
  have e: "at_front c q 35 test_E out (m, w) \<Longrightarrow> at_front c q 35 (test_E @ []) out (m, w)" for m w by simp
  have n: "memcmp ''12345'' ''x2600'' \<noteq> 0" by code_simp
  show "passes (at_front c q 512 test_input out) [buffer_is (\<lambda>m. pgr_mbuf_iserror m code \<noteq> 0)] (at_front c q 512 test_input out)"
    using iserror_front(1) [OF _ _ is_msgs(1)] by (intro passes_buffer) (simp add: MSG_SSLREQ_def)
  show "passes (at_front c q 35 test_E out) [buffer_is (\<lambda>m. pgr_mbuf_iserror m None = 0)] (at_front c q 35 test_E out)"
    using iserror_front(2) [OF e _ is_msgs(6)] by (intro passes_buffer) simp
  show "passes (at_front c q 35 test_E out) [buffer_is (\<lambda>m. pgr_mbuf_iserror m (Some ''12345'') = 0)] (at_front c q 35 test_E out)"
    by (intro passes_buffer) (drule e, drule iserror_front(3) [OF _ _ is_msgs(6), where cd = "''12345''"], simp_all add: n)
  show "passes (at_front c q 35 test_E out) [buffer_is (\<lambda>m. pgr_mbuf_iserror m (Some ''x2600'') \<noteq> 0)] (at_front c q 35 test_E out)"
    by (intro passes_buffer) (drule e, drule iserror_front(3) [OF _ _ is_msgs(6), where cd = "''x2600''"], simp_all add: n)
qed

lemma pass_errors: "passes (ready c q) test_errors (ready c q)"
  unfolding test_errors_def
  by (rule passes_start)
    (rule run_iserror [THEN passes_Cons] drain_to_S [THEN passes_Cons] front_steps | (simp; fail))+

lemma pass_access: "passes (ready c q) test_access (ready c q)"
proof -
  have "pgr_mbuf_u16 m 0 = 1234 \<and> pgr_mbuf_u16 m 2 = 5679" if f: "at_front c q 512 test_input [] (m, w)" for m w
  proof -
    from front_mem [OF f] have t: "take 8 (buf m) = test_ssl" "fill m = 512" "start m = 0" by simp_all
    have b: "buf m ! i = test_ssl ! i" if "i < 8" for i using that by (metis nth_take t(1))
    have "pgr_mbuf_data m i 2 = Some (4 + i)" if "i \<le> 2" for i
      using that t b [of 0] by (simp add: pgr_mbuf_data_def Let_def available_def test_ssl_def)
    then have "pgr_mbuf_u16 m i = int (unat (u16_at test_ssl (4 + i)))" if "i \<le> 2" for i
      using that b [of "4 + i"] b [of "5 + i"] by (simp add: pgr_mbuf_u16_def u16_at_def)
    moreover have "u16_at test_ssl 4 = 1234" "u16_at test_ssl 6 = 5679" by code_simp+
    ultimately show ?thesis by simp
  qed
  moreover have "(1 :: int) OR 5679 \<noteq> 0" "(0 :: int) OR 5679 \<noteq> 0" by simp_all
  ultimately show ?thesis
    unfolding test_access_def
    by (intro passes_start passes_Cons [OF passes_buffer] passes_Nil) (auto intro: ready_front)
qed

lemma pass_concat: "passes (ready c q) test_concat (\<lambda>s. True)"
proof -
  have "\<exists>s'. test_run test_concat (m, w) = Some s'" if r: "ready c q (m, w)" for m w
  proof -
    let ?w = "w\<lparr>rdq := (rdq w)(TEST_IN := [Chunk test_input]), sent := (sent w)(TEST_OUT := [])\<rparr>"
    let ?m = "m\<lparr>fill := 0\<rparr>" and ?m1 = "take_in test_cat (m\<lparr>fill := 0\<rparr>)"
    have m: "mbuf_wf ?m" "fill ?m = 0" "start ?m = 0" "len ?m = 512" "infd ?m = TEST_IN" "outfd ?m = TEST_OUT"
      using r by (auto simp: ready_def prepared_def mbuf_wf_def)
    have w: "files ?w TEST_IN = None" "files ?w TEST_OUT = None" "writable TEST_OUT ?w" "sent ?w TEST_OUT = []"
      using r by (simp_all add: ready_def prepared_def writable_def)
    have l: "length test_cat = 19" "wire_size test_cat = 19" by code_simp+
    have cat: "pgr_mbuf_cat ?m test_cat = (0, ?m1)" using m l by (simp add: cat_result)
    have m1: "mbuf_wf ?m1" "window ?m1 = test_cat" "infd ?m1 = TEST_IN" "outfd ?m1 = TEST_OUT" "available ?m1 = 19"
      using m l wf_take_in [OF m(1), of test_cat] window_take_in [OF m(1), of test_cat]
      by (simp_all add: room_def window_def take_in_def available_def)
    have u: "unread ?m1 ?w = test_cat @ input TEST_IN ?w" using m1 by (simp add: unread_def)
    have ws: "wire_size (unread ?m1 ?w) = 19" unfolding u using l by (simp add: wire_size_append)
    then have c: "Msg_Stream.complete (unread ?m1 ?w)" using l by (simp add: u Msg_Stream.complete_def)
    from relay_stream [OF m1(1) _ _ _ _ c] m1(3-5) w obtain m2 w2 where
      y: "pgr_mbuf_relay ?m1 ?w = (0, m2, w2)" "moved (take 19 (unread ?m1 ?w)) ?m1 ?w m2 w2" by (auto simp: ws)
    then have "sent w2 TEST_OUT = test_cat" using m1(4) w(4) l by (simp add: moved_def u)
    then have "test_run test_concat (m, w) = Some (m2, w2)"
      using cat y(1) by (simp add: test_concat_def reset_test_def checks)
    then show ?thesis by blast
  qed
  then show ?thesis by (auto simp: passes_def)
qed

section \<open>The test program\<close>

lemma init_ready:
  assumes "wrq w = (\<lambda>_. [])" "files w TEST_IN = None" "files w TEST_OUT = None"
  shows "ready (-1) (tmpq w) (init_test w)"
  using assms by (simp add: ready_def prepared_def init_test_def pgr_mbuf_new_def pgr_mbuf_setfd_def MBUF_SAME_FD_def
      TEST_IN_def TEST_OUT_def mbuf_wf_def)

lemma run_passes: "passes P ts Q \<Longrightarrow> P s \<Longrightarrow> \<exists>s'. test_run (ts @ us) s = test_run us s' \<and> Q s'"
  unfolding passes_def run_tests_append by (metis option.case(2))

text \<open>
  C25: The test program of the message buffers succeeds: each of its checks holds, from the
  empty buffer through access, discard, relay, send and resend with a message of 32 KB in a
  buffer of 512 octets, drain, the error codes and concatenation, when tmpfile gives a new
  descriptor and writes are not cut short.
\<close>

theorem msg_tests_pass:
  assumes "wrq w = (\<lambda>_. [])" and "files w TEST_IN = None" and "files w TEST_OUT = None"
    and "tmpq w = t # q" and "0 \<le> t" and "t \<noteq> TEST_IN" and "t \<noteq> TEST_OUT"
  shows "\<exists>s. msg_main (init_test w) = Some s"
proof -
  note r = init_ready [OF assms(1-3), unfolded assms(4)]
  have e: "test_run (test_empty @ us) (init_test w) = test_run us (init_test w)" for us
    by (simp add: test_empty_def init_test_def checks pgr_mbuf_setfd_def pgr_mbuf_new_def MBUF_SAME_FD_def
        TEST_IN_def TEST_OUT_def pgr_mbuf_discard_def pgr_mbuf_msgtype_def pgr_mbuf_msglength_def pgr_mbuf_data_def available_def)
  have p: "passes (ready (-1) (t # q)) (test_access @ test_discard @ test_relay @ test_resend) (\<lambda>s. \<exists>c q. ready c q s)"
    by (intro passes_append [OF pass_access] passes_append [OF pass_discard] passes_append [OF pass_relay]
        pass_resend assms)
  from run_passes [OF p r, of "test_drain @ test_errors @ test_concat"] obtain c1 q1 s1 where
    s1: "msg_main (init_test w) = test_run (test_drain @ test_errors @ test_concat) s1" "ready c1 q1 s1"
    by (auto simp: msg_main_def e)
  have "passes (ready c1 q1) (test_drain @ test_errors @ test_concat) (\<lambda>s. True)"
    by (intro passes_append [OF pass_drain] passes_append [OF pass_errors] pass_concat)
  with s1 show ?thesis unfolding passes_def by metis
qed

end
