(* ===== verification/Authtest.thy ===== *)
theory Authtest
  imports Authdb_Laws MD5_Laws Supervisor
begin

text \<open>
  The two test programs of \<^verbatim>\<open>authdb.c\<close>: one prints the table of users it has loaded, the other checks
  the password of a user. \<open>None\<close> is a call that does not return or aborts; otherwise the result is
  the exit code, for the first program with its output. Contexts and digests on the stack have
  any content at the start.
\<close>

definition authdb_main :: "bytes list \<Rightarrow> filesys \<Rightarrow> (int \<times> bytes) option" where
  "authdb_main argv fs =
     (if length argv \<noteq> 2 then Some (1, [])
      else (case pgr_authdb fs (blank_context\<lparr>authdb_file := Some (argv ! 1)\<rparr>) of
              None \<Rightarrow> None
            | Some (rc, c) \<Rightarrow> if rc \<noteq> 0 then Some (3, []) else Some (0, adb_dump c)))"

text \<open>\<^verbatim>\<open>strncmp(a, b, n) == 0\<close>: the end of a string compares like a NUL.\<close>

fun strneq :: "nat \<Rightarrow> bytes \<Rightarrow> bytes \<Rightarrow> bool" where
  "strneq 0 a b = True"
| "strneq (Suc n) [] [] = True"
| "strneq (Suc n) [] (c # b) = (c = NUL)"
| "strneq (Suc n) (c # a) [] = (c = NUL)"
| "strneq (Suc n) (c # a) (d # b) = (c = d \<and> (c = NUL \<or> strneq n a b))"

definition authtest_main :: "bytes list \<Rightarrow> filesys \<Rightarrow> int list \<Rightarrow> CONTEXT \<Rightarrow> md5 \<Rightarrow> int option" where
  "authtest_main argv fs rcs c md5 =
     (if length argv \<noteq> 4 then Some 0
      else (case pgr_context rcs c of
              (rc, c) \<Rightarrow>
                if rc \<noteq> 0 then Some 1
                else
                  (let md5 = pgr_md5_init md5
                   in case pgr_authdb fs (c\<lparr>authdb_file := Some (argv ! 1)\<rparr>) of
                        None \<Rightarrow> None
                      | Some (rc, c) \<Rightarrow>
                          if rc \<noteq> 0 then Some 1
                          else (case pgr_auth_find c (argv ! 2) of
                                  None \<Rightarrow> Some 1
                                | Some check \<Rightarrow>
                                    (let md5 = pgr_md5_update md5 (argv ! 3 @ argv ! 2);
                                         (hash, _) = pgr_md5_hex md5
                                     in Some (if strneq 32 hash check then 0 else 1))))))"

section \<open>What they compute\<close>

lemma strneq_take: "NUL \<notin> set a \<Longrightarrow> NUL \<notin> set b \<Longrightarrow> strneq n a b \<longleftrightarrow> take n a = take n b"
  by (induction n a b rule: strneq.induct) auto

lemma find_entry_map: "find_entry (map fst es) (map snd es) u = map_of es u"
  by (induction es) auto

definition table_text :: "(bytes \<times> bytes) list \<Rightarrow> bytes" where
  "table_text es = ''# pgrouter authdb'' @ CHR 0x0A # concat (map adb_line es)"

lemma load_table:
  assumes "fs path = Some (Some (table_text es))" and "length (table_text es) \<le> 2147483647"
    and "\<And>e. e \<in> set es \<Longrightarrow> entry_ok e"
  shows "pgr_authdb fs (c\<lparr>authdb_file := Some path\<rparr>) =
    Some (0, c\<lparr>authdb_file := Some path, authdb_usernames := map fst es, authdb_md5hashes := map snd es\<rparr>)"
  using authdb_of_lines [of "c\<lparr>authdb_file := Some path\<rparr>" path fs es] assms by (simp add: table_text_def)

text \<open>The program that prints a table reproduces the text of a table.\<close>

lemma authdb_main_prints:
  assumes "fs path = Some (Some (table_text es))" and "length (table_text es) \<le> 2147483647"
    and "\<And>e. e \<in> set es \<Longrightarrow> entry_ok e"
  shows "authdb_main [prog, path] fs = Some (0, table_text es)"
  using load_table [of fs path es, OF assms, of blank_context]
  by (simp add: authdb_main_def adb_dump_def table_text_def zip_map_fst_snd)

text \<open>
  C31: The program that checks a password against a file answers 0 for a user of the table
  exactly when the stored hash begins with the MD5 digest of the password followed by the name
  (the first entry of the name counts), and 1 otherwise, also for a name that is not in the
  table.
\<close>

theorem authtest_decides:
  assumes "fs path = Some (Some (table_text es))" and "length (table_text es) \<le> 2147483647"
    and "\<And>e. e \<in> set es \<Longrightarrow> entry_ok e" and "\<forall>r\<in>set rcs. r = 0" and "md5_blank md5"
    and "length (pw @ user) < 2 ^ 64"
  shows "authtest_main [prog, path, user, pw] fs rcs c md5 =
    Some (case map_of es user of
            None \<Rightarrow> 1
          | Some h \<Rightarrow> if take 32 h = md5_digest (pw @ user) then 0 else 1)"
proof -
  obtain c1 where c1: "pgr_context rcs c = (0, c1)"
    using assms(4) init_backends_ok [of "tl rcs" "backends c"]
    by (cases rcs) (auto simp: pgr_context_def Let_def)
  obtain h z where h: "pgr_md5_hex (pgr_md5_update (pgr_md5_init md5) (pw @ user)) = (h, z)" by (metis surj_pair)
  have d: "h = md5_digest (pw @ user)"
    using md5.parts [OF assms(5), of "[pw @ user]"] assms(6) h by simp
  have l: "length h = 32" using md5.digest_length by (simp add: d)
  have nh: "NUL \<notin> set h"
    using md5.digest_hex [of NUL "pw @ user"] by (auto simp: d hex_octet_def isdigit_def uchar_def)
  have "strneq 32 h x \<longleftrightarrow> take 32 x = h" if "map_of es user = Some x" for x
  proof -
    have "hash_ok x" using assms(3) map_of_SomeD [OF that] by (force simp: entry_ok_def)
    then have "NUL \<notin> set x"
      by (auto simp: hash_ok_def quotable_def adb_word_def word_start_def word_char_def split: if_splits list.splits)
    then show ?thesis using strneq_take [OF nh] l by auto
  qed
  then show ?thesis
    using load_table [of fs path es, OF assms(1-3), of c1] c1 h
    by (simp add: authtest_main_def pgr_auth_find_def find_entry_map d split: option.splits)
qed

end
