(* ===== verification/Examples_Session.thy ===== *)
theory Examples_Session
  imports Examples_Run Transactions Msg_Test_Laws Authtest
begin

text \<open>The properties of whole sessions at concrete inputs.\<close>

section \<open>A session of one query\<close>

definition ex_pton :: pton where
  "ex_pton f host = (if f = AF_INET \<and> host = ''10.0.0.1'' then Some ''AAAA'' else None)"

definition ex_salt :: bytes where "ex_salt = replicate 4 NUL"

definition ex_sockets :: world where
  "ex_sockets = (ex_world (\<lambda>fd. map Chunk
     (if fd = 5 then startup_bytes ex_params # pw_bytes (md5_answer ex_hash ex_salt) # [ex_query, terminate_msg]
      else if fd = 6 then map reply_bytes (granting ''abcd'') @ [ex_row @ ex_done, ex_ready]
      else if fd = 7 then map reply_bytes (granting ''wxyz'') @ []
      else [])))\<lparr>netq := [6, 0, 0, 7, 0, 0]\<rparr>"

definition ex_chosen :: "nat \<Rightarrow> CONNECTION" where
  "ex_chosen i = use_backend ex_context i (backends ex_context ! i) (pgr_conn_init RAND_MAX)"

lemma ex_determined:
  "determine_backends RAND_MAX ex_context (pgr_conn_init RAND_MAX) (pgr_conn_init RAND_MAX) = (0, ex_chosen 2, ex_chosen 0)"
proof -
  have "determine_backends RAND_MAX ex_context (pgr_conn_init RAND_MAX) (pgr_conn_init RAND_MAX) =
      (0, ex_chosen (Suc (Suc 0)), ex_chosen 0)"
    using ex_rand by (simp add: determine_backends_def ex_context_def ex_backend_def backend_role_defs
        backend_status_defs Let_def int32_def ex_chosen_def)
  then show ?thesis by (simp only: numeral_2_eq_2)
qed

lemma ex_resolves: "resolves ex_pton (ex_chosen 2)" "resolves ex_pton (ex_chosen 0)"
  by (simp_all add: resolves_def ex_chosen_def use_backend_def ex_context_def ex_backend_def ipv4_hostport_def ex_pton_def)

lemma ex_admits: "length s = 4 \<Longrightarrow> admits h (granting s) = Some (pw_bytes (md5_answer h s))"
  by (simp add: granting_def)

lemma ex_terminate: "whole terminate_msg" "terminate_msg ! 0 = CHR ''X''"
  using wire_size_typed [of "CHR ''X''" 4 "[]"] by (simp_all add: whole_def terminate_msg_def)

lemma ex_exchange: "exchange_ok (ex_query, [ex_row, ex_done], ex_ready)"
  using ex_not_begin by (simp add: plain_query_def ex_whole ex_plain ex_query_text)

lemma session_run_witness:
  "\<exists>s. handle_client ex_pton (\<lambda>_. RAND_MAX) ex_context 5 ex_sockets = Some (Ret s) \<and>
     sent (hc_world s) 5 = auth_request ex_salt @ auth_done @ ex_row @ ex_done @ ex_ready"
proof -
  let ?es = "[(ex_query, [ex_row, ex_done], ex_ready)]"
  have salt: "cn_salt (pgr_conn_init RAND_MAX) = ex_salt"
    using salt_zero [of RAND_MAX] by (simp add: ex_salt_def RAND_MAX_def)
  have socks: "sockets_ok [5, 6, 7] ex_sockets"
    by (simp add: sockets_ok_def socket_def ex_sockets_def ex_world_def)
  have dlg: "dialogue 5 (startup_bytes ex_params # pw_bytes (md5_answer ex_hash (cn_salt (pgr_conn_init RAND_MAX))) #
      [ex_query, terminate_msg]) ex_sockets"
    "dialogue 6 (map reply_bytes (granting ''abcd'') @ [ex_row @ ex_done, ex_ready]) ex_sockets"
    "dialogue 7 (map reply_bytes (granting ''wxyz'') @ []) ex_sockets"
    by (simp_all add: dialogue_def ex_sockets_def ex_world_def salt del: map_append)
  have io: "stream (map Chunk [ex_query, terminate_msg]) = requests ?es @ terminate_msg @ []"
    "stream (map Chunk [ex_row @ ex_done, ex_ready]) = responses ?es @ []"
    by (simp_all add: ex_query_def ex_row_def ex_done_def ex_ready_def terminate_msg_def)
  have user: "map_of (rev ex_params) ''user'' = Some ''alice''" by (simp add: ex_params_def)
  have hash: "pgr_auth_find ex_context ''alice'' = Some ex_hash" by (simp add: ex_find)
  have "list_all param_ok ex_params" using ex_params_ok by (simp add: list_all_iff)
  moreover have "netq ex_sockets = 6 # 0 # 0 # 7 # 0 # 0 # []" by (simp add: ex_sockets_def)
  ultimately show ?thesis
    using session_run [OF socks dlg(1) _ _ _ user hash length_ex_hash ex_determined ex_resolves _
        ex_admits dlg(2) ex_admits dlg(3) _ _ ex_terminate io] ex_params_ok ex_exchange
    by (auto simp: salt requests_def responses_def ex_sockets_def ex_world_def)
qed

section \<open>A full log\<close>

definition ex_full :: session where
  "ex_full = (ex_session (\<lambda>_. [Chunk ex_query]))\<lparr>fe := \<lparr>infd = 5, outfd = -1, cache = -1, start = 16380, fill = 16380,
     len = 16384, buf = replicate 16384 NUL\<rparr>\<rparr>"

lemma full_log_drops_witness:
  "\<exists>s'. hc_reach ex_full s' \<and> hc_pc s' = SHUTDOWN \<and> (\<forall>x. out_of s' x = [])"
proof -
  have "session_ok ex_full"
    by (simp add: session_ok_def session_base_def ex_full_def ex_session_eq ex_world_def ex_conn_def socket_def writable_def
        sendable_def overflow_ok_def mbuf_wf_def) (simp add: pgr_mbuf_new_def)
  moreover have "length (log_of ex_full) = 16380" by (simp add: log_of_def history_def ex_full_def)
  ultimately obtain s' where "hc_reach ex_full s'" "hc_pc s' = SHUTDOWN" "\<forall>x. out_of s' x = out_of ex_full x"
    using full_log_drops [of ex_full] by (auto simp: ex_full_def ex_session_eq available_def)
  moreover have "out_of ex_full x = []" for x by (simp add: ex_full_def ex_session_eq out_of_def ex_world_def)
  ultimately show ?thesis by auto
qed

section \<open>A transaction\<close>

definition ex_begin :: bytes where "ex_begin = ''Q'' @ be32 10 @ ''BEGIN'' @ [NUL]"

definition ex_txn :: "int \<Rightarrow> rd list" where
  "ex_txn fd = (if fd = 5 then [Chunk ex_begin] else if fd = 7 then [Chunk ex_done, Chunk ex_ready] else [])"

lemma begin_waits_witness:
  "\<exists>s'. hc_reach (ex_session ex_txn) s' \<and> hc_pc s' = SHUTDOWN \<and> out_of s' 7 = ex_begin \<and> out_of s' 5 = []"
proof -
  have "whole ex_begin"
    using wire_size_typed [of "CHR ''Q''" 10 "''BEGIN'' @ [NUL]"] by (simp add: whole_def ex_begin_def)
  moreover have "ex_begin ! 0 = CHR ''Q''" "length ex_begin = 11" "drop 5 ex_begin = ''BEGIN'' @ [NUL]"
    by (simp_all add: ex_begin_def be32_def)
  moreover have "strncaseeq (''BEGIN'' @ [NUL]) ''begin'' 5" by code_simp
  moreover have "asked (ex_session ex_txn) = ex_begin @ []"
    by (simp add: ex_session_views ex_txn_def) (simp add: ex_begin_def)
  moreover have "window (fe (ex_session ex_txn)) = []" "start (fe (ex_session ex_txn)) = 0" "len (fe (ex_session ex_txn)) = 16384"
    by (simp_all add: ex_session_eq window_def available_def pgr_mbuf_new_def)
  ultimately obtain s1 s2 where s1: "hc_reach (ex_session ex_txn) s1" "hc_next s1 = Some s2" "hc_pc s2 = SHUTDOWN"
    "\<forall>x. out_of s2 x = out_of s1 x" "\<forall>x. out_of s1 x = out_of (ex_session ex_txn) x @ (if x = 7 then ex_begin else [])"
    using begin_waits [of "ex_session ex_txn" ex_begin "[]" ex_begin "[]"] ex_session_ok [of ex_txn]
    by (auto simp: ex_session_views ex_txn_def)
  have "hc_reach (ex_session ex_txn) s2" using s1(1,2) by (meson hc_step.step rtranclp.rtrancl_into_rtrancl)
  then show ?thesis using s1(3-5) by (intro exI [of _ s2]) (simp add: ex_session_views)
qed

section \<open>The test program\<close>

lemma msg_tests_pass_witness: "\<exists>s. msg_main (init_test (ex_world (\<lambda>_. []))) = Some s"
  by (rule msg_tests_pass [of _ 9 "[]"]) (simp_all add: ex_world_def TEST_IN_def TEST_OUT_def)

section \<open>Checking a password\<close>

lemma ex_table: "\<And>e. e \<in> set [(''alice'', ex_hash)] \<Longrightarrow> entry_ok e"
proof -
  have "list_all entry_ok [(''alice'', ex_hash)]" unfolding ex_hash_def by code_simp
  then show "\<And>e. e \<in> set [(''alice'', ex_hash)] \<Longrightarrow> entry_ok e" by (simp add: list_all_iff)
qed

lemma authtest_decides_witness:
  "authtest_main [''authtest'', ''authdb'', ''bob'', ''secret''] (\<lambda>_. Some (Some (table_text [(''alice'', ex_hash)]))) []
     ex_context md5_zero = Some 1"
proof -
  have "length (table_text [(''alice'', ex_hash)]) \<le> 2147483647"
    by (simp add: table_text_def adb_line_def ex_hash_def isspace_def uchar_def)
  from authtest_decides [of "\<lambda>_. Some (Some (table_text [(''alice'', ex_hash)]))" "''authdb''", OF refl this ex_table _ blank_zero,
      of "[]" "''secret''" "''bob''"]
  show ?thesis by simp
qed

end
