(* ===== verification/Msg_Calls.thy ===== *)
theory Msg_Calls
  imports Msg_Laws
begin

text \<open>
  Sequences of calls to the buffer's interface (\<^verbatim>\<open>pgr_mbuf_*\<close> of \<^verbatim>\<open>src/msg.c\<close>), as a caller may
  make them in any order, and the invariant of the buffer along every such sequence.
\<close>

datatype mbuf_call =
    Setfd int int | Reset | Cat bytes | Recv | Send | Resend | Relay | Discard | Drain int

text \<open>A call that does not return (\<open>pgr_mbuf_drain\<close>) has no next state.\<close>

fun mbuf_do :: "mbuf_call \<Rightarrow> mbuf \<times> world \<Rightarrow> (mbuf \<times> world) option" where
  "mbuf_do (Setfd i out) (m, w) = Some (pgr_mbuf_setfd m i out, w)"
| "mbuf_do Reset (m, w) = Some (pgr_mbuf_reset m w)"
| "mbuf_do (Cat bs) (m, w) = Some (snd (pgr_mbuf_cat m bs), w)"
| "mbuf_do Recv (m, w) = Some (snd (pgr_mbuf_recv m w))"
| "mbuf_do Send (m, w) = Some (snd (pgr_mbuf_send m w))"
| "mbuf_do Resend (m, w) = Some (snd (pgr_mbuf_resend m w))"
| "mbuf_do Relay (m, w) = Some (snd (pgr_mbuf_relay m w))"
| "mbuf_do Discard (m, w) = Some (snd (pgr_mbuf_discard m w))"
| "mbuf_do (Drain t) (m, w) = (case pgr_mbuf_drain m t w of None \<Rightarrow> None | Some (_, s) \<Rightarrow> Some s)"

inductive mbuf_reach :: "nat \<Rightarrow> mbuf \<times> world \<Rightarrow> bool" for l where
  new: "mbuf_reach l (pgr_mbuf_new l, w)"
| call: "mbuf_reach l s \<Longrightarrow> mbuf_do c s = Some s' \<Longrightarrow> mbuf_reach l s'"
| world: "mbuf_reach l (m, w) \<Longrightarrow> mbuf_reach l (m, w')"

lemma wf_call:
  assumes wf: "mbuf_wf (fst s)" and s': "mbuf_do c s = Some s'"
  shows "mbuf_wf (fst s')"
proof -
  obtain m w where s: "s = (m, w)" by (cases s)
  note wf = wf [unfolded s fst_conv]
  have "mbuf_wf (fst (snd x))" if "\<And>r m' w'. x = (r, m', w') \<Longrightarrow> mbuf_wf m'" for x :: "int \<times> mbuf \<times> world"
    using that by (cases x) auto
  note p = this
  have "mbuf_wf (fst (snd (pgr_mbuf_recv m w)))" "mbuf_wf (fst (snd (pgr_mbuf_send m w)))"
    "mbuf_wf (fst (snd (pgr_mbuf_resend m w)))" "mbuf_wf (fst (snd (pgr_mbuf_relay m w)))"
    "mbuf_wf (fst (snd (pgr_mbuf_discard m w)))"
    by (rule p, erule wf_recv [OF wf], rule p, erule wf_send [OF wf], rule p, erule wf_resend [OF wf],
        rule p, erule wf_relay [OF wf], rule p, erule wf_discard [OF wf])
  then show ?thesis
    using s' wf wf_drain [OF _ wf] by (cases c) (auto simp: s wf_setfd wf_reset wf_cat split: option.splits)
qed

text \<open>
  C24: After any sequence of calls to the buffer's interface, whatever the system calls
  return, the offsets of the buffer are in order and within the allocated octets: no call
  writes outside the buffer.
\<close>

lemma wf_reach: "mbuf_reach l s \<Longrightarrow> mbuf_wf (fst s)"
  by (induction rule: mbuf_reach.induct) (use wf_new wf_call in auto)

end
