(* ===== verification/MD5_Test.thy ===== *)
theory MD5_Test
  imports MD5_Laws
begin

text \<open>
  The test program of \<^verbatim>\<open>md5.c\<close>: the lines it prints, for any content of the memory of its digests,
  have the digests of the reference.
\<close>

definition md5it :: "md5 \<Rightarrow> bytes \<Rightarrow> bytes" where
  "md5it md5 s =
     (let md5 = pgr_md5_init md5;
          md5 = pgr_md5_update md5 s;
          (hex, _) = pgr_md5_hex md5
      in ''md5('' @ [CHR 0x27] @ s @ [CHR 0x27] @ '') = '' @ hex @ [CHR 0x0A])"

definition md5_main :: "md5 \<Rightarrow> md5 \<Rightarrow> md5 \<Rightarrow> bytes" where
  "md5_main a b c =
     md5it a '''' @
     md5it b ''The quick brown fox jumps over the lazy dog'' @
     md5it c ''The quick brown fox jumps over the lazy dog.''"

lemma md5it_digest:
  assumes "md5_blank c" and "length s < 2 ^ 64"
  shows "md5it c s = ''md5('' @ [CHR 0x27] @ s @ [CHR 0x27] @ '') = '' @ md5_digest s @ [CHR 0x0A]"
proof -
  obtain h z where h: "pgr_md5_hex (pgr_md5_update (pgr_md5_init c) s) = (h, z)" by (metis surj_pair)
  then have "h = md5_digest s" using md5.parts [OF assms(1), of "[s]"] assms(2) by simp
  with h show ?thesis by (simp add: md5it_def)
qed

lemma md5_main_prints:
  assumes "md5_blank a" "md5_blank b" "md5_blank c"
  shows "md5_main a b c = concat (map (\<lambda>s. ''md5('' @ [CHR 0x27] @ s @ [CHR 0x27] @ '') = '' @ md5_digest s @ [CHR 0x0A])
    [[], ''The quick brown fox jumps over the lazy dog'', ''The quick brown fox jumps over the lazy dog.''])"
  using assms by (simp add: md5_main_def md5it_digest)

end
