(* ===== verification/Driver.thy ===== *)
theory Driver
  imports Log
begin

text \<open>
  The test driver (\<^verbatim>\<open>driver/main.c\<close>): a client of \<^verbatim>\<open>libpq\<close> that runs three tests through the router.
  The results of \<^verbatim>\<open>PQexec\<close> are given in order, the statements it was called with are recorded; what
  is printed is left out.
\<close>

section \<open>Queries\<close>

text \<open>A result: whether its status is \<^verbatim>\<open>PGRES_TUPLES_OK\<close>, and \<^verbatim>\<open>PQntuples\<close>; \<open>None\<close> is \<^verbatim>\<open>NULL\<close>.\<close>

type_synonym pgresult = "bool \<times> int"

record driver =
  dr_replies :: "pgresult option list"
  dr_sql     :: "bytes list"

definition PQexec :: "bytes \<Rightarrow> driver \<Rightarrow> pgresult option \<times> driver" where
  "PQexec sql d =
     (let d1 = d\<lparr>dr_sql := dr_sql d @ [sql]\<rparr>
      in case dr_replies d of [] \<Rightarrow> (None, d1) | r # rs \<Rightarrow> (r, d1\<lparr>dr_replies := rs\<rparr>))"

definition COMMAND_QUERY :: "bytes \<Rightarrow> driver \<Rightarrow> int \<times> driver" where
  "COMMAND_QUERY sql d = (case PQexec sql d of (r, d1) \<Rightarrow> (case r of None \<Rightarrow> (0, d1) | Some _ \<Rightarrow> (1, d1)))"

definition DATA_QUERY :: "bytes \<Rightarrow> driver \<Rightarrow> int \<times> pgresult option \<times> driver" where
  "DATA_QUERY sql d =
     (case PQexec sql d of
        (r, d1) \<Rightarrow>
          (case r of None \<Rightarrow> (0, r, d1) | Some (tuples_ok, n) \<Rightarrow> if \<not> tuples_ok then (0, r, d1) else (1, r, d1)))"

text \<open>A chain of \<^verbatim>\<open>||\<close> over negated commands: whether all of them succeeded.\<close>

fun commands :: "bytes list \<Rightarrow> driver \<Rightarrow> bool \<times> driver" where
  "commands [] d = (True, d)"
| "commands (s # ss) d = (case COMMAND_QUERY s d of (ok, d1) \<Rightarrow> if ok = 0 then (False, d1) else commands ss d1)"

definition load_schema :: "driver \<Rightarrow> int \<times> driver" where
  "load_schema d =
     (case commands [''DROP TABLE notes'', ''CREATE TABLE notes (id INTEGER, note TEXT)'',
          ''INSERT INTO notes (id, note)'' @ ''  VALUES (1, '' @ [CHR 0x27] @ ''this is the first note'' @ [CHR 0x27] @ '')''] d of
        (ok, d1) \<Rightarrow> (if ok then 0 else 1, d1))"

section \<open>Tests\<close>

definition TEST_OK :: int where "TEST_OK = 1"
definition TEST_FAIL :: int where "TEST_FAIL = 2"
definition TEST_ERROR :: int where "TEST_ERROR = 3"

definition test_simple_select :: "driver \<Rightarrow> int \<times> driver" where
  "test_simple_select d =
     (case DATA_QUERY ''SELECT note FROM notes WHERE id = 1'' d of
        (ok, _, d1) \<Rightarrow> if ok = 0 then (TEST_FAIL, d1) else (TEST_OK, d1))"

definition test_simple_insert :: "driver \<Rightarrow> int \<times> driver" where
  "test_simple_insert d =
     (case COMMAND_QUERY (''INSERT INTO notes (id, note)'' @ ''  VALUES (2, '' @ [CHR 0x27] @ ''another note'' @ [CHR 0x27] @ '')'') d of
        (ok, d1) \<Rightarrow>
          if ok = 0 then (TEST_FAIL, d1)
          else (case DATA_QUERY ''SELECT note FROM notes WHERE id = 2'' d1 of
                  (ok, r, d2) \<Rightarrow>
                    if ok = 0 then (TEST_FAIL, d2)
                    else (case r of None \<Rightarrow> (TEST_FAIL, d2) | Some (_, n) \<Rightarrow> if n \<noteq> 1 then (TEST_FAIL, d2) else (TEST_OK, d2))))"

text \<open>The buffer after the \<^verbatim>\<open>memcpy\<close>, \<^verbatim>\<open>memset\<close> and \<^verbatim>\<open>memcpy\<close> for a size, with its NUL.\<close>

definition large_buffer :: "nat \<Rightarrow> bytes" where
  "large_buffer i = ''INSERT INTO notes (id, note) VALUES (3, '' @ [CHR 0x27] @ replicate (i - 44) (CHR ''a'') @ [CHR 0x27] @ '')'' @ [NUL]"

text \<open>
  The loop; a size is never 0, which the function needs for its termination. After the last
  size the source has no \<^verbatim>\<open>return\<close>: \<open>junk\<close> is what the caller then gets.
\<close>

function large_loop :: "int \<Rightarrow> nat \<Rightarrow> driver \<Rightarrow> int \<times> driver" where
  "large_loop junk i d =
     (if 65536 < i \<or> i = 0 then (junk, d)
      else (case commands [''DELETE FROM notes WHERE id = 3'', takeWhile (\<lambda>c. c \<noteq> NUL) (large_buffer i)] d of
              (ok, d1) \<Rightarrow> if \<not> ok then (TEST_FAIL, d1) else large_loop junk (i * 2) d1))"
  by pat_completeness auto
termination by (relation "measure (\<lambda>(junk, i, d). 65537 - i)") auto

declare large_loop.simps [simp del]

definition test_large_insert :: "int \<Rightarrow> driver \<Rightarrow> int \<times> driver" where
  "test_large_insert junk d = large_loop junk 256 d"

section \<open>The program\<close>

definition exit_code :: "int list \<Rightarrow> int" where
  "exit_code results =
     foldl (\<lambda>rc r. if r = TEST_FAIL then (if 1 < rc then rc else 1)
                   else if r = TEST_ERROR then (if 2 < rc then rc else 2) else rc) 0 results"

definition run_tests :: "int \<Rightarrow> driver \<Rightarrow> int list \<times> driver" where
  "run_tests junk d =
     (case test_simple_select d of
        (a, d1) \<Rightarrow> (case test_simple_insert d1 of
          (b, d2) \<Rightarrow> (case test_large_insert junk d2 of (c, d3) \<Rightarrow> ([a, b, c], d3))))"

text \<open>\<open>args\<close> is \<^verbatim>\<open>argv\<close> after the name; \<open>connected\<close>: \<^verbatim>\<open>PQconnectdb\<close> and \<^verbatim>\<open>PQstatus\<close>, \<open>tmp\<close>: \<^verbatim>\<open>tmpfile\<close>.\<close>

definition driver_main :: "bytes list \<Rightarrow> bool \<Rightarrow> bool \<Rightarrow> int \<Rightarrow> driver \<Rightarrow> int \<times> driver" where
  "driver_main args connected tmp junk d =
     (case args of
        [a] \<Rightarrow>
          if a = ''-h'' \<or> a = ''--help'' then (0, d)
          else if \<not> connected then (7, d)
          else if \<not> tmp then (8, d)
          else (case load_schema d of
                  (rc, d1) \<Rightarrow>
                    if rc \<noteq> 0 then (9, d1)
                    else (case run_tests junk d1 of (results, d2) \<Rightarrow> (exit_code results, d2)))
      | _ \<Rightarrow> (1, d))"

section \<open>Laws\<close>

lemma exit_code_worst:
  "exit_code results = (if TEST_ERROR \<in> set results then 2 else if TEST_FAIL \<in> set results then 1 else 0)"
  by (induction results rule: rev_induct) (auto simp: exit_code_def TEST_OK_def TEST_FAIL_def TEST_ERROR_def)

text \<open>The statement for a size fills the buffer of that size up to its NUL.\<close>

lemma large_buffer_fits:
  assumes "44 \<le> i" shows "length (large_buffer i) = i" and "length (takeWhile (\<lambda>c. c \<noteq> NUL) (large_buffer i)) = i - 1"
proof -
  show l: "length (large_buffer i) = i" using assms by (simp add: large_buffer_def)
  have "takeWhile (\<lambda>c. c \<noteq> NUL) (large_buffer i) = butlast (large_buffer i)"
    by (simp add: large_buffer_def takeWhile_append butlast_append)
  then show "length (takeWhile (\<lambda>c. c \<noteq> NUL) (large_buffer i)) = i - 1" using l by simp
qed

text \<open>Every command of a chain is sent when all before it succeed.\<close>

lemma commands_sql:
  "commands ss d = (True, d1) \<Longrightarrow> dr_sql d1 = dr_sql d @ ss"
  by (induction ss arbitrary: d)
     (auto simp: COMMAND_QUERY_def PQexec_def Let_def split: prod.splits option.splits list.splits if_splits)

text \<open>
  The large test sends nine statements, of 255 to 65535 octets, and its result is the
  indeterminate one whenever it does not fail.
\<close>

lemma large_test_sizes:
  assumes "test_large_insert junk d = (r, d1)" "r \<noteq> TEST_FAIL"
  shows "r = junk \<and> dr_sql d1 = dr_sql d @
    concat (map (\<lambda>k. [''DELETE FROM notes WHERE id = 3'', takeWhile (\<lambda>c. c \<noteq> NUL) (large_buffer (2 ^ k))]) [8..<17])"
proof -
  have step: "r = junk \<and> dr_sql d1 = dr_sql d @
      concat (map (\<lambda>k. [''DELETE FROM notes WHERE id = 3'', takeWhile (\<lambda>c. c \<noteq> NUL) (large_buffer (2 ^ k))]) [k..<17])"
    if "large_loop junk (2 ^ k) d = (r, d1)" "k \<le> 17" for k d
    using that
  proof (induction "17 - k" arbitrary: k d)
    case 0
    then have "k = 17" by simp
    with 0 show ?case by (simp add: large_loop.simps)
  next
    case (Suc n)
    then have k: "k < 17" "n = 17 - Suc k" by auto
    have "(2 :: nat) ^ k \<le> 2 ^ 16" using k by (intro power_increasing) auto
    then have le: "\<not> (65536 < (2 :: nat) ^ k \<or> (2 :: nat) ^ k = 0)" by simp
    obtain ok d2 where c: "commands [''DELETE FROM notes WHERE id = 3'', takeWhile (\<lambda>c. c \<noteq> NUL) (large_buffer (2 ^ k))] d = (ok, d2)"
      by (metis surj_pair)
    have ok: "ok" and rest: "large_loop junk (2 ^ Suc k) d2 = (r, d1)"
      using Suc.prems(1) le c assms(2)
      by (subst (asm) large_loop.simps, simp del: commands.simps split: if_split_asm add: mult.commute)+
    from Suc.hyps(1) [OF k(2) rest] k have "r = junk \<and> dr_sql d1 = dr_sql d2 @
        concat (map (\<lambda>k. [''DELETE FROM notes WHERE id = 3'', takeWhile (\<lambda>c. c \<noteq> NUL) (large_buffer (2 ^ k))]) [Suc k..<17])"
      by simp
    moreover have "dr_sql d2 = dr_sql d @ [''DELETE FROM notes WHERE id = 3'', takeWhile (\<lambda>c. c \<noteq> NUL) (large_buffer (2 ^ k))]"
      by (rule commands_sql) (use c ok in simp)
    ultimately show ?case using k by (simp add: upt_conv_Cons)
  qed
  have "large_loop junk (2 ^ 8) d = (r, d1)" using assms(1) by (simp add: test_large_insert_def)
  from step [OF this] show ?thesis by simp
qed

end
