(* ===== verification/Seed.thy ===== *)
theory Seed
  imports Rand Log
begin

text \<open>
  The seed of the generator of \<^verbatim>\<open>src/rand.c\<close>: one for each thread, kept under a thread key and
  read from the random device by the first call of the thread. What \<^verbatim>\<open>malloc\<close>, \<^verbatim>\<open>open\<close> and
  \<^verbatim>\<open>read\<close> give is the record \<open>seed_source\<close>; \<open>rand_r\<close> is a parameter, a function from the seed to
  the number and the next seed.
\<close>

definition RAND_DEVICE :: bytes where "RAND_DEVICE = ''/dev/urandom''"

record seed_source =
  src_memory :: bool            \<comment> \<open>\<^verbatim>\<open>malloc\<close> has not failed\<close>
  src_fd     :: int             \<comment> \<open>result of \<^verbatim>\<open>open\<close> on \<open>RAND_DEVICE\<close>\<close>
  src_count  :: int             \<comment> \<open>result of \<^verbatim>\<open>read\<close> of \<^verbatim>\<open>sizeof(int)\<close> octets\<close>
  src_value  :: int             \<comment> \<open>the octets it has stored, as an \<^verbatim>\<open>int\<close>\<close>

type_synonym seeds = "nat \<Rightarrow> int option"     \<comment> \<open>the value of the key \<^verbatim>\<open>seed\<close> in each thread\<close>

definition prng_seed :: "seed_source \<Rightarrow> nat \<Rightarrow> seeds \<Rightarrow> (int \<times> seeds) ended" where
  "prng_seed src t sd =
     (case sd t of
        Some s \<Rightarrow> Goes_on (s, sd)
      | None \<Rightarrow>
          if \<not> src_memory src then Aborts ABORT_MEMFAIL
          else if src_fd src < 0 then Aborts ABORT_RANDFAIL
          else if src_count src \<noteq> 4 then Aborts ABORT_RANDFAIL
          else Goes_on (src_value src, sd(t \<mapsto> src_value src)))"

definition thread_rand ::
    "(int \<Rightarrow> int \<times> int) \<Rightarrow> seed_source \<Rightarrow> nat \<Rightarrow> int \<Rightarrow> int \<Rightarrow> seeds \<Rightarrow> (int \<times> seeds) ended" where
  "thread_rand rand_r src t start end sd =
     (case prng_seed src t sd of
        Goes_on (s, sd1) \<Rightarrow> (case rand_r s of (k, s1) \<Rightarrow> Goes_on (pgr_rand k start end, sd1(t \<mapsto> s1)))
      | Aborts code \<Rightarrow> Aborts code
      | Exits code \<Rightarrow> Exits code
      | Lost \<Rightarrow> Lost)"

text \<open>The argument of \<^verbatim>\<open>pgr_srand\<close> is not used.\<close>

definition pgr_srand :: "seed_source \<Rightarrow> nat \<Rightarrow> int \<Rightarrow> seeds \<Rightarrow> seeds ended" where
  "pgr_srand src t x sd =
     (case prng_seed src t sd of
        Goes_on (s, sd1) \<Rightarrow> Goes_on sd1
      | Aborts code \<Rightarrow> Aborts code
      | Exits code \<Rightarrow> Exits code
      | Lost \<Rightarrow> Lost)"

section \<open>Calls of several threads\<close>

text \<open>Calls in the order in which they happen: the thread and the upper bound of each.\<close>

fun rand_calls ::
    "(int \<Rightarrow> int \<times> int) \<Rightarrow> (nat \<Rightarrow> seed_source) \<Rightarrow> (nat \<times> int) list \<Rightarrow> seeds \<Rightarrow> (nat \<times> int) list ended" where
  "rand_calls rand_r src [] sd = Goes_on []"
| "rand_calls rand_r src ((t, n) # cs) sd =
     (case thread_rand rand_r (src t) t 0 n sd of
        Goes_on (x, sd1) \<Rightarrow>
          (case rand_calls rand_r src cs sd1 of
             Goes_on xs \<Rightarrow> Goes_on ((t, x) # xs)
           | other \<Rightarrow> other)
      | Aborts code \<Rightarrow> Aborts code
      | Exits code \<Rightarrow> Exits code
      | Lost \<Rightarrow> Lost)"

text \<open>The first call reads the device, later ones do not.\<close>

lemma seeded_once: "sd t = Some s \<Longrightarrow> thread_rand rand_r src t a b sd = thread_rand rand_r src' t a b sd"
  by (simp add: thread_rand_def prng_seed_def)

lemma thread_rand_seeds:
  assumes "thread_rand rand_r src t a b sd = Goes_on (x, sd1)"
  shows "\<exists>s. sd1 t = Some s" and "u \<noteq> t \<Longrightarrow> sd1 u = sd u"
  using assms by (auto simp: thread_rand_def prng_seed_def split: option.splits if_splits prod.splits)

text \<open>A call depends on the seed of its own thread only.\<close>

lemma thread_rand_own:
  assumes "thread_rand rand_r src t a b sd = Goes_on (x, sd1)" "sd t = sd' t"
  shows "\<exists>sd1'. thread_rand rand_r src t a b sd' = Goes_on (x, sd1') \<and> sd1' t = sd1 t"
  using assms by (auto simp: thread_rand_def prng_seed_def split: option.splits if_splits prod.splits)

lemma rand_calls_Cons:
  assumes "rand_calls rand_r src ((t, n) # cs) sd = Goes_on xs"
  obtains x sd1 ys where "thread_rand rand_r (src t) t 0 n sd = Goes_on (x, sd1)"
    "rand_calls rand_r src cs sd1 = Goes_on ys" "xs = (t, x) # ys"
  using assms by (auto split: ended.splits prod.splits)

lemma rand_calls_range:
  assumes "rand_calls rand_r src cs sd = Goes_on xs" "\<And>s. fst (rand_r s) \<in> {0..RAND_MAX}"
    and "\<And>t n. (t, n) \<in> set cs \<Longrightarrow> 0 \<le> n \<and> n < 2 ^ 31"
  shows "list_all2 (\<lambda>(t, n) (u, x). u = t \<and> 0 \<le> x \<and> x \<le> n) cs xs"
  using assms(1,3)
proof (induction cs arbitrary: sd xs)
  case (Cons c cs)
  obtain t n where c: "c = (t, n)" by (cases c)
  from rand_calls_Cons [OF Cons.prems(1) [unfolded c]] obtain x sd1 ys where
    x: "thread_rand rand_r (src t) t 0 n sd = Goes_on (x, sd1)" "rand_calls rand_r src cs sd1 = Goes_on ys" "xs = (t, x) # ys" .
  obtain s where "x = pgr_rand (fst (rand_r s)) 0 n"
    using x(1) by (auto simp: thread_rand_def split: ended.splits prod.splits) (metis fst_conv)
  then have "0 \<le> x \<and> x \<le> n" using rand_range [of "fst (rand_r s)" n] assms(2) [of s] Cons.prems(2) [of t n] c by simp
  moreover have "list_all2 (\<lambda>(t, n) (u, x). u = t \<and> 0 \<le> x \<and> x \<le> n) cs ys"
    by (rule Cons.IH [OF x(2)]) (meson Cons.prems(2) list.set_intros(2))
  ultimately show ?case by (simp add: c x(3))
qed simp

text \<open>The numbers of a thread are those it gets alone, in whatever order the others call.\<close>

lemma rand_calls_own:
  assumes "rand_calls rand_r src cs sd = Goes_on xs" "sd t = sd' t"
  shows "rand_calls rand_r src (filter (\<lambda>c. fst c = t) cs) sd' = Goes_on (filter (\<lambda>c. fst c = t) xs)"
  using assms
proof (induction cs arbitrary: sd sd' xs)
  case (Cons c cs)
  obtain u n where c: "c = (u, n)" by (cases c)
  from rand_calls_Cons [OF Cons.prems(1) [unfolded c]] obtain x sd1 ys where
    x: "thread_rand rand_r (src u) u 0 n sd = Goes_on (x, sd1)" "rand_calls rand_r src cs sd1 = Goes_on ys" "xs = (u, x) # ys" .
  show ?case
  proof (cases "u = t")
    case True
    from thread_rand_own [OF x(1)] Cons.prems(2) True obtain sd1' where
      y: "thread_rand rand_r (src u) u 0 n sd' = Goes_on (x, sd1')" "sd1' t = sd1 t" by auto
    from Cons.IH [of sd1 ys sd1', OF x(2) y(2) [symmetric]] y True show ?thesis by (simp add: c x(3))
  next
    case False
    then have "sd1 t = sd' t" using thread_rand_seeds(2) [OF x(1), of t] Cons.prems(2) by simp
    from Cons.IH [of sd1 ys sd', OF x(2) this] False show ?thesis by (simp add: c x(3))
  qed
qed simp

end
