(* ===== verification/Tokens.thy ===== *)
theory Tokens
  imports Authdb Config_Lex
begin

text \<open>
  The debug output of the two lexers: names of token types (\<^verbatim>\<open>config.gen.c\<close> and \<^verbatim>\<open>authdb.c\<close>) and the
  dump of a token and of a lexer into a buffer of 256 octets. \<^verbatim>\<open>emit\<close> dumps every token it returns,
  so the buffer is written on every path through the parsers.
\<close>

section \<open>Names\<close>

definition adb_value :: "adb_type \<Rightarrow> int" where
  "adb_value t = (case t of T_RESTART \<Rightarrow> 256 | T_ERROR \<Rightarrow> 257 | T_EOS \<Rightarrow> 258 | T_WORD \<Rightarrow> 259 | T_QSTRING \<Rightarrow> 260 | T_NEWLINE \<Rightarrow> 261)"

definition adb_token_name :: "int \<Rightarrow> bytes" where
  "adb_token_name t =
     (if t = 256 then ''T_RESTART'' else if t = 257 then ''T_ERROR'' else if t = 258 then ''T_EOS''
      else if t = 259 then ''T_WORD'' else if t = 260 then ''T_QSTRING'' else if t = 261 then ''T_NEWLINE''
      else ''(unknown)'')"

definition TOKEN_NAMES :: "(int \<times> bytes option \<times> bytes option) list" where
  "TOKEN_NAMES =
     [(256, Some ''T_EOS'', None), (257, Some ''T_RESTART'', None), (258, Some ''T_ERROR'', None),
      (259, Some ''T_OPEN'', None), (260, Some ''T_CLOSE'', None), (261, Some ''T_TERMX'', None),
      (262, Some ''T_KEYWORD_AUTHDB'', Some ''authdb''), (263, Some ''T_KEYWORD_BACKEND'', Some ''backend''),
      (264, Some ''T_KEYWORD_CERT'', Some ''cert''), (265, Some ''T_KEYWORD_CHECK'', Some ''check''),
      (266, Some ''T_KEYWORD_CIPHERS'', Some ''ciphers''), (267, Some ''T_KEYWORD_DATABASE'', Some ''database''),
      (268, Some ''T_KEYWORD_DEBUG'', Some ''debug''), (269, Some ''T_KEYWORD_DEFAULT'', Some ''default''),
      (270, Some ''T_KEYWORD_ERROR'', Some ''error''), (271, Some ''T_KEYWORD_GROUP'', Some ''group''),
      (272, Some ''T_KEYWORD_HBA'', Some ''hba''), (273, Some ''T_KEYWORD_HEALTH'', Some ''health''),
      (274, Some ''T_KEYWORD_INFO'', Some ''info''), (275, Some ''T_KEYWORD_KEY'', Some ''key''),
      (276, Some ''T_KEYWORD_LAG'', Some ''lag''), (277, Some ''T_KEYWORD_LISTEN'', Some ''listen''),
      (278, Some ''T_KEYWORD_LOG'', Some ''log''), (279, Some ''T_KEYWORD_MONITOR'', Some ''monitor''),
      (280, Some ''T_KEYWORD_OFF'', Some ''off''), (281, Some ''T_KEYWORD_ON'', Some ''on''),
      (282, Some ''T_KEYWORD_PASSWORD'', Some ''password''), (283, Some ''T_KEYWORD_PIDFILE'', Some ''pidfile''),
      (284, Some ''T_KEYWORD_SKIPVERIFY'', Some ''skipverify''), (285, Some ''T_KEYWORD_TIMEOUT'', Some ''timeout''),
      (286, Some ''T_KEYWORD_TLS'', Some ''tls''), (287, Some ''T_KEYWORD_USER'', Some ''user''),
      (288, Some ''T_KEYWORD_USERNAME'', Some ''username''), (289, Some ''T_KEYWORD_WEIGHT'', Some ''weight''),
      (290, Some ''T_KEYWORD_WORKERS'', Some ''workers''), (291, Some ''T_TYPE_BAREWORD'', None),
      (292, Some ''T_TYPE_DECIMAL'', None), (293, Some ''T_TYPE_INTEGER'', None), (294, Some ''T_TYPE_ADDRESS'', None),
      (295, Some ''T_TYPE_TIME'', None), (296, Some ''T_TYPE_SIZE'', None), (297, Some ''T_TYPE_QSTRING'', None),
      (-1, None, None)]"

text \<open>The loop of \<^verbatim>\<open>token_name\<close>, which ends at the entry without a name.\<close>

fun name_in :: "(int \<times> bytes option \<times> bytes option) list \<Rightarrow> int \<Rightarrow> bytes" where
  "name_in ((v, Some name, _) # rest) t = (if v = t then name else name_in rest t)"
| "name_in _ t = ''(unknown)''"

definition cfg_token_name :: "int \<Rightarrow> bytes" where
  "cfg_token_name t = name_in TOKEN_NAMES t"

definition cfg_value :: "cfg_type \<Rightarrow> int" where
  "cfg_value t =
     (case t of
        CT_EOS \<Rightarrow> 256 | CT_RESTART \<Rightarrow> 257 | CT_ERROR \<Rightarrow> 258 | CT_OPEN \<Rightarrow> 259 | CT_CLOSE \<Rightarrow> 260 | CT_TERMX \<Rightarrow> 261
      | K_AUTHDB \<Rightarrow> 262 | K_BACKEND \<Rightarrow> 263 | K_CERT \<Rightarrow> 264 | K_CHECK \<Rightarrow> 265 | K_CIPHERS \<Rightarrow> 266 | K_DATABASE \<Rightarrow> 267
      | K_DEBUG \<Rightarrow> 268 | K_DEFAULT \<Rightarrow> 269 | K_ERROR \<Rightarrow> 270 | K_GROUP \<Rightarrow> 271 | K_HBA \<Rightarrow> 272 | K_HEALTH \<Rightarrow> 273
      | K_INFO \<Rightarrow> 274 | K_KEY \<Rightarrow> 275 | K_LAG \<Rightarrow> 276 | K_LISTEN \<Rightarrow> 277 | K_LOG \<Rightarrow> 278 | K_MONITOR \<Rightarrow> 279
      | K_OFF \<Rightarrow> 280 | K_ON \<Rightarrow> 281 | K_PASSWORD \<Rightarrow> 282 | K_PIDFILE \<Rightarrow> 283 | K_SKIPVERIFY \<Rightarrow> 284 | K_TIMEOUT \<Rightarrow> 285
      | K_TLS \<Rightarrow> 286 | K_USER \<Rightarrow> 287 | K_USERNAME \<Rightarrow> 288 | K_WEIGHT \<Rightarrow> 289 | K_WORKERS \<Rightarrow> 290
      | TY_BAREWORD \<Rightarrow> 291 | TY_DECIMAL \<Rightarrow> 292 | TY_INTEGER \<Rightarrow> 293 | TY_ADDRESS \<Rightarrow> 294 | TY_TIME \<Rightarrow> 295
      | TY_SIZE \<Rightarrow> 296 | TY_QSTRING \<Rightarrow> 297)"

text \<open>Every type has a name of its own, and the two generated tables agree on the keywords.\<close>

lemma adb_names: "adb_token_name (adb_value t) \<noteq> ''(unknown)''" "inj (\<lambda>t. adb_token_name (adb_value t))"
  by (cases t; simp add: adb_value_def adb_token_name_def)
     (auto intro!: injI simp: adb_value_def adb_token_name_def split: adb_type.splits)

lemma cfg_names: "cfg_token_name (cfg_value t) \<noteq> ''(unknown)''"
  by (cases t; simp add: cfg_value_def cfg_token_name_def TOKEN_NAMES_def)

lemma distinct_names: "distinct (map fst TOKEN_NAMES)" "distinct (map (fst \<circ> snd) TOKEN_NAMES)"
  by code_simp+

lemma literals_are_keywords:
  "map (\<lambda>(k, w). (cfg_value k, w)) KEYWORDS = List.map_filter (\<lambda>(v, _, l). map_option (Pair v) l) TOKEN_NAMES"
  by code_simp

section \<open>The dump of a token\<close>

text \<open>A store to the buffer outside its octets is a crash.\<close>

definition poke :: "nat \<Rightarrow> byte \<Rightarrow> bytes \<Rightarrow> bytes run" where
  "poke i c b = (if i < length b then Ret (b[i := c]) else Crash)"

definition pokes :: "nat \<Rightarrow> byte \<Rightarrow> byte \<Rightarrow> bytes \<Rightarrow> bytes run" where
  "pokes i c d b = (case poke i c b of Crash \<Rightarrow> Crash | Ret b1 \<Rightarrow> poke (i + 1) d b1)"

definition escape_of :: "byte \<Rightarrow> byte option" where
  "escape_of c = (if c = CHR 0x0A then Some CHR ''n'' else if c = CHR 0x0D then Some CHR ''r''
     else if c = CHR 0x09 then Some CHR ''t'' else None)"

text \<open>The loop: \<open>v\<close> are the octets of the token from \<open>j\<close> on.\<close>

fun dump_value :: "nat \<Rightarrow> bytes \<Rightarrow> bytes \<Rightarrow> (nat \<times> bytes) run" where
  "dump_value i [] b = Ret (i, b)"
| "dump_value i (c # v) b =
     (if i < 255
      then (case escape_of c of
              Some e \<Rightarrow>
                if 253 < i then Ret (i, b)
                else (case pokes i CHR 0x5C e b of Crash \<Rightarrow> Crash | Ret b1 \<Rightarrow> dump_value (i + 2) v b1)
            | None \<Rightarrow> (case poke i c b of Crash \<Rightarrow> Crash | Ret b1 \<Rightarrow> dump_value (i + 1) v b1))
      else Ret (i, b))"

definition dump_token :: "(int \<Rightarrow> bytes) \<Rightarrow> int \<Rightarrow> 'k TOKEN \<Rightarrow> bytes \<Rightarrow> bytes run" where
  "dump_token token_name type t b0 =
     (case dump_value 0 (take (nat (tk_length t)) (tk_value t)) b0 of
        Crash \<Rightarrow> Crash
      | Ret (i, b) \<Rightarrow>
          (case poke i NUL b of
             Crash \<Rightarrow> Crash
           | Ret b1 \<Rightarrow>
               (case cstr b1 of
                  None \<Rightarrow> Crash
                | Some s \<Rightarrow> Ret (''got a token {'' @ token_name type @ ''('' @ fmt_d type @ ''), '' @ [CHR 0x27] @ s @
                                [CHR 0x27] @ '', '' @ fmt_d (tk_length t) @ ''}''))))"

text \<open>What is written: the escaped octets of the longest prefix that fits into 255.\<close>

definition escaped :: "bytes \<Rightarrow> bytes" where
  "escaped v = concat (map (\<lambda>c. case escape_of c of Some e \<Rightarrow> [CHR 0x5C, e] | None \<Rightarrow> [c]) v)"

fun fitting :: "nat \<Rightarrow> bytes \<Rightarrow> bytes" where
  "fitting n [] = []"
| "fitting n (c # v) = (if length (escaped [c]) \<le> n then escaped [c] @ fitting (n - length (escaped [c])) v else [])"

lemma length_fitting: "length (fitting n v) \<le> n"
  by (induction n v rule: fitting.induct) auto

lemma escaped_fits: "length (escaped v) \<le> n \<Longrightarrow> fitting n v = escaped v"
  by (induction n v rule: fitting.induct) (auto simp: escaped_def split: option.splits)

lemma fitting_prefix: "\<exists>k. fitting n v = escaped (take k v)"
proof (induction n v rule: fitting.induct)
  case (2 n c v)
  show ?case
  proof (cases "length (escaped [c]) \<le> n")
    case True
    with 2 obtain k where "fitting (n - length (escaped [c])) v = escaped (take k v)" by blast
    with True have "fitting n (c # v) = escaped (take (Suc k) (c # v))" by (simp add: escaped_def)
    then show ?thesis ..
  next
    case False
    then have "fitting n (c # v) = escaped (take 0 (c # v))" by (simp add: escaped_def)
    then show ?thesis ..
  qed
qed (simp add: escaped_def)

lemma dump_value_fits:
  assumes "length b = 256" and "i \<le> 255"
  shows "\<exists>b1. dump_value i v b = Ret (i + length (fitting (255 - i) v), b1) \<and> length b1 = 256 \<and>
    take (i + length (fitting (255 - i) v)) b1 = take i b @ fitting (255 - i) v"
  using assms
proof (induction i v b rule: dump_value.induct)
  case (2 i c v b)
  show ?case
  proof (cases "escape_of c")
    case None
    then have e: "escaped [c] = [c]" by (simp add: escaped_def)
    show ?thesis
    proof (cases "i < 255")
      case True
      let ?b = "b[i := c]"
      have p: "poke i c b = Ret ?b" using True "2.prems" by (simp add: poke_def)
      have t: "take (i + 1) ?b = take i b @ [c]" using True "2.prems" by (simp add: take_Suc_conv_app_nth)
      from "2.IH"(1) [OF True None p] True "2.prems" obtain b1 where
        "dump_value (i + 1) v ?b = Ret (i + 1 + length (fitting (255 - (i + 1)) v), b1)" "length b1 = 256"
        "take (i + 1 + length (fitting (255 - (i + 1)) v)) b1 = take (i + 1) ?b @ fitting (255 - (i + 1)) v" by auto
      with True None p t e show ?thesis by simp
    qed (use "2.prems" e in simp)
  next
    case (Some d)
    then have e: "escaped [c] = [CHR 0x5C, d]" by (simp add: escaped_def)
    show ?thesis
    proof (cases "i \<le> 253")
      case True
      let ?b = "b[i := CHR 0x5C, i + 1 := d]"
      have i: "i < 255" "\<not> 253 < i" using True by simp_all
      have p: "pokes i CHR 0x5C d b = Ret ?b" using True "2.prems" by (simp add: poke_def pokes_def)
      have t: "take (i + 2) ?b = take i b @ [CHR 0x5C, d]"
        using True "2.prems" by (simp add: numeral_2_eq_2 take_Suc_conv_app_nth take_update_swap list_update_append)
      from "2.IH"(2) [OF i(1) Some i(2) p] True "2.prems" obtain b1 where
        "dump_value (i + 2) v ?b = Ret (i + 2 + length (fitting (255 - (i + 2)) v), b1)" "length b1 = 256"
        "take (i + 2 + length (fitting (255 - (i + 2)) v)) b1 = take (i + 2) ?b @ fitting (255 - (i + 2)) v" by auto
      with True Some p t e i show ?thesis by simp
    next
      case False
      then show ?thesis using "2.prems" e Some by (auto simp: not_le)
    qed
  qed
qed simp

theorem dump_token_fits:
  assumes "length b = 256" and "NUL \<notin> set (take (nat (tk_length t)) (tk_value t))"
  shows "dump_token names type t b = Ret (''got a token {'' @ names type @ ''('' @ fmt_d type @ ''), '' @ [CHR 0x27] @
    fitting 255 (take (nat (tk_length t)) (tk_value t)) @ [CHR 0x27] @ '', '' @ fmt_d (tk_length t) @ ''}'')"
proof -
  let ?v = "take (nat (tk_length t)) (tk_value t)"
  let ?f = "fitting 255 ?v"
  from dump_value_fits [OF assms(1), of 0 ?v] obtain b1 where
    d: "dump_value 0 ?v b = Ret (length ?f, b1)" "length b1 = 256" "take (length ?f) b1 = ?f" by auto
  have l: "length ?f < 256" using length_fitting [of 255 ?v] by simp
  then have p: "poke (length ?f) NUL b1 = Ret (b1[length ?f := NUL])" using d(2) by (simp add: poke_def)
  have b1: "b1[length ?f := NUL] = ?f @ NUL # drop (Suc (length ?f)) b1"
    using l d(2,3) by (simp add: upd_conv_take_nth_drop)
  have "NUL \<notin> set (escaped w)" if "NUL \<notin> set w" for w
    using that by (auto simp: escaped_def escape_of_def split: option.splits if_splits)
  moreover obtain k where "?f = escaped (take k ?v)" using fitting_prefix by blast
  moreover have "NUL \<notin> set (take k ?v)" using assms(2) by (meson in_set_takeD)
  ultimately have "NUL \<notin> set ?f" by metis
  then have "cstr (b1[length ?f := NUL]) = Some ?f" unfolding b1 by (rule cstr_append)
  then show ?thesis by (simp add: dump_token_def d(1) p)
qed

section \<open>The dump of a lexer\<close>

definition bound :: "int \<Rightarrow> int \<Rightarrow> int \<Rightarrow> int" where
  "bound x lo hi = (if x < lo then lo else if hi < x then hi else x)"

text \<open>\<^verbatim>\<open>strncpy\<close>: \<open>n\<close> octets of the buffer, the string and then zeros.\<close>

definition strncpy :: "bytes \<Rightarrow> bytes \<Rightarrow> nat \<Rightarrow> bytes run" where
  "strncpy b s n =
     (let x = take n (takeWhile (\<lambda>c. c \<noteq> NUL) s)
      in if length b < n then Crash else Ret (x @ replicate (n - length x) NUL @ drop n b))"

definition dump_lexer :: "bytes \<Rightarrow> 'f LEXER \<Rightarrow> bytes \<Rightarrow> bytes run" where
  "dump_lexer path l b0 =
     (let n = nat (bound (lx_pos l - lx_start l) 0 255)
      in case strncpy b0 (drop (nat (lx_start l)) (lx_src l)) n of
           Crash \<Rightarrow> Crash
         | Ret b \<Rightarrow>
             (case poke n NUL b of
                Crash \<Rightarrow> Crash
              | Ret b1 \<Rightarrow>
                  (case cstr b1 of
                     None \<Rightarrow> Crash
                   | Some s \<Rightarrow> Ret (''lexer at '' @ path @ '':'' @ fmt_d (lx_line l) @ '':'' @ fmt_d (lx_col l) @ '', '' @
                       fmt_d (lx_pos l) @ ''/'' @ fmt_d (lx_max l) @ '' s='' @ fmt_d (lx_start l) @ '' '' @ [CHR 0x27] @ s @ [CHR 0x27]))))"

lemma bound_range: "lo \<le> hi \<Longrightarrow> lo \<le> bound x lo hi \<and> bound x lo hi \<le> hi"
  by (simp add: bound_def)

lemma dump_lexer_fits:
  assumes "length b = 256" and n: "n = nat (bound (lx_pos l - lx_start l) 0 255)"
  shows "dump_lexer path l b = Ret (''lexer at '' @ path @ '':'' @ fmt_d (lx_line l) @ '':'' @ fmt_d (lx_col l) @ '', '' @
      fmt_d (lx_pos l) @ ''/'' @ fmt_d (lx_max l) @ '' s='' @ fmt_d (lx_start l) @ '' '' @ [CHR 0x27] @
      take n (takeWhile (\<lambda>c. c \<noteq> NUL) (drop (nat (lx_start l)) (lx_src l))) @ [CHR 0x27])"
proof -
  let ?x = "take n (takeWhile (\<lambda>c. c \<noteq> NUL) (drop (nat (lx_start l)) (lx_src l)))"
  have le: "n \<le> 255" using bound_range [of 0 255 "lx_pos l - lx_start l"] by (simp add: n nat_le_iff)
  let ?b = "?x @ replicate (n - length ?x) NUL @ drop n b"
  have s: "strncpy b (drop (nat (lx_start l)) (lx_src l)) n = Ret ?b" using le assms(1) by (simp add: strncpy_def Let_def)
  have lb: "length ?b = 256" using le assms(1) by (simp add: min_def)
  then have p: "poke n NUL ?b = Ret (?b[n := NUL])" using le by (simp only: poke_def) simp
  have nx: "NUL \<notin> set ?x" by (auto dest!: in_set_takeD dest: set_takeWhileD)
  have "cstr (?b[n := NUL]) = Some ?x"
  proof (cases "length ?x < n")
    case True
    then have "?b[n := NUL] = ?x @ NUL # (replicate (n - length ?x - 1) NUL @ drop n b)[n - length ?x - 1 := NUL]"
      by (simp add: list_update_append Cons_replicate_eq replicate_app_Cons_same flip: replicate_Suc) (cases "n - length ?x"; simp)
    then show ?thesis using cstr_append [OF nx] by simp
  next
    case False
    then have "length ?x = n" by simp
    then have "?b[n := NUL] = ?x @ NUL # tl (drop n b)" using le assms(1) by (cases "drop n b") (auto simp: list_update_append)
    then show ?thesis using cstr_append [OF nx] by simp
  qed
  then show ?thesis using s p by (simp add: dump_lexer_def n [symmetric] Let_def)
qed

end
