(* ===== verification/Spec2Isabelle.thy ===== *)
theory Spec2Isabelle
  imports Examples_Session Msg_Calls Serving MD5_Test Driver Seed Tokens
begin

text \<open>
  A verification development for \<^verbatim>\<open>pgrouter\<close>, a router between PostgreSQL clients and a replicated set
  of PostgreSQL backends. It is a shallow embedding of the C sources under \<^verbatim>\<open>src/\<close>: every function
  that carries logic is a HOL function over explicit state, and the theorems below are about these
  functions. Paths are relative to \<^verbatim>\<open>src/\<close>.

  The program. \<^verbatim>\<open>main.c\<close> reads the options, the configuration (\<^verbatim>\<open>config.c\<close>, keywords in
  \<^verbatim>\<open>config.gen.c\<close>) and the password file (\<^verbatim>\<open>authdb.c\<close>) into one \<^verbatim>\<open>CONTEXT\<close> (\<^verbatim>\<open>pgrouter.h\<close>, \<^verbatim>\<open>init.c\<close>),
  opens the sockets (\<^verbatim>\<open>net.c\<close>) and starts threads that share the context: the watcher
  (\<^verbatim>\<open>watcher.c\<close>) writes the health of the backends into it, the monitor (\<^verbatim>\<open>monitor.c\<close>) reports it, and
  each worker (\<^verbatim>\<open>worker.c\<close>) serves one client at a time: it accepts the client with an MD5 challenge
  (\<^verbatim>\<open>conn.c\<close>, \<^verbatim>\<open>md5.c\<close>, \<^verbatim>\<open>rand.c\<close>), chooses a reader by weight and the writer, connects to both, and moves
  messages between the sockets through two buffers (\<^verbatim>\<open>msg.c\<close>). Queries go to the reader; a query
  that the reader refuses as read-only (SQLSTATE 25006) is replayed on the writer from a log that
  the client's buffer keeps, and transactions go to the writer.

  Foundations.
  \<^item> \<open>Prelude\<close>: octets, C strings, the character classes, \<^verbatim>\<open>memcmp\<close> and \<^verbatim>\<open>strncasecmp\<close>, integers of 32
    bits (\<open>int32\<close>), decimal text; \<open>'a run\<close> has \<open>Crash\<close> for a use of memory outside an object.
  \<^item> \<open>Sysio\<close>: a world of descriptors. The results of reads (\<open>rdq\<close>), the sizes of writes (\<open>wrq\<close>) and
    the results of socket calls (\<open>netq\<close>) are inputs, so every theorem holds for every schedule of short
    reads, short writes and failures; what was written is in \<open>sent\<close>, what was closed in \<open>closed\<close>.

  Message buffers (\<^verbatim>\<open>msg.c\<close>). \<open>Msg\<close> has the \<^verbatim>\<open>MBUF\<close> as a record and one definition per
  function. \<open>Msg_Laws\<close> shows its invariant and the meaning of receive; \<open>Msg_Stream\<close> shows that relay
  and discard move exactly one message of the stream; \<open>Msg_Replay\<close> that send and resend
  implement a log of messages (the locale \<open>replay_log\<close>, interpreted on the buffer), also through the
  overflow file; \<open>Msg_Calls\<close> that no sequence of calls leaves the buffer; \<open>Msg_Frame\<close> which
  descriptors a call can touch; \<open>Sqlstate\<close> what \<^verbatim>\<open>pgr_mbuf_iserror\<close> finds. \<open>Msg_Test\<close> is the test
  program of \<^verbatim>\<open>msg.c\<close>; \<open>Msg_Test_File\<close>, \<open>Msg_Test_Pass\<close> and \<open>Msg_Test_Laws\<close> show that all its checks
  hold in the model.

  MD5 (\<^verbatim>\<open>md5.c\<close>). \<open>MD5\<close> has the macros as functions and the unrolled body as a list of 64 steps;
  \<open>MD5_Block\<close> and \<open>MD5_Laws\<close> show it equal to the indexed loop of RFC 1321 and the streaming
  interface equal to the digest of the whole message; \<open>MD5_Test\<close> is the test program.

  Connections (\<^verbatim>\<open>conn.c\<close>, \<^verbatim>\<open>rand.c\<close>, \<^verbatim>\<open>net.c\<close>). \<open>Rand\<close>, \<open>Seed\<close> (the seed of each
  thread and the calls of several threads), \<open>Net\<close>, \<open>Conn\<close>; \<open>Conn_Laws\<close> shows the
  round trip of startup messages and the check of a password, \<open>Auth_Run\<close> the dialogue with a client,
  \<open>Connect_Run\<close> the dialogue with a backend and that the two sides of the program fit together,
  \<open>Conn_Safety\<close> what holds whatever the client sends, \<open>Conn_Fds\<close> which descriptors a connection
  holds, \<open>Net_Laws\<close> full writes and reads, endpoints and listening.

  Workers (\<^verbatim>\<open>worker.c\<close>). \<open>Worker\<close> has \<^verbatim>\<open>determine_backends\<close>, and \<^verbatim>\<open>handle_client\<close> as a machine: a
  session with a program point (\<open>hc_pc\<close>), \<open>hc_next\<close> its step, \<open>hc_step\<close> the step relation, \<open>hc_run\<close> the
  run. \<open>Backend_Laws\<close> shows the choice of backends; \<open>Session_Laws\<close>, \<open>Routing\<close> and \<open>Reroute\<close> the course
  of a query; \<open>Opening\<close> composes them with the login of the client and the two connections to a whole
  session, and shows what a full log does; \<open>Transactions\<close> the course of a BEGIN; \<open>Session_Inv\<close> the
  invariant of all reachable sessions; \<open>Serving\<close> has the accepting loop.

  Password file (\<^verbatim>\<open>authdb.c\<close>). \<open>Context\<close> and \<open>Lexer\<close> (the scanner that the two parsers have in common,
  with its laws in \<open>Lexer_Laws\<close>), \<open>Authdb\<close>; \<open>Authdb_Laws\<close> shows the round trip of a table,
  \<open>Authdb_Total\<close> that loading always returns; \<open>Authtest\<close> has the two test programs, \<open>Tokens\<close> the dumps
  of tokens and lexers of both parsers.

  Configuration (\<^verbatim>\<open>config.c\<close>). \<open>Config_Lex\<close> has the keywords and the lexer functions, \<open>Config\<close> the
  loop of \<^verbatim>\<open>emit\<close>, the parser (\<open>cfg_parse\<close>, one step function per scope) and \<^verbatim>\<open>pgr_configure\<close>.
  \<open>Config_Laws\<close> has the tokens of a text, \<open>Config_Text\<close> configurations as data with their text and
  the parse of that text, \<open>Config_Apply\<close> the meaning of a configuration (\<open>configured\<close>) and that
  \<^verbatim>\<open>pgr_configure\<close> computes it, \<open>Config_Total\<close> that it returns on every text, \<open>Config_Units\<close> what
  numbers with a unit are read as.

  Watcher, monitor, main program. \<open>Watcher\<close> has a round of \<^verbatim>\<open>do_watcher\<close> in its three phases (cache,
  probe, update); \<open>Watcher_Laws\<close> shows what a round writes, and how the worker takes it. \<open>Monitor\<close>
  has the report. \<open>Log\<close> has the levels, lines and dumps of \<^verbatim>\<open>log.c\<close> and \<^verbatim>\<open>abort.c\<close>. \<open>Daemon\<close> has
  \<^verbatim>\<open>daemonize\<close> as a sequence of phases over the state of the process, \<open>Daemon_Laws\<close> what holds after
  them. \<open>Supervisor\<close> has the start of \<^verbatim>\<open>main\<close> and its signals, \<open>Supervisor_Laws\<close> the context that the
  start makes of the texts of the two files, the user the program then runs as, and what no reload
  changes. \<open>Driver\<close> is the test driver (\<^verbatim>\<open>driver/main.c\<close>). \<open>Samples\<close>, \<open>Examples\<close>,
  \<open>Examples_Run\<close> and \<open>Examples_Session\<close> hold concrete inputs and the properties at them.

  Locks (\<^verbatim>\<open>locks.inc.c\<close> and its callers). \<open>Locks\<close> has the calls each operation makes and threads that
  make them in any interleaving (\<open>lock_step\<close>); an order of the locks (the locale
  \<open>lock_discipline\<close>, interpreted on the operations of the program) excludes a deadlock.

  Loops. Loops that consume their input are total functions with a measure (octets left in the
  text, octets still to write, steps of a block); the loops on sockets are
  \<^theory_text>\<open>partial_function (option)\<close>, and not returning is the value \<open>None\<close>: the theorems on
  queries, connections, authentication and configurations state the value that is returned. No
  definition uses fuel.

  Parameters. \<^verbatim>\<open>inet_pton\<close> (\<open>pton\<close>), \<^verbatim>\<open>rand_r\<close> (\<open>rnd\<close>), the contents of files (\<open>fs\<close>), libpq (\<open>pq\<close>), the
  results of \<^verbatim>\<open>select\<close>, \<^verbatim>\<open>accept\<close>, \<^verbatim>\<open>getopt_long\<close>, \<^verbatim>\<open>pthread_create\<close> and the system calls of \<^verbatim>\<open>daemonize\<close>,
  and the conversion of a decimal to a number (\<open>cents\<close>). \<^verbatim>\<open>char\<close> is signed and \<^verbatim>\<open>int\<close> has 32 bits, as on x86-64.

  Not modelled. What a thread does to the context inside a critical section is one step in the
  functional models (the watcher's two sections are separate, with the context between them
  arbitrary in \<open>watch_round\<close>), and \<open>Locks\<close> has the calls around the sections only; memory allocation,
  which succeeds, and sharing of strings, which are values; where the functions call the log, and
  the texts they log; \<^verbatim>\<open>pgr_mbuf_dump\<close> and the test program of \<^verbatim>\<open>config.c\<close>,
  which print a buffer and a context.
\<close>

section \<open>Messages and buffers\<close>



text \<open>The 32-bit fields of a message are read without their top octet.\<close>

lemma u32_loses_top: "pgr_mbuf_u32 m i < 2 ^ 24"
proof -
  have "int (unat (u32_at b p)) < int (2 ^ 24)" for b p
    unfolding u32_at_def of_nat_less_iff by (rule unat_u32_of_bound)
  then show ?thesis by (simp add: pgr_mbuf_u32_def split: option.splits)
qed

text \<open>
  C26: On an ErrorResponse pgr_mbuf_iserror compares the code it is given with the first five
  octets of the first C field, and answers 1 when there is none.
\<close>

lemma error_code_found:
  assumes "mbuf_wf m" and "window m = error_msg fs @ rest" and "\<And>x. x \<in> set fs \<Longrightarrow> field_ok x"
  shows "pgr_mbuf_iserror m (Some code) = (case sqlstate fs of None \<Rightarrow> 1 | Some c \<Rightarrow> memcmp c (take 5 code))"
  by (rule iserror_code [OF assms])

section \<open>The digest\<close>

text \<open>
  C27: The streaming digest is MD5: the hexadecimal digest of a message fed in any number of
  parts is that of the reference definition (padding, the length, the 64 steps given by their
  round functions, shifts and constants) of the concatenation.
\<close>

lemma digest_of_parts:
  assumes "md5_blank c" and "\<And>p. p \<in> set ps \<Longrightarrow> length p < 2 ^ 64"
  shows "fst (pgr_md5_hex (foldl pgr_md5_update (pgr_md5_init c) ps)) = md5_digest (concat ps)"
  by (rule md5.parts [OF assms])

text \<open>
  C28: The unrolled compression of one block, 64 lines with rotated registers, computes the
  same as the indexed loop of the reference.
\<close>

lemma unrolled_block: "body_block p q = ref_block p q"
  by (rule body_block_ref)

section \<open>Startup and authentication\<close>


text \<open>The type of a startup message depends on its length only.\<close>

lemma startup_kind:
  assumes "idle m k fd" "startup_len (cn_params c) \<le> k" "startup_len (cn_params c) < 2 ^ 24"
  shows "pgr_mbuf_msgtype (snd (startup_message m c)) =
    (if startup_len (cn_params c) = 16 then MSG_CANCEL else MSG_STARTUP)"
  using startup_message_idle [OF assms(1,2)] startup_type [OF assms] by simp

text \<open>The password message of a backend connection is what \<^verbatim>\<open>check_auth\<close> computes for the same hash and salt.\<close>

lemma password_accepted:
  assumes "idle m k fd" "41 \<le> k" "cn_pwhash c = Some h" "length h = 32"
    and "cn_pwhash c' = Some h'" "length h' < 2 ^ 64" "cn_salt c' = cn_salt c"
  shows "\<exists>m'. password_message m c = Some (0, m') \<and>
    check_auth c' m' = Some (memcmp (md5_answer h (cn_salt c)) (md5_answer h' (cn_salt c)))"
  using password_message_idle [OF assms(1-4)] assms(5-)
    check_auth_buffered [OF assms(1) _ assms(2), of "md5_answer h (cn_salt c)" c'] by auto

text \<open>
  C11: A client that sends a startup message and a password message is answered with an MD5
  request that carries the salt, then with AuthenticationOk and ReadyForQuery when its answer
  is the digest of the stored hash and the salt, and with the error 28P01 otherwise (also for
  an unknown user); pgr_conn_accept returns 0 in the first case only, and reads and writes
  nothing else.
\<close>

lemma accept_run:
  assumes "cn_fd c = fd" "fd \<noteq> MBUF_SAME_FD" and "length (cn_salt c) = 4" and "cn_pwhash c = None"
    and "dialogue fd [startup_bytes ps, pw_bytes d] w"
    and "\<And>p. p \<in> set ps \<Longrightarrow> param_ok p" "startup_len ps \<le> 512" "startup_len ps \<noteq> 16"
    and "length d = 32" and "\<And>u h. pgr_auth_find ctx u = Some h \<Longrightarrow> length h < 2 ^ 64"
    and "length (auth_failed_text (cn_username (note_params ctx ps c))) \<le> 490"
  shows "pgr_conn_accept ctx c w =
    Some (Ret (if answer_ok (note_params ctx ps c) d then 0 else 1, note_params ctx ps c,
      talked fd [] (auth_request (cn_salt c) @
        (if answer_ok (note_params ctx ps c) d then auth_done else auth_error (cn_username (note_params ctx ps c)))) w))"
  by (rule accept_dialogue [OF assms])

section \<open>The password file\<close>

text \<open>
  C30: Loading the text that the table of users is printed as gives the table back, for user
  names that are barewords and hashes that are barewords or can be quoted.
\<close>

lemma authdb_roundtrip:
  assumes "authdb_file c = Some path" "fs path = Some (Some (adb_dump c0))" "length (adb_dump c0) \<le> 2147483647"
    and "length (authdb_usernames c0) = length (authdb_md5hashes c0)"
    and "\<And>e. e \<in> set (zip (authdb_usernames c0) (authdb_md5hashes c0)) \<Longrightarrow> entry_ok e"
  shows "pgr_authdb fs c =
    Some (0, c\<lparr>authdb_usernames := authdb_usernames c0, authdb_md5hashes := authdb_md5hashes c0\<rparr>)"
  using authdb_of_lines [of c path fs "zip (authdb_usernames c0) (authdb_md5hashes c0)"] assms
  by (simp add: adb_dump_def)

section \<open>The choice of backends\<close>

lemma writer_is_last_master:
  assumes ok: "weights_ok (backends c)" and b: "backends c = as @ b # bs" "be_role b = BACKEND_ROLE_MASTER"
    and last: "\<And>x. x \<in> set bs \<Longrightarrow> be_role x \<noteq> BACKEND_ROLE_MASTER"
    and d: "determine_backends k c rd wr = (rc, rd', wr')"
  shows "cn_hostname wr' = Some (be_hostname b) \<and> cn_port wr' = be_port b \<and>
    cn_index wr' = int (length as) \<and> cn_serial wr' = be_serial b"
proof -
  obtain wr2 where "last_master c 0 (backends c) wr = use_backend c (length as) b wr2"
    using last_master_found [OF b(2), of bs c 0 as wr] last b(1) by auto
  moreover have "wr' = last_master c 0 (backends c) wr"
    using d ok weigh_running [of 0 "backends c" c 0 wr]
    by (auto simp: determine_backends_def weights_ok_def split: prod.splits if_splits option.splits)
  ultimately show ?thesis by (simp add: use_backend_def)
qed

section \<open>Witnesses\<close>

definition ex_mbuf :: "nat \<Rightarrow> int \<Rightarrow> mbuf" where
  "ex_mbuf k fd = pgr_mbuf_setfd (pgr_mbuf_new k) fd fd"

lemma ex_mbuf_idle: "0 \<le> fd \<Longrightarrow> idle (ex_mbuf k fd) k fd"
  unfolding ex_mbuf_def by (rule idle_new) (simp add: MBUF_SAME_FD_def)

text \<open>A buffer of 16 octets that holds the beginning of a row; the rest of it comes in two reads.\<close>

definition ex_relay_world :: world where
  "ex_relay_world = ex_world (\<lambda>fd. if fd = 5 then [Chunk (take 2 (drop 6 ex_row)), Chunk (drop 8 ex_row @ ex_done)] else [])"

lemma ex_relay:
  "mbuf_wf (take_in (take 6 ex_row) (ex_mbuf 16 5))" "5 \<le> available (take_in (take 6 ex_row) (ex_mbuf 16 5))"
  "infd (take_in (take 6 ex_row) (ex_mbuf 16 5)) = 5" "outfd (take_in (take 6 ex_row) (ex_mbuf 16 5)) = 5"
  "files ex_relay_world x = None" "writable x ex_relay_world"
  "unread (take_in (take 6 ex_row) (ex_mbuf 16 5)) ex_relay_world = ex_row @ ex_done"
  using idle_take_in [OF ex_mbuf_idle [of 5 16], of "take 6 ex_row"] ex_mbuf_idle [of 5 16]
  by (simp_all add: unread_def input_def ex_relay_world_def ex_world_def writable_def idle_def ex_row_def be32_def ex_done_def)

lemma ex_row_complete: "complete (ex_row @ ex_done)" "first_msg (ex_row @ ex_done) = ex_row"
  "after_msg (ex_row @ ex_done) = ex_done"
  using ex_whole by (simp_all add: complete_def whole_def wire_size_append)


lemma error_code_found_witness:
  "pgr_mbuf_iserror (take_in (error_msg ex_fields) (ex_mbuf 64 5)) (Some ''25006'') = 0"
  using error_code_found [of "take_in (error_msg ex_fields) (ex_mbuf 64 5)" ex_fields "[]" "''25006''"]
    idle_take_in [OF ex_mbuf_idle [of 5 64], of "error_msg ex_fields"] ex_fields_ok by simp

lemma digest_of_parts_witness:
  "fst (pgr_md5_hex (foldl pgr_md5_update (pgr_md5_init md5_zero) [''a'', ''bc''])) = md5_digest ''abc''"
  using digest_of_parts [OF blank_zero, of "[''a'', ''bc'']"] by force

definition ex_client :: CONNECTION where
  "ex_client = (pgr_conn_init 0)\<lparr>cn_fd := 5, cn_params := ex_params, cn_pwhash := Some ex_hash\<rparr>"


lemma startup_kind_witness:
  "pgr_mbuf_msgtype (snd (startup_message (ex_mbuf 512 5) ex_client)) = MSG_STARTUP"
  using startup_kind [OF ex_mbuf_idle [of 5 512], of ex_client] ex_params_ok by (simp add: ex_client_def)

lemma password_accepted_witness:
  "\<exists>m'. password_message (ex_mbuf 512 5) ex_client = Some (0, m') \<and> check_auth ex_client m' = Some 0"
  using password_accepted [OF ex_mbuf_idle [of 5 512], of ex_client ex_hash ex_client ex_hash]
  by (simp add: ex_client_def memcmp_eq_0 [THEN iffD2, OF refl refl])

lemma writer_is_last_master_witness:
  "cn_hostname (snd (snd (determine_backends 0 ex_context (pgr_conn_init 0) (pgr_conn_init 0)))) = Some ''10.0.0.1''"
proof -
  let ?bs = "[ex_backend BACKEND_ROLE_SLAVE 3, ex_backend BACKEND_ROLE_SLAVE 1]"
  obtain rc rd wr where d: "determine_backends 0 ex_context (pgr_conn_init 0) (pgr_conn_init 0) = (rc, rd, wr)"
    by (metis surj_pair)
  have b: "backends ex_context = [] @ ex_backend BACKEND_ROLE_MASTER 0 # ?bs" by (simp add: ex_context_def)
  have m: "be_role (ex_backend BACKEND_ROLE_MASTER 0) = BACKEND_ROLE_MASTER" by (simp add: ex_backend_def)
  have "be_role x \<noteq> BACKEND_ROLE_MASTER" if "x \<in> set ?bs" for x
    using that by (auto simp: ex_backend_def backend_role_defs)
  from writer_is_last_master [OF ex_backends(1) b m this d] show ?thesis by (simp add: d ex_backend_def)
qed

text \<open>A query, two messages in answer, the end of the answer.\<close>

definition ex_io :: "int \<Rightarrow> rd list" where
  "ex_io fd = (if fd = 5 then [Chunk (take 7 ex_query), Chunk (drop 7 ex_query)]
     else if fd = 6 then [Chunk (ex_row @ ex_done), Chunk ex_ready] else [])"

lemma ex_nonempty [simp]: "ex_query \<noteq> []" "ex_row \<noteq> []" "ex_ready \<noteq> []" "ex_done \<noteq> []"
  by (simp_all add: ex_query_def ex_row_def ex_ready_def ex_done_def be32_def)

lemma ex_io_streams: "stream (ex_io 5) = ex_query" "stream (ex_io 6) = ex_row @ ex_done @ ex_ready"
  by (simp_all add: ex_io_def)

lemma routed_query_witness:
  "\<exists>s'. hc_reach (ex_session ex_io) s' \<and> hc_pc s' = TOP \<and> asked s' = [] \<and>
    out_of s' 6 = ex_query \<and> out_of s' 5 = ex_row @ ex_done @ ex_ready \<and> out_of s' 7 = []"
  using routed_query [OF ex_session_ok [of ex_io] _ _ ex_whole(1), of "[]" "[ex_row, ex_done]" ex_ready "[]"]
    ex_whole(4) ex_plain ex_not_begin
  by (simp add: ex_session_views ex_io_streams) blast

definition ex_refusal :: "int \<Rightarrow> rd list" where
  "ex_refusal fd = (if fd = 5 then [Chunk ex_query] else if fd = 6 then [Chunk (error_msg ex_fields @ ex_ready)]
     else if fd = 7 then [Chunk (ex_done @ ex_ready)] else [])"

lemma rerouted_query_witness:
  "\<exists>s'. hc_reach (ex_session ex_refusal) s' \<and> hc_pc s' = TOP \<and>
    out_of s' 6 = ex_query \<and> out_of s' 7 = ex_query \<and> out_of s' 5 = ex_done @ ex_ready"
proof -
  have a: "asked (ex_session ex_refusal) = ex_query" "answers (ex_session ex_refusal) 7 = ex_done @ ex_ready"
    by (auto simp: ex_session_views ex_refusal_def)
  show ?thesis
    using rerouted_query [OF ex_session_ok [of ex_refusal] _ _ ex_whole(1) _ a(1) _ ex_not_begin ex_fields_ok
        ex_whole(4), of "[]" "[ex_done]" ex_ready "[]"] ex_whole(4) ex_plain a(2)
    by (simp add: ex_session_views ex_refusal_def) blast
qed

lemma discard_stream_witness:
  "\<exists>m' w'. pgr_mbuf_discard (take_in (take 6 ex_row) (ex_mbuf 16 5)) ex_relay_world = (0, m', w') \<and> unread m' w' = ex_done"
  using discard_stream [of "take_in (take 6 ex_row) (ex_mbuf 16 5)" ex_relay_world] ex_relay ex_row_complete by auto

lemma wf_reach_witness: "mbuf_wf (fst (pgr_mbuf_setfd (pgr_mbuf_new 8) 3 4, ex_relay_world))"
  by (rule wf_reach [OF mbuf_reach.call [OF mbuf_reach.new [of 8 ex_relay_world], of "Setfd 3 4"]]) simp

lemma writen_short_witness:
  "sent (snd (writen 0 5 ''hello'' 5 ((ex_world (\<lambda>_. []))\<lparr>wrq := \<lambda>_. [Accept 2]\<rparr>))) 5 = ''hehel''"
  using writen_short [of "(ex_world (\<lambda>_. []))\<lparr>wrq := \<lambda>_. [Accept 2]\<rparr>" 5 2 5 "''hello''" 0]
  by (simp add: ex_world_def)

definition ex_forward :: "mbuf \<times> world" where
  "ex_forward = ((ex_mbuf 64 5)\<lparr>outfd := 6\<rparr>, ex_world (\<lambda>fd. if fd = 5 then [Chunk (ex_row @ ex_done)] else []))"

lemma ex_forward:
  "log_ok 6 ex_forward" "history (fst ex_forward) (snd ex_forward) = []"
  "unread (fst ex_forward) (snd ex_forward) = ex_row @ ex_done"
proof -
  have m: "ex_mbuf 64 5 = (pgr_mbuf_new 64)\<lparr>infd := 5, outfd := 5\<rparr>"
    by (simp add: ex_mbuf_def pgr_mbuf_setfd_def MBUF_SAME_FD_def)
  show "log_ok 6 ex_forward" "history (fst ex_forward) (snd ex_forward) = []"
    "unread (fst ex_forward) (snd ex_forward) = ex_row @ ex_done"
    by (simp_all add: ex_forward_def m log_ok_def sendable_def overflow_ok_def mbuf_wf_def pgr_mbuf_new_def
        history_def unread_def window_def available_def input_def ex_world_def)
qed

lemma ex_done_complete: "complete ex_done" "wire_size ex_done = 14" "wire_size (ex_row @ ex_done) = 12"
  using ex_whole by (simp_all add: complete_def whole_def wire_size_append)


definition ex_login :: world where
  "ex_login = ex_world (\<lambda>fd. if fd = 5
     then [Chunk (startup_bytes ex_params), Chunk (pw_bytes (md5_answer ex_hash (replicate 4 NUL)))] else [])"

definition ex_frontend :: CONNECTION where
  "ex_frontend = pgr_conn_frontend (pgr_conn_init 0) 5"

lemma ex_frontend_fields: "cn_fd ex_frontend = 5" "cn_salt ex_frontend = replicate 4 NUL" "cn_pwhash ex_frontend = None"
  "pwhash_inv ex_context ex_frontend"
  using salt_zero [of 0]
  by (simp_all add: ex_frontend_def pgr_conn_frontend_def pgr_conn_init_def pwhash_inv_def RAND_MAX_def)

lemma ex_accepted:
  "\<exists>w'. pgr_conn_accept ex_context ex_frontend ex_login = Some (Ret (0, note_params ex_context ex_params ex_frontend, w'))"
  (is "\<exists>w'. ?P w'")
proof -
  have n: "cn_username (note_params ex_context ex_params ex_frontend) = Some ''alice''"
    "cn_pwhash (note_params ex_context ex_params ex_frontend) = Some ex_hash"
    by (simp_all add: note_params_def ex_params_def note_param_def Let_def ex_find)
  moreover have "length h < 2 ^ 64" if "pgr_auth_find ex_context u = Some h" for u h
    using that by (auto simp: ex_find split: if_splits)
  ultimately show ?thesis
    using accept_dialogue [of ex_frontend 5 ex_params "md5_answer ex_hash (replicate 4 NUL)" ex_login ex_context]
      ex_frontend_fields ex_params_ok
    by (auto simp: ex_login_def ex_world_def dialogue_def answer_ok_def MBUF_SAME_FD_def auth_failed_text_def)
qed

lemma accepted_user_witness: "\<exists>u. pgr_auth_find ex_context u = Some ex_hash \<and>
    cn_username (note_params ex_context ex_params ex_frontend) = Some u"
proof -
  obtain w' where "pgr_conn_accept ex_context ex_frontend ex_login = Some (Ret (0, note_params ex_context ex_params ex_frontend, w'))"
    using ex_accepted by blast
  from accepted_user [OF this ex_frontend_fields(4)] show ?thesis by (auto simp: ex_find split: if_splits)
qed

lemma accept_run_witness:
  "\<exists>w'. pgr_conn_accept ex_context ex_frontend ex_login = Some (Ret (0, note_params ex_context ex_params ex_frontend, w')) \<and>
    sent w' 5 = auth_request (replicate 4 NUL) @ auth_done"
proof -
  have n: "cn_username (note_params ex_context ex_params ex_frontend) = Some ''alice''"
    "cn_pwhash (note_params ex_context ex_params ex_frontend) = Some ex_hash"
    by (simp_all add: note_params_def ex_params_def note_param_def Let_def ex_find)
  moreover have "length h < 2 ^ 64" if "pgr_auth_find ex_context u = Some h" for u h
    using that by (auto simp: ex_find split: if_splits)
  ultimately show ?thesis
    using accept_run [of ex_frontend 5 ex_params "md5_answer ex_hash (replicate 4 NUL)" ex_login ex_context]
      ex_frontend_fields ex_params_ok
    by (simp add: ex_login_def ex_world_def dialogue_def answer_ok_def MBUF_SAME_FD_def auth_failed_text_def)
qed

lemma salt_constant_witness:
  "cn_salt (pgr_conn_init 17) = replicate 4 NUL \<and>
   md5_answer ex_hash (cn_salt (pgr_conn_init 17)) = md5_answer ex_hash (cn_salt (pgr_conn_init RAND_MAX))"
proof -
  have "0 \<le> (17 :: int)" "17 \<le> RAND_MAX" "0 \<le> RAND_MAX" "RAND_MAX \<le> RAND_MAX" by (simp_all add: RAND_MAX_def)
  from salt_constant [OF this] show ?thesis by blast
qed

lemma determine_some_witness:
  "\<exists>i<3. viable (backends ex_context ! i) \<and>
     fst (snd (determine_backends RAND_MAX ex_context (pgr_conn_init 0) (pgr_conn_init 0))) =
     use_backend ex_context i (backends ex_context ! i) (pgr_conn_init 0)"
proof -
  have l: "length (backends ex_context) = 3" by (simp add: ex_context_def)
  have "0 < pgr_rand RAND_MAX 0 (shares (backends ex_context))" "0 \<le> RAND_MAX" "RAND_MAX \<le> RAND_MAX"
    by (simp_all add: ex_backends ex_rand) (simp add: RAND_MAX_def)
  from determine_some [OF ex_backends(1) this, of "pgr_conn_init 0" "pgr_conn_init 0"] show ?thesis by (auto simp: l)
qed

lemma determine_zero_witness:
  "fst (snd (determine_backends 0 ex_context (pgr_conn_init 0) (pgr_conn_init 0))) =
     use_backend ex_context 0 (ex_backend BACKEND_ROLE_MASTER 0) (pgr_conn_init 0) \<and>
   \<not> viable (ex_backend BACKEND_ROLE_MASTER 0)"
proof -
  have "pgr_rand 0 0 (shares (backends ex_context)) = 0" "shares (backends ex_context) \<noteq> 0"
    by (simp_all add: ex_backends ex_rand)
  from determine_zero [OF ex_backends(1) this(2,1), of "pgr_conn_init 0" "pgr_conn_init 0"] show ?thesis
    by (simp add: viable_def ex_backend_def) (simp add: ex_context_def ex_backend_def)
qed

lemma determine_none_witness:
  "fst (determine_backends 0 (ex_context\<lparr>backends := []\<rparr>) (pgr_conn_init 0) (pgr_conn_init 0)) = -1"
  using determine_none [of "ex_context\<lparr>backends := []\<rparr>" 0 "pgr_conn_init 0" "pgr_conn_init 0"] by (simp add: weights_ok_def)


text \<open>A session with a client that closes its side at once, and a step of one that runs.\<close>

lemma ex_reads_end:
  assumes "infd m = 5" "files w 5 = None" "rdq w 5 = []" "available m = 0"
  shows "pgr_mbuf_recv m w = (0, m, w)"
  using assms by (subst pgr_mbuf_recv.simps) (auto simp: sys_read_def)

lemma ex_gone:
  "\<exists>s. handle_client (\<lambda>_ _. None) (\<lambda>_. 0) c 5 (ex_world (\<lambda>_. [])) = Some (Ret s)"
proof -
  let ?c = "pgr_conn_frontend (pgr_conn_init 0) 5" and ?w = "ex_world (\<lambda>_. [])"
  let ?m = "pgr_mbuf_setfd (pgr_mbuf_new 512) 5 5"
  have m: "idle ?m 512 5" by (intro idle_new) (simp add: MBUF_SAME_FD_def)
  then have z: "available ?m = 0" "infd ?m = 5" by (simp_all add: idle_def available_def)
  have r: "pgr_mbuf_recv ?m ?w = (0, ?m, ?w)" using z by (intro ex_reads_end) (simp_all add: ex_world_def)
  have t: "pgr_mbuf_msgtype ?m = -1" using z by (simp add: pgr_mbuf_msgtype_def)
  have "schar (CHR ''p'') = 112" by (simp add: schar_def uchar_def)
  then have "pgr_conn_accept c ?c ?w = Some (Ret (-1, ?c, ?w))"
    using r t by (simp add: pgr_conn_accept_def pgr_conn_frontend_def accept_loop.simps [of _ _ ?m] msg_constants)
  then show ?thesis
    by (simp add: handle_client_def hc_open_def Let_def shutdown_run)
qed

lemma client_served_witness:
  "\<exists>w1. worker_serve (\<lambda>_ _. None) (\<lambda>_. 0) 5 ex_context (ex_world (\<lambda>_. [])) = Some (Ret (ex_context, w1)) \<and>
     2 \<le> count_list (world.closed w1) 5"
proof -
  obtain s where "handle_client (\<lambda>_ _. None) (\<lambda>_. 0) (ex_context\<lparr>fe_conns := fe_conns ex_context + 1\<rparr>) 5 (ex_world (\<lambda>_. [])) = Some (Ret s)"
    using ex_gone by blast
  then have s: "worker_serve (\<lambda>_ _. None) (\<lambda>_. 0) 5 ex_context (ex_world (\<lambda>_. [])) = Some (Ret (ex_context, sys_close 5 (hc_world s)))"
    by (simp add: worker_serve_def Let_def)
  from client_served [OF s] s show ?thesis by auto
qed

lemma ex_started: "started (ex_session q)"
  using ex_session_ok [of q]
  by (simp add: started_def ex_session_eq ex_conn_def mbuf_wf_def pgr_mbuf_new_def)

lemma session_isolated_witness:
  "sent (hc_world (hc_top (ex_session ex_io))) 8 = sent (hc_world (ex_session ex_io)) 8"
proof -
  have "hc_reach (ex_session ex_io) (hc_top (ex_session ex_io))"
    by (rule r_into_rtranclp, rule hc_step.step) (simp add: hc_next_def ex_session_views)
  from session_isolated [OF ex_started this] show ?thesis
    by (simp add: ex_session_views hc_top_def Let_def)
qed

definition ex_notice :: bytes where "ex_notice = ''N'' @ be32 4"

lemma notice_hangs_witness: "connect_loop ex_client (take_in ex_notice (ex_mbuf 16 5)) (ex_world (\<lambda>_. [])) = None"
proof -
  have l: "length ex_notice = 5" by (simp add: ex_notice_def)
  note t = idle_take_in [OF ex_mbuf_idle [of 5 16], of ex_notice]
  have b: "buf (take_in ex_notice (ex_mbuf 16 5)) ! 0 = CHR ''N''"
    using t(4) l by (simp add: nth_append) (simp add: ex_notice_def)
  have "pgr_mbuf_msgtype (take_in ex_notice (ex_mbuf 16 5)) = schar CHR ''N''"
    using t l b by (simp add: pgr_mbuf_msgtype_def)
  with t l show ?thesis by (intro notice_hangs) simp_all
qed

lemma accept_one_octet_hangs_witness:
  "pgr_conn_accept ex_context ex_frontend (ex_world (\<lambda>_. [Chunk [byte_of 3]])) = None"
  using accept_one_octet_hangs [of ex_frontend 5 "ex_world (\<lambda>_. [Chunk [byte_of 3]])" ex_context]
  by (simp add: ex_frontend_fields ex_world_def MBUF_SAME_FD_def)

lemma short_password_crashes_witness:
  "accept_password ex_client (take_in ex_notice (ex_mbuf 16 5)) (ex_world (\<lambda>_. [])) = Crash"
proof -
  have l: "length ex_notice = 5" by (simp add: ex_notice_def)
  note t = idle_take_in [OF ex_mbuf_idle [of 5 16], of ex_notice]
  have "buf (take_in ex_notice (ex_mbuf 16 5)) ! 0 = CHR ''N''"
    using t(4) l by (simp add: nth_append) (simp add: ex_notice_def)
  with t l show ?thesis by (intro short_password_crashes) (simp_all add: ex_client_def)
qed

lemma ex_dump: "length (adb_dump ex_context) = 61"
  by (simp add: adb_dump_def ex_context_def adb_line_def ex_hash_def isspace_def uchar_def)

lemma ex_entry_ok: "entry_ok (''alice'', ex_hash)"
  unfolding ex_hash_def by code_simp

lemma authdb_roundtrip_witness:
  "pgr_authdb (\<lambda>_. Some (Some (adb_dump ex_context))) (ex_context\<lparr>authdb_usernames := [], authdb_md5hashes := []\<rparr>) =
    Some (0, ex_context)"
proof -
  let ?fs = "\<lambda>p :: bytes. Some (Some (adb_dump ex_context))"
  let ?c = "ex_context\<lparr>authdb_usernames := [], authdb_md5hashes := []\<rparr>"
  have "authdb_file ?c = Some ''authdb''" "length (adb_dump ex_context) \<le> 2147483647"
    "length (authdb_usernames ex_context) = length (authdb_md5hashes ex_context)"
    "\<And>e. e \<in> set (zip (authdb_usernames ex_context) (authdb_md5hashes ex_context)) \<Longrightarrow> entry_ok e"
    using ex_dump ex_entry_ok by (auto simp: ex_context_def)
  from authdb_roundtrip [of ?c "''authdb''" ?fs ex_context, OF this(1) refl this(2-4)] show ?thesis by (simp add: ex_context_def)
qed

lemma authdb_returns_witness:
  "\<exists>x. pgr_authdb (\<lambda>_. Some (Some ''alice md5 '')) ex_context = Some (0, x)"
proof -
  have "authdb_file ex_context = Some ''authdb''" by (simp add: ex_context_def)
  from authdb_returns [OF this, of "\<lambda>_. Some (Some ''alice md5 '')"] show ?thesis by auto
qed

end
